(* ===== verification/Prelude.thy ===== *)
theory Prelude
  imports Main "HOL-Library.Word"
begin

section \<open>Shared types, hints and list lemmas\<close>

text \<open>
  The machine types of the program (a C++ \<open>int\<close> is a 32-bit word read with \<open>sint\<close>, the fixed
  width integers are words of their width, an octet string is a list of bytes), the big-endian
  octet representation that \<open>htonl\<close>/\<open>ntohl\<close> and \<open>htobe16/32/64\<close> give on the wire, the interface of a
  deterministic machine with an invariant, and the collections of simplification rules that the
  component theories fill:
  \<^item> \<open>stream_simps\<close>: the C++ stream extractors on concrete and symbolic input;
  \<^item> \<open>proxy_defs\<close>: the operations of the connection objects, to unfold together;
  \<^item> \<open>wire_simps\<close>: the octets that AMQP values are written as.
\<close>

named_theorems stream_simps
named_theorems proxy_defs
named_theorems wire_simps

type_synonym byte = "8 word"
type_synonym u8 = "8 word"
type_synonym u16 = "16 word"
type_synonym u32 = "32 word"
type_synonym u64 = "64 word"
type_synonym c_int = "32 word"
type_synonym addr = nat

subsection \<open>Lists\<close>

lemma takeWhile_append_stop:
  "\<forall>x \<in> set xs. P x \<Longrightarrow> \<not> P y \<Longrightarrow> takeWhile P (xs @ y # ys) = xs"
  by (induction xs) auto

lemma dropWhile_append_stop:
  "\<forall>x \<in> set xs. P x \<Longrightarrow> \<not> P y \<Longrightarrow> dropWhile P (xs @ y # ys) = y # ys"
  by (induction xs) auto

lemma takeWhile_all [simp]: "\<forall>x \<in> set xs. P x \<Longrightarrow> takeWhile P xs = xs"
  by (induction xs) auto

lemma dropWhile_all [simp]: "\<forall>x \<in> set xs. P x \<Longrightarrow> dropWhile P xs = []"
  by (induction xs) auto

lemma dropWhile_length_le: "length (dropWhile P xs) \<le> length xs"
  by (induction xs) auto

lemma tl_dropWhile_shorter:
  "dropWhile P xs \<noteq> [] \<Longrightarrow> length (tl (dropWhile P xs)) < length xs"
  using dropWhile_length_le [of P xs] by (cases "dropWhile P xs") auto

lemma take_append_exact [simp]: "length xs = n \<Longrightarrow> take n (xs @ ys) = xs"
  by simp

lemma drop_append_exact [simp]: "length xs = n \<Longrightarrow> drop n (xs @ ys) = ys"
  by simp

subsection \<open>Big-endian octets\<close>

fun to_be :: "nat \<Rightarrow> nat \<Rightarrow> byte list" where
  "to_be 0 x = []"
| "to_be (Suc n) x = to_be n (x div 256) @ [of_nat x]"

definition from_be :: "byte list \<Rightarrow> nat" where
  "from_be bs = foldl (\<lambda>a b. a * 256 + unat b) 0 bs"

lemma length_to_be [simp]: "length (to_be n x) = n"
  by (induction n arbitrary: x) auto

lemma from_be_Nil [simp]: "from_be [] = 0"
  by (simp add: from_be_def)

lemma from_be_snoc [simp]: "from_be (bs @ [b]) = from_be bs * 256 + unat b"
  by (simp add: from_be_def)

lemma unat_of_nat_byte: "unat (of_nat x :: byte) = x mod 256"
  by (simp add: unat_of_nat)

lemma from_be_to_be: "from_be (to_be n x) = x mod 256 ^ n"
proof (induction n arbitrary: x)
  case 0
  then show ?case by simp
next
  case (Suc n)
  have "x mod (256 * 256 ^ n) = 256 * (x div 256 mod 256 ^ n) + x mod 256"
    by (rule mod_mult2_eq)
  with Suc show ?case by (simp add: unat_of_nat_byte)
qed

lemma from_be_bound: "from_be bs < 256 ^ length bs"
proof (induction bs rule: rev_induct)
  case Nil
  then show ?case by simp
next
  case (snoc b bs)
  have "unat b < 256" using unsigned_less [of b] by simp
  with snoc show ?case by simp
qed

lemma to_be_from_be: "to_be (length bs) (from_be bs) = bs"
proof (induction bs rule: rev_induct)
  case Nil
  then show ?case by simp
next
  case (snoc b bs)
  have "unat b < 256" using unsigned_less [of b] by simp
  then have d: "(from_be bs * 256 + unat b) div 256 = from_be bs" by simp
  have "of_nat (from_be bs * 256 + unat b) = (b :: byte)"
  proof (rule word_unat_eq_iff [THEN iffD2])
    show "unat (of_nat (from_be bs * 256 + unat b) :: byte) = unat b"
      using \<open>unat b < 256\<close> unfolding unat_of_nat_byte by simp
  qed
  with snoc d show ?case by simp
qed

text \<open>A word of \<open>n\<close> octets written big-endian and read back.\<close>

definition be_of_word :: "'a::len word \<Rightarrow> byte list" where
  "be_of_word w = to_be (LENGTH('a) div 8) (unat w)"

definition word_of_be :: "byte list \<Rightarrow> 'a::len word" where
  "word_of_be bs = of_nat (from_be bs)"

lemma length_be_of_word: "length (be_of_word (w :: 'a::len word)) = LENGTH('a) div 8"
  by (simp add: be_of_word_def)

lemma word_of_be_of_word:
  assumes "8 * (LENGTH('a) div 8) = LENGTH('a)"
  shows "word_of_be (be_of_word (w :: 'a::len word)) = w"
proof -
  have "(256::nat) ^ (LENGTH('a) div 8) = 2 ^ LENGTH('a)"
  proof -
    have "(256::nat) = 2 ^ 8" by simp
    then show ?thesis using assms by (metis power_mult)
  qed
  then have "unat w mod 256 ^ (LENGTH('a) div 8) = unat w"
    using unsigned_less [of w] by simp
  then show ?thesis by (simp add: word_of_be_def be_of_word_def from_be_to_be)
qed

lemma word8_of_be [simp]: "word_of_be (be_of_word w) = (w :: u8)"
  and word16_of_be [simp]: "word_of_be (be_of_word x) = (x :: u16)"
  and word32_of_be [simp]: "word_of_be (be_of_word y) = (y :: u32)"
  and word64_of_be [simp]: "word_of_be (be_of_word z) = (z :: u64)"
  by (simp_all add: word_of_be_of_word)

lemma length_be8 [simp]: "length (be_of_word (w :: u8)) = 1"
  and length_be16 [simp]: "length (be_of_word (x :: u16)) = 2"
  and length_be32 [simp]: "length (be_of_word (y :: u32)) = 4"
  and length_be64 [simp]: "length (be_of_word (z :: u64)) = 8"
  by (simp_all add: length_be_of_word)

lemma be_of_u8 [simp]: "be_of_word (w :: u8) = [w]"
  by (simp add: be_of_word_def)

subsection \<open>Deterministic machines that may fault\<close>

text \<open>
  \<open>run_steps step s es\<close> feeds a list of events to a machine whose step returns a fault (\<open>Inl\<close>) or
  the next state (\<open>Inr\<close>). The interface \<open>guarded_machine\<close> is what the invariants of the program
  share: an admissible event in a state with the invariant neither faults nor breaks it.
\<close>

fun run_steps :: "('s \<Rightarrow> 'e \<Rightarrow> 'f + 's) \<Rightarrow> 's \<Rightarrow> 'e list \<Rightarrow> 'f + 's" where
  "run_steps step s [] = Inr s"
| "run_steps step s (e # es) =
     (case step s e of Inl f \<Rightarrow> Inl f | Inr s' \<Rightarrow> run_steps step s' es)"

fun admissible_run :: "('s \<Rightarrow> 'e \<Rightarrow> bool) \<Rightarrow> ('s \<Rightarrow> 'e \<Rightarrow> 'f + 's) \<Rightarrow> 's \<Rightarrow> 'e list \<Rightarrow> bool" where
  "admissible_run adm step s [] = True"
| "admissible_run adm step s (e # es) =
     (adm s e \<and> (case step s e of Inl f \<Rightarrow> True | Inr s' \<Rightarrow> admissible_run adm step s' es))"

lemma run_steps_append:
  "run_steps step s (xs @ ys) =
     (case run_steps step s xs of Inl f \<Rightarrow> Inl f | Inr s' \<Rightarrow> run_steps step s' ys)"
  by (induction xs arbitrary: s) (auto split: sum.splits)

lemma admissible_run_append:
  "admissible_run adm step s (xs @ ys) \<longleftrightarrow>
     admissible_run adm step s xs \<and>
     (case run_steps step s xs of Inl f \<Rightarrow> True | Inr s' \<Rightarrow> admissible_run adm step s' ys)"
  by (induction xs arbitrary: s) (auto split: sum.splits)

lemma admissible_run_conj:
  "list_all A es \<Longrightarrow> admissible_run B step s es \<Longrightarrow>
   admissible_run (\<lambda>s e. A e \<and> B s e) step s es"
  by (induction es arbitrary: s) (auto split: sum.splits)

lemma first_fault:
  "run_steps step s es = Inl f \<Longrightarrow>
   \<exists>es1 e es2 s1. es = es1 @ e # es2 \<and> run_steps step s es1 = Inr s1 \<and> step s1 e = Inl f"
proof (induction es arbitrary: s)
  case Nil
  then show ?case by simp
next
  case (Cons e es)
  show ?case
  proof (cases "step s e")
    case (Inl f')
    with Cons.prems show ?thesis by (intro exI [of _ "[]"]) auto
  next
    case (Inr s')
    with Cons obtain es1 e1 es2 s1 where "es = es1 @ e1 # es2" "run_steps step s' es1 = Inr s1" "step s1 e1 = Inl f"
      by fastforce
    with Inr show ?thesis by (intro exI [of _ "e # es1"]) auto
  qed
qed

locale guarded_machine =
  fixes step :: "'s \<Rightarrow> 'e \<Rightarrow> 'f + 's"
    and adm :: "'s \<Rightarrow> 'e \<Rightarrow> bool"
    and inv :: "'s \<Rightarrow> bool"
  assumes step_safe: "inv s \<Longrightarrow> adm s e \<Longrightarrow> \<exists>s'. step s e = Inr s' \<and> inv s'"
begin

lemma run_safe:
  "inv s \<Longrightarrow> admissible_run adm step s es \<Longrightarrow> \<exists>s'. run_steps step s es = Inr s' \<and> inv s'"
proof (induction es arbitrary: s)
  case Nil
  then show ?case by simp
next
  case (Cons e es)
  then obtain s' where "step s e = Inr s'" "inv s'"
    using step_safe by fastforce
  with Cons show ?case by simp
qed

lemma run_no_fault: "inv s \<Longrightarrow> admissible_run adm step s es \<Longrightarrow> run_steps step s es \<noteq> Inl f"
  using run_safe by fastforce

end

text \<open>
  A machine that is simulated by a more abstract one: an event of the first is a list of events of the
  second. \<open>nxt\<close> is the protocol its environment follows, as an automaton; a run within the protocol
  ends like the abstract run, with the same fault if there is one.
\<close>

fun protocol_ok :: "('p \<Rightarrow> 'e \<Rightarrow> 'p option) \<Rightarrow> 'p \<Rightarrow> 'e list \<Rightarrow> bool" where
  "protocol_ok nxt p [] = True"
| "protocol_ok nxt p (e # es) = (case nxt p e of None \<Rightarrow> False | Some p' \<Rightarrow> protocol_ok nxt p' es)"

fun protocol_end :: "('p \<Rightarrow> 'e \<Rightarrow> 'p option) \<Rightarrow> 'p \<Rightarrow> 'e list \<Rightarrow> 'p" where
  "protocol_end nxt p [] = p"
| "protocol_end nxt p (e # es) = (case nxt p e of None \<Rightarrow> p | Some p' \<Rightarrow> protocol_end nxt p' es)"

lemma protocol_append:
  "protocol_ok nxt p (xs @ ys) \<longleftrightarrow> protocol_ok nxt p xs \<and> protocol_ok nxt (protocol_end nxt p xs) ys"
  by (induction xs arbitrary: p) (auto split: option.splits)

text \<open>The environment that may do anything, and events that are abstracted one by one.\<close>

lemma protocol_ok_free [simp]: "protocol_ok (\<lambda>u e. Some ()) u es"
  by (induction es arbitrary: u) simp_all

lemma concat_singletons [simp]: "concat (map (\<lambda>e. [e]) es) = es"
  by (induction es) simp_all

locale fault_simulation =
  fixes cstep :: "'c \<Rightarrow> 'e \<Rightarrow> 'f + 'c"
    and astep :: "'a \<Rightarrow> 'd \<Rightarrow> 'f + 'a"
    and nxt :: "'p \<Rightarrow> 'e \<Rightarrow> 'p option"
    and rel :: "'p \<Rightarrow> 'c \<Rightarrow> 'a \<Rightarrow> bool"
    and abs_ev :: "'e \<Rightarrow> 'd list"
  assumes step_fault: "rel p c a \<Longrightarrow> nxt p e = Some p' \<Longrightarrow> cstep c e = Inl f \<Longrightarrow>
      run_steps astep a (abs_ev e) = Inl f"
    and step_sim: "rel p c a \<Longrightarrow> nxt p e = Some p' \<Longrightarrow> cstep c e = Inr c' \<Longrightarrow>
      \<exists>a'. run_steps astep a (abs_ev e) = Inr a' \<and> rel p' c' a'"
begin

lemma run_sim:
  "rel p c a \<Longrightarrow> protocol_ok nxt p es \<Longrightarrow>
   (case run_steps cstep c es of
      Inl f \<Rightarrow> run_steps astep a (concat (map abs_ev es)) = Inl f
    | Inr c' \<Rightarrow> \<exists>a'. run_steps astep a (concat (map abs_ev es)) = Inr a' \<and> rel (protocol_end nxt p es) c' a')"
proof (induction es arbitrary: p c a)
  case Nil
  then show ?case by simp
next
  case (Cons e es)
  then obtain p' where p': "nxt p e = Some p'" "protocol_ok nxt p' es" by (auto split: option.splits)
  show ?case
  proof (cases "cstep c e")
    case (Inl f)
    with step_fault [OF Cons.prems(1) p'(1)] show ?thesis by (simp add: run_steps_append)
  next
    case (Inr c')
    then obtain a' where a': "run_steps astep a (abs_ev e) = Inr a'" "rel p' c' a'"
      using step_sim [OF Cons.prems(1) p'(1)] by blast
    from Cons.IH [OF a'(2) p'(2)] Inr p'(1) a'(1) show ?thesis
      by (simp add: run_steps_append split: sum.splits)
  qed
qed

end

end
