(* ===== verification/Connection_Processor.thy ===== *)
theory Connection_Processor
  imports Prelude
begin

section \<open>ConnectionProcessor and Forwarder\<close>

text \<open>
  \<open>connectionprocessor.cpp/.h\<close> and \<open>forwarder.cpp/.h\<close>: one end of a TCP connection on top of a
  libevent \<open>bufferevent\<close>. A connection object holds its flags, the address of its peer and the two
  event buffers of its bufferevent: \<open>cp_input\<close> is what libevent has received and the program has
  not taken out, \<open>cp_output\<close> is everything the program has queued for sending, in order (libevent
  drains it to the socket, which the program does not see). A callback slot (\<open>std::function\<close>) is
  modelled by whether it is installed; what the callback does belongs to the object that installed
  it. Operations that would dereference a null pointer or call an empty \<open>std::function\<close> are faults.

  libevent is not part of the repository: the three calls whose results the program tests are the
  fields of the parameter \<open>libevent\<close>, and \<open>libevent_laws\<close> is their documented behaviour. A model
  step takes its own \<open>libevent\<close> argument, so that the same call may succeed once and fail later.
\<close>

datatype fault = Null_pointer | Bad_function_call | Json_logic_error | Uninitialised | Out_of_bounds

record libevent =
  evbuffer_copyout :: "byte list \<Rightarrow> nat \<Rightarrow> int \<times> byte list"
  evbuffer_add_buffer :: "byte list \<Rightarrow> byte list \<Rightarrow> int \<times> byte list \<times> byte list"
  bufferevent_socket_connect_hostname :: "string \<Rightarrow> u16 \<Rightarrow> int"

text \<open>
  \<open>evbuffer_copyout\<close> copies the first bytes and returns their number (it is only called when enough
  bytes are there), \<open>evbuffer_add_buffer dst src\<close> moves all of \<open>src\<close> to the end of \<open>dst\<close> and returns
  0, or fails with another result and changes nothing.
\<close>

definition libevent_laws :: "libevent \<Rightarrow> bool" where
  "libevent_laws L \<longleftrightarrow>
     (\<forall>b n. n \<le> length b \<longrightarrow> evbuffer_copyout L b n = (int n, take n b)) \<and>
     (\<forall>d s. evbuffer_add_buffer L d s = (0, d @ s, []) \<or>
            (\<exists>rc. rc \<noteq> 0 \<and> evbuffer_add_buffer L d s = (rc, d, s)))"

text \<open>The libevent in which every call succeeds.\<close>

definition libevent_ok :: libevent where
  "libevent_ok =
     \<lparr>evbuffer_copyout = (\<lambda>b n. (int (min n (length b)), take n b)),
      evbuffer_add_buffer = (\<lambda>d s. (0, d @ s, [])),
      bufferevent_socket_connect_hostname = (\<lambda>h p. 0)\<rparr>"

lemma libevent_ok_laws: "libevent_laws libevent_ok"
  by (simp add: libevent_laws_def libevent_ok_def)

subsection \<open>ConnectionProcessor\<close>

record connection_processor =
  cp_bev :: bool
  cp_connectCb :: bool
  cp_connecting :: bool
  cp_closeCb :: bool
  cp_incoming :: bool
  cp_host :: string
  cp_port :: u16
  cp_input :: "byte list"
  cp_output :: "byte list"

text \<open>
  The two constructors: for an accepted client connection (its address in text form and its port in
  host order) and for a connection still to be made, whose port member is not initialised.
\<close>

definition new_incoming :: "string \<Rightarrow> u16 \<Rightarrow> connection_processor" where
  "new_incoming ip prt =
     \<lparr>cp_bev = True, cp_connectCb = False, cp_connecting = False, cp_closeCb = False,
      cp_incoming = True, cp_host = ip, cp_port = prt, cp_input = [], cp_output = []\<rparr>"

definition new_outgoing :: "u16 \<Rightarrow> connection_processor" where
  "new_outgoing indet =
     \<lparr>cp_bev = True, cp_connectCb = False, cp_connecting = False, cp_closeCb = False,
      cp_incoming = False, cp_host = [], cp_port = indet, cp_input = [], cp_output = []\<rparr>"

definition setOnCloseCb :: "'a connection_processor_scheme \<Rightarrow> 'a connection_processor_scheme" where
  "setOnCloseCb cp = cp\<lparr>cp_closeCb := True\<rparr>"

text \<open>\<open>close\<close>: free the bufferevent, then call the close callback; the flag tells whether it ran.\<close>

definition ConnectionProcessor_close ::
  "'a connection_processor_scheme \<Rightarrow> 'a connection_processor_scheme \<times> bool" where
  "ConnectionProcessor_close cp = (cp\<lparr>cp_bev := False\<rparr>, cp_closeCb cp)"

definition connect ::
  "libevent \<Rightarrow> string \<Rightarrow> u16 \<Rightarrow> 'a connection_processor_scheme \<Rightarrow>
   bool \<times> 'a connection_processor_scheme" where
  "connect L hst prt cp =
     (let cp' = cp\<lparr>cp_host := hst, cp_port := prt, cp_connecting := True, cp_connectCb := True\<rparr>;
          rc = bufferevent_socket_connect_hostname L hst prt
      in (rc = 0, cp'))"

text \<open>
  \<open>sendData\<close> queues the content of an event buffer: the success flag, the object and what is left in
  the buffer. Without a bufferevent, \<open>bufferevent_get_output\<close> dereferences a null pointer.
\<close>

definition sendData ::
  "libevent \<Rightarrow> byte list \<Rightarrow> 'a connection_processor_scheme \<Rightarrow>
   fault + bool \<times> 'a connection_processor_scheme \<times> byte list" where
  "sendData L data cp =
     (if \<not> cp_bev cp then Inl Null_pointer
      else
        case evbuffer_add_buffer L (cp_output cp) data of
          (rc, out, left) \<Rightarrow> Inr (rc = 0, cp\<lparr>cp_output := out\<rparr>, left))"

text \<open>
  \<open>onEvent\<close> tests three bits of the event mask. Its result names the callback it ran: the connect
  callback with its argument, or the close callback.
\<close>

record bev_events =
  ev_connected :: bool
  ev_eof :: bool
  ev_error :: bool

datatype cp_call = No_call | Call_connect bool | Call_close

definition onEvent ::
  "bev_events \<Rightarrow> 'a connection_processor_scheme \<Rightarrow>
   fault + 'a connection_processor_scheme \<times> cp_call" where
  "onEvent ev cp =
     (if ev_connected ev then
        (let cp' = cp\<lparr>cp_connecting := False\<rparr>
         in if cp_connectCb cp' then Inr (cp', Call_connect True) else Inl Bad_function_call)
      else if ev_eof ev \<or> ev_error ev then
        (if cp_connecting cp
         then (if cp_connectCb cp then Inr (cp, Call_connect False) else Inl Bad_function_call)
         else
           case ConnectionProcessor_close cp of
             (cp', called) \<Rightarrow> Inr (cp', if called then Call_close else No_call))
      else Inr (cp, No_call))"

subsection \<open>Forwarder\<close>

text \<open>The destination of a forwarder is a bare pointer: null until \<open>setDestination\<close>.\<close>

record forwarder = connection_processor +
  fw_destination :: bool

definition new_Forwarder :: "u16 \<Rightarrow> forwarder" where
  "new_Forwarder indet = connection_processor.extend (new_outgoing indet) \<lparr>fw_destination = False\<rparr>"

definition new_Forwarder_incoming :: "string \<Rightarrow> u16 \<Rightarrow> forwarder" where
  "new_Forwarder_incoming ip prt =
     connection_processor.extend (new_incoming ip prt) \<lparr>fw_destination = False\<rparr>"

definition setDestination :: "forwarder \<Rightarrow> forwarder" where
  "setDestination f = f\<lparr>fw_destination := True\<rparr>"

text \<open>
  \<open>dataRecieved\<close> logs \<open>*_destination\<close> before it tests the pointer, so a null destination faults.
  The bytes it does not manage to queue stay in its input buffer.
\<close>

definition Forwarder_dataRecieved ::
  "libevent \<Rightarrow> forwarder \<Rightarrow> 'a connection_processor_scheme \<Rightarrow>
   fault + forwarder \<times> 'a connection_processor_scheme" where
  "Forwarder_dataRecieved L f dest =
     (if \<not> fw_destination f then Inl Null_pointer
      else
        case sendData L (cp_input f) dest of
          Inl e \<Rightarrow> Inl e
        | Inr (ok, dest', left) \<Rightarrow> Inr (f\<lparr>cp_input := left\<rparr>, dest'))"

subsection \<open>Lemmas\<close>

lemma add_buffer_cases:
  assumes "libevent_laws L" and "evbuffer_add_buffer L d s = (rc, d', s')"
  shows "d' @ s' = d @ s" and "rc = 0 \<longleftrightarrow> (rc, d', s') = (0, d @ s, [])"
  using assms unfolding libevent_laws_def by (metis append.assoc append_Nil2 prod.inject)+

lemma copyout_laws:
  "libevent_laws L \<Longrightarrow> n \<le> length b \<Longrightarrow> evbuffer_copyout L b n = (int n, take n b)"
  by (simp add: libevent_laws_def)

lemma sendData_Inr:
  assumes "libevent_laws L" "cp_bev cp"
  obtains ok out left where "sendData L data cp = Inr (ok, cp\<lparr>cp_output := out\<rparr>, left)"
    and "out @ left = cp_output cp @ data" and "ok \<Longrightarrow> left = []"
proof -
  obtain rc out left where a: "evbuffer_add_buffer L (cp_output cp) data = (rc, out, left)"
    by (metis prod_cases3)
  with assms have "sendData L data cp = Inr (rc = 0, cp\<lparr>cp_output := out\<rparr>, left)"
    by (simp add: sendData_def)
  moreover note add_buffer_cases [OF assms(1) a]
  ultimately show ?thesis using that by blast
qed

text \<open>
  \<open>sendData\<close> moves bytes, it never makes or loses any: after every call the queued output
  followed by what is left in the source buffer is the old output followed by the old buffer, and
  the success flag is false exactly when libevent refused the move, in which case nothing changed.
\<close>

theorem sendData_conserves:
  assumes "libevent_laws L" and "sendData L data cp = Inr (ok, cp', left)"
  shows "cp_output cp' @ left = cp_output cp @ data \<and>
    (if ok then left = [] else left = data \<and> cp' = cp)"
proof -
  obtain rc d' s' where a: "evbuffer_add_buffer L (cp_output cp) data = (rc, d', s')"
    by (metis prod_cases3)
  have r: "ok = (rc = 0)" "cp' = cp\<lparr>cp_output := d'\<rparr>" "left = s'"
    using assms(2) a by (auto simp: sendData_def split: if_splits)
  have "(rc = 0 \<and> d' = cp_output cp @ data \<and> s' = []) \<or> (rc \<noteq> 0 \<and> d' = cp_output cp \<and> s' = data)"
    using assms(1) a unfolding libevent_laws_def by (metis prod.inject)
  with r show ?thesis by auto
qed

theorem sendData_conserves_witness:
  "sendData libevent_ok [1, 2] (new_incoming ''h'' 1) =
     Inr (True, (new_incoming ''h'' 1)\<lparr>cp_output := [1, 2]\<rparr>, []) \<and>
   cp_output ((new_incoming ''h'' 1)\<lparr>cp_output := [1, 2]\<rparr>) = ([1, 2] :: byte list)"
proof -
  have r: "sendData libevent_ok [1, 2] (new_incoming ''h'' 1) =
     Inr (True, (new_incoming ''h'' 1)\<lparr>cp_output := [1, 2]\<rparr>, [])"
    by (simp add: sendData_def libevent_ok_def new_incoming_def)
  show ?thesis
    using sendData_conserves [OF libevent_ok_laws r] r by (simp add: new_incoming_def)
qed

end
