(* ===== verification/Streams.thy ===== *)
theory Streams
  imports Prelude
begin

section \<open>The C++ input streams and number conversions the program uses\<close>

text \<open>
  \<open>Config::read\<close> and \<open>Config::parseCmdLine\<close> are written over \<open>std::istream\<close>, \<open>std::getline\<close>,
  \<open>operator>>\<close> and \<open>std::atoi\<close>; \<open>AMQP::Address\<close> uses \<open>atoi\<close> and \<open>std::to_string\<close>. These are modelled
  here with their state bits, as the C++ standard (and, where it leaves a choice, libstdc++, which
  the Dockerfile installs) defines them: an extractor first builds a sentry (a stream that is not
  good fails at once and leaves its target alone), skips white space, reads the longest field and
  sets \<open>eofbit\<close> when it ran into the end; an integer out of range stores the nearest limit and
  sets \<open>failbit\<close>; a field without digits stores 0 and sets \<open>failbit\<close>.
\<close>

record istream =
  rest :: string
  eofbit :: bool
  failbit :: bool

definition istream_of :: "string \<Rightarrow> istream" where
  "istream_of s = \<lparr>rest = s, eofbit = False, failbit = False\<rparr>"

definition good :: "istream \<Rightarrow> bool" where
  "good is \<longleftrightarrow> \<not> eofbit is \<and> \<not> failbit is"

definition newline :: char where
  "newline = CHR 0x0A"

definition isspace :: "char \<Rightarrow> bool" where
  "isspace c \<longleftrightarrow> c \<in> {CHR 0x20, CHR 0x09, CHR 0x0A, CHR 0x0B, CHR 0x0C, CHR 0x0D}"

definition isdigit :: "char \<Rightarrow> bool" where
  "isdigit c \<longleftrightarrow> 48 \<le> (of_char c :: nat) \<and> (of_char c :: nat) \<le> 57"

definition getline :: "istream \<Rightarrow> string \<times> istream" where
  "getline is =
     (if \<not> good is then ([], is\<lparr>failbit := True\<rparr>)
      else
        let line = takeWhile (\<lambda>c. c \<noteq> newline) (rest is);
            more = dropWhile (\<lambda>c. c \<noteq> newline) (rest is)
        in if more = [] then (line, is\<lparr>rest := [], eofbit := True, failbit := (line = [])\<rparr>)
           else (line, is\<lparr>rest := tl more\<rparr>))"

text \<open>The sentry of a formatted extractor: did it succeed, and the stream after it.\<close>

definition sentry :: "istream \<Rightarrow> bool \<times> istream" where
  "sentry is =
     (if \<not> good is then (False, is\<lparr>failbit := True\<rparr>)
      else
        let r = dropWhile isspace (rest is)
        in if r = [] then (False, is\<lparr>rest := [], eofbit := True, failbit := True\<rparr>)
           else (True, is\<lparr>rest := r\<rparr>))"

definition extract_string :: "string \<Rightarrow> istream \<Rightarrow> string \<times> istream" where
  "extract_string old is =
     (case sentry is of
        (False, is') \<Rightarrow> (old, is')
      | (True, is') \<Rightarrow>
          let w = takeWhile (\<lambda>c. \<not> isspace c) (rest is');
              r = dropWhile (\<lambda>c. \<not> isspace c) (rest is')
          in (w, is'\<lparr>rest := r, eofbit := (r = [])\<rparr>))"

definition digit_value :: "char \<Rightarrow> nat" where
  "digit_value c = of_char c - 48"

definition nat_of_digits :: "string \<Rightarrow> nat" where
  "nat_of_digits ds = foldl (\<lambda>n c. n * 10 + digit_value c) 0 ds"

text \<open>The sign of a decimal field, and the characters after it.\<close>

definition split_sign :: "string \<Rightarrow> bool \<times> string" where
  "split_sign s =
     (case s of
        [] \<Rightarrow> (False, [])
      | c # cs \<Rightarrow> if c = CHR ''-'' then (True, cs) else if c = CHR ''+'' then (False, cs) else (False, s))"

text \<open>
  An integer field for a type with values \<open>lo..hi\<close>; \<open>sgnd\<close> tells whether a negative magnitude is
  checked against \<open>lo\<close> or against \<open>hi\<close> (libstdc++ negates modulo the type for unsigned targets).
  The result is the stored value (if the sentry succeeded) and the stream after the extraction.
\<close>

definition extract_integer :: "bool \<Rightarrow> int \<Rightarrow> int \<Rightarrow> istream \<Rightarrow> int option \<times> istream" where
  "extract_integer sgnd lo hi is =
     (case sentry is of
        (False, is') \<Rightarrow> (None, is')
      | (True, is') \<Rightarrow>
          let (neg, body) = split_sign (rest is');
              ds = takeWhile isdigit body;
              r = dropWhile isdigit body;
              m = int (nat_of_digits ds);
              at_end = is'\<lparr>rest := r, eofbit := (r = [])\<rparr>
          in if ds = [] then (Some 0, at_end\<lparr>failbit := True\<rparr>)
             else if neg \<and> sgnd
             then (if m > - lo then (Some lo, at_end\<lparr>failbit := True\<rparr>) else (Some (- m), at_end))
             else if m > hi then (Some hi, at_end\<lparr>failbit := True\<rparr>)
             else (Some (if neg then - m else m), at_end))"

definition extract_int :: "c_int \<Rightarrow> istream \<Rightarrow> c_int \<times> istream" where
  "extract_int old is =
     (case extract_integer True (- (2 ^ 31)) (2 ^ 31 - 1) is of
        (None, is') \<Rightarrow> (old, is')
      | (Some v, is') \<Rightarrow> (word_of_int v, is'))"

definition extract_u16 :: "u16 \<Rightarrow> istream \<Rightarrow> u16 \<times> istream" where
  "extract_u16 old is =
     (case extract_integer False 0 65535 is of
        (None, is') \<Rightarrow> (old, is')
      | (Some v, is') \<Rightarrow> (word_of_int v, is'))"

text \<open>
  \<open>atoi\<close> of the C library: \<open>strtol\<close> saturates at 64 bits and the result is converted to \<open>int\<close>.
\<close>

definition atoi :: "string \<Rightarrow> c_int" where
  "atoi s =
     (let (neg, body) = split_sign (dropWhile isspace s);
          m = int (nat_of_digits (takeWhile isdigit body));
          v = (if neg then max (- (2 ^ 63)) (- m) else min (2 ^ 63 - 1) m)
      in word_of_int v)"

text \<open>Decimal printing, as \<open>std::to_string\<close> and \<open>operator<<\<close> do.\<close>

fun show_nat :: "nat \<Rightarrow> string" where
  "show_nat n =
     (if n < 10 then [char_of (48 + n)] else show_nat (n div 10) @ [char_of (48 + n mod 10)])"

declare show_nat.simps [simp del]

definition show_int :: "int \<Rightarrow> string" where
  "show_int i = (if i < 0 then CHR ''-'' # show_nat (nat (- i)) else show_nat (nat i))"

subsection \<open>Decimal digits\<close>

lemma of_char_digit [simp]: "(d::nat) < 10 \<Longrightarrow> (of_char (char_of (48 + d) :: char) :: nat) = 48 + d"
  by (simp add: of_char_of)

lemma isdigit_digit [simp]: "(d::nat) < 10 \<Longrightarrow> isdigit (char_of (48 + d))"
  by (simp add: isdigit_def)

lemma digit_value_digit [simp]: "(d::nat) < 10 \<Longrightarrow> digit_value (char_of (48 + d)) = d"
  by (simp add: digit_value_def)

lemma nat_of_digits_snoc [simp]: "nat_of_digits (ds @ [c]) = nat_of_digits ds * 10 + digit_value c"
  by (simp add: nat_of_digits_def)

lemma nat_of_digits_Nil [simp]: "nat_of_digits [] = 0"
  by (simp add: nat_of_digits_def)

lemma nat_of_digits_single [simp]: "nat_of_digits [c] = digit_value c"
  using nat_of_digits_snoc [of "[]" c] by simp

lemma nat_of_digits_show [simp]: "nat_of_digits (show_nat n) = n"
proof (induction n rule: show_nat.induct)
  case (1 n)
  then show ?case by (cases "n < 10") (simp_all add: show_nat.simps [of n])
qed

lemma show_nat_digits: "\<forall>c \<in> set (show_nat n). isdigit c"
proof (induction n rule: show_nat.induct)
  case (1 n)
  then show ?case by (cases "n < 10") (simp_all add: show_nat.simps [of n])
qed

lemma show_nat_nonempty [simp]: "show_nat n \<noteq> []"
  by (subst show_nat.simps) simp

lemma isdigit_not_space: "isdigit c \<Longrightarrow> \<not> isspace c"
  by (auto simp: isdigit_def isspace_def)

lemma isdigit_not_sign: "isdigit c \<Longrightarrow> c \<noteq> CHR ''-'' \<and> c \<noteq> CHR ''+''"
  by (auto simp: isdigit_def)

lemma newline_isspace [simp]: "isspace newline"
  by (simp add: isspace_def newline_def)

lemma show_int_chars: "c \<in> set (show_int i) \<Longrightarrow> \<not> isspace c"
  using show_nat_digits isdigit_not_space
  by (fastforce simp: show_int_def isspace_def split: if_splits)

lemma show_int_nonempty [simp]: "show_int i \<noteq> []"
  by (simp add: show_int_def)

lemma split_sign_show_nat [simp]: "split_sign (show_nat n @ r) = (False, show_nat n @ r)"
proof (cases "show_nat n")
  case Nil
  then show ?thesis by simp
next
  case (Cons c cs)
  then have "isdigit c" using show_nat_digits [of n] by simp
  then show ?thesis using Cons isdigit_not_sign [of c] by (simp add: split_sign_def)
qed

lemma split_sign_show_int:
  "split_sign (show_int i @ r) = (i < 0, show_nat (nat \<bar>i\<bar>) @ r)"
  by (auto simp: show_int_def) (simp add: split_sign_def)

subsection \<open>Extraction from a known prefix\<close>

lemma istream_of_simps [simp]:
  "rest (istream_of s) = s" "eofbit (istream_of s) = False" "failbit (istream_of s) = False"
  by (simp_all add: istream_of_def)

lemma dropWhile_hd: "xs \<noteq> [] \<Longrightarrow> \<not> P (hd xs) \<Longrightarrow> dropWhile P xs = xs"
  by (cases xs) auto

lemma sentry_field:
  assumes "good is" "rest is = w @ r" "w \<noteq> []" "\<forall>c \<in> set w. \<not> isspace c"
  shows "sentry is = (True, is)"
  using assms by (cases w) (auto simp: sentry_def Let_def)

lemma sentry_blank_field:
  assumes "good is" "rest is = CHR '' '' # w @ r" "w \<noteq> []" "\<forall>c \<in> set w. \<not> isspace c"
  shows "sentry is = (True, is\<lparr>rest := w @ r\<rparr>)"
  using assms by (cases w) (auto simp: sentry_def Let_def isspace_def)

text \<open>A field ends at the end of the text or at a character that is not of its class.\<close>

definition stops :: "(char \<Rightarrow> bool) \<Rightarrow> string \<Rightarrow> bool" where
  "stops P r \<longleftrightarrow> r = [] \<or> \<not> P (hd r)"

lemma takeWhile_stops: "\<forall>c \<in> set w. P c \<Longrightarrow> stops P r \<Longrightarrow> takeWhile P (w @ r) = w"
  by (cases r) (auto simp: stops_def takeWhile_append_stop)

lemma dropWhile_stops: "\<forall>c \<in> set w. P c \<Longrightarrow> stops P r \<Longrightarrow> dropWhile P (w @ r) = r"
  by (cases r) (auto simp: stops_def dropWhile_append_stop)

lemma extract_integer_sentry:
  assumes "sentry is = (True, js)" "rest js = show_int i @ r" "stops isdigit r"
    and "lo \<le> i" "i \<le> hi" "0 \<le> hi" "sgnd \<or> 0 \<le> i" "lo \<le> 0"
  shows "extract_integer sgnd lo hi is = (Some i, js\<lparr>rest := r, eofbit := (r = [])\<rparr>)"
  using assms
  by (auto simp: extract_integer_def split_sign_show_int Let_def
      takeWhile_stops [OF show_nat_digits] dropWhile_stops [OF show_nat_digits])

lemma stops_digit_space [simp]: "isspace c \<Longrightarrow> stops isdigit (c # r)"
  using isdigit_not_space [of c] by (auto simp: stops_def)

lemma stops_Nil [simp]: "stops P []"
  by (simp add: stops_def)

lemma stops_nonspace [simp]: "isspace c \<Longrightarrow> stops (\<lambda>c. \<not> isspace c) (c # r)"
  by (simp add: stops_def)

lemma atoi_show_nat: "n < 2 ^ 31 \<Longrightarrow> atoi (show_nat n) = of_nat n"
proof -
  assume n: "n < 2 ^ 31"
  have "dropWhile isspace (show_nat n) = show_nat n"
    using show_nat_digits [of n] isdigit_not_space
    by (cases "show_nat n") auto
  moreover have "takeWhile isdigit (show_nat n) = show_nat n"
    using show_nat_digits [of n] by simp
  ultimately show ?thesis
    using n split_sign_show_nat [of n "[]"] by (simp add: atoi_def)
qed

end
