(* ===== verification/Config.thy ===== *)
theory Config
  imports Streams "HOL-Library.While_Combinator"
begin

section \<open>Config: the routing table and the command line\<close>

text \<open>
  \<open>config.cpp\<close>, \<open>config.h\<close> and \<open>toPriority\<close> of \<open>main.cpp\<close>. A configuration maps a client id to the
  host the client is forwarded to. \<open>read\<close> is the loop over \<open>std::getline\<close>; each line is parsed by
  the three extractors of \<open>Config::read\<close>. The local \<open>uint16_t port\<close> of an iteration is not
  initialised: \<open>indet n\<close> is the value its storage holds in iteration \<open>n\<close>, an argument of the model.
  \<open>parseCmdLine\<close> takes the results of the successive \<open>getopt\<close> calls (the option character and
  \<open>optarg\<close>) up to the call that returns -1.
\<close>

type_synonym host = "string \<times> u16"

record config =
  cfg_hosts :: "c_int \<rightharpoonup> host"
  cfg_verbosity :: c_int
  cfg_cfgFile :: string
  cfg_logFile :: string
  cfg_useSyslog :: bool
  cfg_useConsole :: bool
  cfg_port :: u16
  cfg_rmqStr :: string
  cfg_rmqQueueName :: string

definition new_Config :: config where
  "new_Config =
     \<lparr>cfg_hosts = Map.empty, cfg_verbosity = 0, cfg_cfgFile = ''config.cfg'', cfg_logFile = [],
      cfg_useSyslog = False, cfg_useConsole = False, cfg_port = 12345,
      cfg_rmqStr = ''amqp://localhost/'', cfg_rmqQueueName = ''proxyCtl''\<rparr>"

text \<open>The accessors.\<close>

definition logToConsole :: "config \<Rightarrow> bool" where
  [simp]: "logToConsole cfg = cfg_useConsole cfg"

definition logToSyslog :: "config \<Rightarrow> bool" where
  [simp]: "logToSyslog cfg = cfg_useSyslog cfg"

definition logFilename :: "config \<Rightarrow> string" where
  [simp]: "logFilename cfg = cfg_logFile cfg"

definition Config_verbosity :: "config \<Rightarrow> c_int" where
  [simp]: "Config_verbosity cfg = cfg_verbosity cfg"

definition cfgFilename :: "config \<Rightarrow> string" where
  [simp]: "cfgFilename cfg = cfg_cfgFile cfg"

definition Config_port :: "config \<Rightarrow> u16" where
  [simp]: "Config_port cfg = cfg_port cfg"

definition getRMQConnectionString :: "config \<Rightarrow> string" where
  [simp]: "getRMQConnectionString cfg = cfg_rmqStr cfg"

definition getRMQQueueName :: "config \<Rightarrow> string" where
  [simp]: "getRMQQueueName cfg = cfg_rmqQueueName cfg"

subsection \<open>Reading the configuration file\<close>

datatype line_error = Bad_id | Bad_host | Bad_port

definition parse_line :: "u16 \<Rightarrow> string \<Rightarrow> line_error + c_int \<times> host" where
  "parse_line port0 line =
     (let (i, is1) = extract_int 0 (istream_of line)
      in if failbit is1 then Inl Bad_id
         else
           let (hst, is2) = extract_string [] is1
           in if failbit is2 then Inl Bad_host
              else
                let (prt, is3) = extract_u16 port0 is2
                in if failbit is3 \<and> \<not> eofbit is3 then Inl Bad_port
                   else Inr (i, hst, prt))"

text \<open>
  The loop \<open>while (in)\<close>: every round consumes a character, sets \<open>eofbit\<close> or sets \<open>failbit\<close>.
\<close>

definition stream_left :: "istream \<Rightarrow> nat" where
  "stream_left is = 2 * length (rest is) + of_bool (\<not> eofbit is) + of_bool (\<not> failbit is)"

lemma getline_decreases: "\<not> failbit is \<Longrightarrow> stream_left (snd (getline is)) < stream_left is"
  using tl_dropWhile_shorter [of "\<lambda>c. c \<noteq> newline" "rest is"]
  by (auto simp: getline_def stream_left_def good_def Let_def)

function read_loop :: "(nat \<Rightarrow> u16) \<Rightarrow> nat \<Rightarrow> istream \<Rightarrow> config \<Rightarrow> bool \<times> config" where
  "read_loop indet n is cfg =
     (if failbit is then (True, cfg)
      else
        let (line, is') = getline is
        in if line = [] then read_loop indet (Suc n) is' cfg
           else
             case parse_line (indet n) line of
               Inl e \<Rightarrow> (False, cfg)
             | Inr (i, hst) \<Rightarrow>
                 read_loop indet (Suc n) is' (cfg\<lparr>cfg_hosts := (cfg_hosts cfg)(i \<mapsto> hst)\<rparr>))"
  by pat_completeness auto
termination
proof (relation "measure (\<lambda>(indet, n, is, cfg). stream_left is)", goal_cases)
  case 1
  then show ?case by simp
next
  case (2 indet n st cfg line st')
  then show ?case using getline_decreases [of st] by (cases "getline st") auto
next
  case (3 indet n st cfg line st' x y)
  then show ?case using getline_decreases [of st] by (cases "getline st") auto
qed

declare read_loop.simps [simp del]

text \<open>
  The same loop round by round, as the code runs it: the state is the number of rounds so far, the
  stream, the table and whether \<open>return false\<close> was not met; \<open>read_rounds\<close> iterates the body as long as
  the condition holds and is \<open>None\<close> if it never ends.
\<close>

type_synonym read_state = "nat \<times> istream \<times> config \<times> bool"

fun read_round :: "(nat \<Rightarrow> u16) \<Rightarrow> read_state \<Rightarrow> read_state" where
  "read_round indet (n, is, cfg, ok) =
     (let (line, is') = getline is
      in if line = [] then (Suc n, is', cfg, True)
         else
           case parse_line (indet n) line of
             Inl e \<Rightarrow> (Suc n, is', cfg, False)
           | Inr (i, hst) \<Rightarrow> (Suc n, is', cfg\<lparr>cfg_hosts := (cfg_hosts cfg)(i \<mapsto> hst)\<rparr>, True))"

definition read_rounds :: "(nat \<Rightarrow> u16) \<Rightarrow> read_state \<Rightarrow> read_state option" where
  "read_rounds indet = while_option (\<lambda>(n, is, cfg, ok). ok \<and> \<not> failbit is) (read_round indet)"

definition read :: "(nat \<Rightarrow> u16) \<Rightarrow> istream \<Rightarrow> config \<Rightarrow> bool \<times> config" where
  "read indet is cfg = (if failbit is then (False, cfg) else read_loop indet 0 is cfg)"

subsection \<open>The command line\<close>

type_synonym getopt_result = "char \<times> string option"

fun parseCmdLine :: "getopt_result list \<Rightarrow> config \<Rightarrow> bool \<times> config" where
  "parseCmdLine [] cfg = (True, cfg)"
| "parseCmdLine ((c, optarg) # results) cfg =
     (if c = CHR ''v'' then
        (case optarg of None \<Rightarrow> (False, cfg)
         | Some a \<Rightarrow> parseCmdLine results (cfg\<lparr>cfg_verbosity := atoi a\<rparr>))
      else if c = CHR ''c'' then
        (case optarg of None \<Rightarrow> (False, cfg)
         | Some a \<Rightarrow> parseCmdLine results (cfg\<lparr>cfg_cfgFile := a\<rparr>))
      else if c = CHR ''l'' then
        (case optarg of None \<Rightarrow> (False, cfg)
         | Some a \<Rightarrow> parseCmdLine results (cfg\<lparr>cfg_logFile := a\<rparr>))
      else if c = CHR ''p'' then
        (case optarg of None \<Rightarrow> (False, cfg)
         | Some a \<Rightarrow> parseCmdLine results (cfg\<lparr>cfg_port := ucast (atoi a)\<rparr>))
      else if c = CHR ''r'' then
        (case optarg of None \<Rightarrow> (False, cfg)
         | Some a \<Rightarrow> parseCmdLine results (cfg\<lparr>cfg_rmqStr := a\<rparr>))
      else if c = CHR ''q'' then
        (case optarg of None \<Rightarrow> (False, cfg)
         | Some a \<Rightarrow> parseCmdLine results (cfg\<lparr>cfg_rmqQueueName := a\<rparr>))
      else if c = CHR ''s'' then parseCmdLine results (cfg\<lparr>cfg_useSyslog := True\<rparr>)
      else if c = CHR ''o'' then parseCmdLine results (cfg\<lparr>cfg_useConsole := True\<rparr>)
      else if c = CHR ''h'' then (False, cfg)
      else (False, cfg))"

subsection \<open>Lookups\<close>

definition getHostById :: "config \<Rightarrow> c_int \<Rightarrow> host" where
  "getHostById cfg i = (case cfg_hosts cfg i of Some h \<Rightarrow> h | None \<Rightarrow> ([], 0))"

text \<open>
  \<open>toPriority\<close> indexes a table of four priorities. A negative index reads outside the table, which
  the model shows as \<open>None\<close>.
\<close>

datatype priority = P_ERROR | P_WARN | P_INFO | P_DEBUG

definition toPriority :: "c_int \<Rightarrow> priority option" where
  "toPriority l =
     (let i = (if 3 < sint l then 3 else sint l)
      in if 0 \<le> i then Some ([P_ERROR, P_WARN, P_INFO, P_DEBUG] ! nat i) else None)"

subsection \<open>What a well-formed line is parsed to\<close>

text \<open>The text of a configuration, one \<open>id host port\<close> line per entry, as in \<open>config.cfg\<close>.\<close>

definition render_entry :: "c_int \<times> host \<Rightarrow> string" where
  "render_entry e =
     (case e of (i, h, p) \<Rightarrow> show_int (sint i) @ CHR '' '' # h @ CHR '' '' # show_nat (unat p))"

definition render :: "(c_int \<times> host) list \<Rightarrow> string" where
  "render es = concat (map (\<lambda>e. render_entry e @ [newline]) es)"

definition host_word :: "string \<Rightarrow> bool" where
  "host_word h \<longleftrightarrow> h \<noteq> [] \<and> (\<forall>c \<in> set h. \<not> isspace c)"

lemma sint_range: "- (2 ^ 31) \<le> sint (i :: c_int) \<and> sint i \<le> 2 ^ 31 - 1"
  using sint_range_size [of i] by (simp add: word_size)

lemma good_rest [simp]: "good (is\<lparr>rest := r\<rparr>) = good is"
  by (simp add: good_def)

lemma good_istream_of [simp]: "good (istream_of s)"
  by (simp add: good_def)

lemma extract_int_field:
  assumes "good is" "rest is = show_int (sint i) @ r" "stops isdigit r"
  shows "extract_int old is = (i, is\<lparr>rest := r, eofbit := (r = [])\<rparr>)"
proof -
  have "sentry is = (True, is)"
    using assms show_int_chars by (intro sentry_field [where w = "show_int (sint i)"]) auto
  then show ?thesis
    using assms sint_range [of i] by (simp add: extract_int_def extract_integer_sentry)
qed

lemma extract_string_field:
  assumes "good is" "rest is = CHR '' '' # h @ r" "host_word h" "stops (\<lambda>c. \<not> isspace c) r"
  shows "extract_string old is = (h, is\<lparr>rest := r, eofbit := (r = [])\<rparr>)"
proof -
  have "sentry is = (True, is\<lparr>rest := h @ r\<rparr>)"
    using assms by (intro sentry_blank_field) (auto simp: host_word_def)
  moreover have w: "\<forall>c \<in> set h. \<not> isspace c" using assms by (simp add: host_word_def)
  ultimately show ?thesis
    using takeWhile_stops [OF w assms(4)] dropWhile_stops [OF w assms(4)]
    by (simp add: extract_string_def del: dropWhile_eq_Nil_conv)
qed

lemma show_int_uint: "show_int (uint (p :: u16)) = show_nat (unat p)"
  by (simp add: show_int_def)

lemma extract_u16_field:
  assumes "good is" "rest is = CHR '' '' # show_nat (unat p) @ r" "stops isdigit r"
  shows "extract_u16 old is = (p, is\<lparr>rest := r, eofbit := (r = [])\<rparr>)"
proof -
  let ?js = "is\<lparr>rest := show_nat (unat p) @ r\<rparr>"
  have "sentry is = (True, ?js)"
    using assms show_nat_digits [of "unat p"] isdigit_not_space
    by (intro sentry_blank_field) auto
  moreover have "uint p \<le> 65535" using uint_lt2p [of p] by simp
  ultimately have "extract_integer False 0 65535 is =
      (Some (uint p), ?js\<lparr>rest := r, eofbit := (r = [])\<rparr>)"
    using assms(3) by (intro extract_integer_sentry) (simp_all add: show_int_uint)
  then show ?thesis by (simp add: extract_u16_def)
qed

lemma parse_line_render:
  assumes "host_word h"
  shows "parse_line port0 (render_entry (i, h, p)) = Inr (i, h, p)"
proof -
  let ?line = "render_entry (i, h, p)"
  let ?is1 = "(istream_of ?line)\<lparr>rest := CHR '' '' # h @ CHR '' '' # show_nat (unat p), eofbit := False\<rparr>"
  let ?is2 = "?is1\<lparr>rest := CHR '' '' # show_nat (unat p), eofbit := False\<rparr>"
  have sp: "isspace (CHR '' '')" by (simp add: isspace_def)
  have "extract_int 0 (istream_of ?line) = (i, ?is1)"
    by (subst extract_int_field [where r = "CHR '' '' # h @ CHR '' '' # show_nat (unat p)"])
      (simp_all add: render_entry_def sp)
  moreover have "extract_string [] ?is1 = (h, ?is2)"
    using assms
    by (subst extract_string_field [where r = "CHR '' '' # show_nat (unat p)" and h = h])
      (simp_all add: sp good_def)
  moreover have "extract_u16 port0 ?is2 = (p, ?is2\<lparr>rest := [], eofbit := True\<rparr>)"
    by (subst extract_u16_field [where r = "[]"]) (simp_all add: good_def)
  ultimately show ?thesis by (simp add: parse_line_def)
qed

text \<open>
  A line that stops after the host: the sentry of the port extraction fails at the end of the line,
  the port variable keeps what it held, and the test \<open>!is && !is.eof()\<close> does not reject the line.
\<close>

lemma parse_line_no_port:
  assumes "host_word h"
  shows "parse_line port0 (show_int (sint i) @ CHR '' '' # h) = Inr (i, h, port0)"
proof -
  let ?line = "show_int (sint i) @ CHR '' '' # h"
  let ?is1 = "(istream_of ?line)\<lparr>rest := CHR '' '' # h, eofbit := False\<rparr>"
  let ?is2 = "?is1\<lparr>rest := [], eofbit := True\<rparr>"
  have "extract_int 0 (istream_of ?line) = (i, ?is1)"
    by (subst extract_int_field [where r = "CHR '' '' # h"]) (simp_all add: isspace_def)
  moreover have "extract_string [] ?is1 = (h, ?is2)"
    using assms by (subst extract_string_field [where r = "[]" and h = h]) (simp_all add: good_def)
  moreover have "extract_u16 port0 ?is2 = (port0, ?is2\<lparr>failbit := True\<rparr>)"
    by (simp add: extract_u16_def extract_integer_def sentry_def good_def)
  ultimately show ?thesis by (simp add: parse_line_def)
qed

text \<open>A port that is too large: the limit is stored and \<open>failbit\<close> set.\<close>

lemma parse_line_big_port:
  assumes "host_word h" and "65535 < p" and "r = [] \<or> r = '' ''"
  shows "parse_line port0 (show_int (sint i) @ CHR '' '' # h @ CHR '' '' # show_nat p @ r) =
    (if r = [] then Inr (i, h, 65535) else Inl Bad_port)"
proof -
  let ?tail = "CHR '' '' # show_nat p @ r"
  let ?line = "show_int (sint i) @ CHR '' '' # h @ ?tail"
  let ?is1 = "(istream_of ?line)\<lparr>rest := CHR '' '' # h @ ?tail, eofbit := False\<rparr>"
  let ?is2 = "?is1\<lparr>rest := ?tail, eofbit := False\<rparr>"
  let ?is3 = "?is2\<lparr>rest := show_nat p @ r\<rparr>"
  have sp: "isspace (CHR '' '')" by (simp add: isspace_def)
  have s: "stops isdigit r" using assms(3) sp by auto
  have "extract_int 0 (istream_of ?line) = (i, ?is1)"
    by (subst extract_int_field [where r = "CHR '' '' # h @ ?tail"]) (simp_all add: sp)
  moreover have "extract_string [] ?is1 = (h, ?is2)"
    using assms by (subst extract_string_field [where r = ?tail and h = h]) (simp_all add: sp good_def)
  moreover have "sentry ?is2 = (True, ?is3)"
    using show_nat_digits [of p] isdigit_not_space
    by (intro sentry_blank_field) (simp_all add: good_def)
  then have "extract_u16 port0 ?is2 = (65535, ?is3\<lparr>rest := r, eofbit := (r = []), failbit := True\<rparr>)"
    using assms(2)
    by (simp add: extract_u16_def extract_integer_def Let_def
        takeWhile_stops [OF show_nat_digits s] dropWhile_stops [OF show_nat_digits s])
  ultimately show ?thesis by (simp add: parse_line_def)
qed

subsection \<open>The lines of a file\<close>

function lines_of :: "string \<Rightarrow> string list" where
  "lines_of s =
     (let l = takeWhile (\<lambda>c. c \<noteq> newline) s; more = dropWhile (\<lambda>c. c \<noteq> newline) s
      in if more = [] then [l] else l # lines_of (tl more))"
  by pat_completeness auto
termination
  by (relation "measure length") (simp_all add: tl_dropWhile_shorter del: dropWhile_eq_Nil_conv length_tl)

declare lines_of.simps [simp del]

text \<open>The abstract reader: the lines in order, empty ones skipped, up to the first bad one.\<close>

fun read_lines :: "(nat \<Rightarrow> u16) \<Rightarrow> nat \<Rightarrow> string list \<Rightarrow> config \<Rightarrow> bool \<times> config" where
  "read_lines indet n [] cfg = (True, cfg)"
| "read_lines indet n (l # ls) cfg =
     (if l = [] then read_lines indet (Suc n) ls cfg
      else
        case parse_line (indet n) l of
          Inl e \<Rightarrow> (False, cfg)
        | Inr (i, hst) \<Rightarrow>
            read_lines indet (Suc n) ls (cfg\<lparr>cfg_hosts := (cfg_hosts cfg)(i \<mapsto> hst)\<rparr>))"

lemma read_loop_failed: "failbit is \<Longrightarrow> read_loop indet n is cfg = (True, cfg)"
  by (subst read_loop.simps) simp

lemma read_loop_at_end:
  assumes "eofbit is"
  shows "read_loop indet n is cfg = (True, cfg)"
proof (cases "failbit is")
  case True
  then show ?thesis by (rule read_loop_failed)
next
  case False
  with assms have "getline is = ([], is\<lparr>failbit := True\<rparr>)" by (simp add: getline_def good_def)
  with False show ?thesis by (subst read_loop.simps) (simp add: read_loop_failed)
qed

lemma read_loop_lines:
  "good is \<Longrightarrow> read_loop indet n is cfg = read_lines indet n (lines_of (rest is)) cfg"
proof (induction "rest is" arbitrary: "is" n cfg rule: lines_of.induct)
  case 1
  let ?l = "takeWhile (\<lambda>c. c \<noteq> newline) (rest is)"
  let ?more = "dropWhile (\<lambda>c. c \<noteq> newline) (rest is)"
  have nf: "\<not> failbit is" using 1(2) by (simp add: good_def)
  show ?case
  proof (cases "?more = []")
    case True
    let ?is' = "is\<lparr>rest := [], eofbit := True, failbit := (?l = [])\<rparr>"
    have "getline is = (?l, ?is')" using 1(2) True by (simp add: getline_def Let_def)
    with nf True show ?thesis
      by (subst read_loop.simps, subst lines_of.simps)
        (simp add: read_loop_at_end split: sum.split)
  next
    case False
    let ?is' = "is\<lparr>rest := tl ?more\<rparr>"
    have gl: "getline is = (?l, ?is')" using 1(2) False by (simp add: getline_def Let_def del: dropWhile_eq_Nil_conv)
    have IH: "read_loop indet m ?is' c = read_lines indet m (lines_of (tl ?more)) c" for m c
      using 1(1) [of ?l ?more ?is'] 1(2) False by simp
    have "lines_of (rest is) = ?l # lines_of (tl ?more)"
      using False by (subst lines_of.simps) (simp add: Let_def del: dropWhile_eq_Nil_conv)
    with nf gl IH show ?thesis
      by (subst read_loop.simps) (simp split: sum.split del: dropWhile_eq_Nil_conv)
  qed
qed

lemma read_rounds_stop: "\<not> ok \<or> failbit is \<Longrightarrow> read_rounds indet (n, is, cfg, ok) = Some (n, is, cfg, ok)"
  unfolding read_rounds_def by (subst while_option_unfold) auto

lemma read_rounds_go:
  "\<not> failbit is \<Longrightarrow> read_rounds indet (n, is, cfg, True) = read_rounds indet (read_round indet (n, is, cfg, True))"
  unfolding read_rounds_def by (subst while_option_unfold) simp

lemma read_rounds_at_end:
  assumes "eofbit is"
  shows "\<exists>n' is'. read_rounds indet (n, is, cfg, ok) = Some (n', is', cfg, ok) \<and> n' \<le> Suc n"
proof (cases "ok \<and> \<not> failbit is")
  case True
  with assms have "getline is = ([], is\<lparr>failbit := True\<rparr>)" by (simp add: getline_def good_def)
  with True show ?thesis by (simp add: read_rounds_go read_rounds_stop)
next
  case False
  then show ?thesis using read_rounds_stop [of ok "is" indet n cfg] by force
qed

lemma read_rounds_lines:
  assumes "good is" and "read_lines indet n (lines_of (rest is)) cfg = (ok, cfg')"
  shows "\<exists>n' is'. read_rounds indet (n, is, cfg, True) = Some (n', is', cfg', ok) \<and>
    n' \<le> n + length (lines_of (rest is)) + 1"
  using assms
proof (induction "rest is" arbitrary: "is" n cfg rule: lines_of.induct)
  case 1
  let ?l = "takeWhile (\<lambda>c. c \<noteq> newline) (rest is)"
  let ?more = "dropWhile (\<lambda>c. c \<noteq> newline) (rest is)"
  have nf: "\<not> failbit is" using 1(2) by (simp add: good_def)
  show ?case
  proof (cases "?more = []")
    case True
    let ?is' = "is\<lparr>rest := [], eofbit := True, failbit := (?l = [])\<rparr>"
    have gl: "getline is = (?l, ?is')" using 1(2) True by (simp add: getline_def Let_def)
    have lines: "lines_of (rest is) = [?l]" using True by (subst lines_of.simps) simp
    have "read_round indet (n, is, cfg, True) = (Suc n, ?is', cfg', ok)"
      using 1(3) gl unfolding lines by (auto split: sum.splits)
    then show ?thesis
      using nf lines read_rounds_at_end [of ?is' indet "Suc n" cfg' ok] by (auto simp: read_rounds_go)
  next
    case False
    let ?is' = "is\<lparr>rest := tl ?more\<rparr>"
    have gl: "getline is = (?l, ?is')" using 1(2) False by (simp add: getline_def Let_def del: dropWhile_eq_Nil_conv)
    have lines: "lines_of (rest is) = ?l # lines_of (tl ?more)"
      using False by (subst lines_of.simps) (simp add: Let_def del: dropWhile_eq_Nil_conv)
    have IH: "\<exists>n' is'. read_rounds indet (Suc n, ?is', c, True) = Some (n', is', cfg', ok) \<and>
        n' \<le> n + length (lines_of (rest is)) + 1"
      if "read_lines indet (Suc n) (lines_of (tl ?more)) c = (ok, cfg')" for c
      using 1(1) [of ?l ?more ?is' "Suc n" c] 1(2) False that lines by simp
    show ?thesis
    proof (cases "\<exists>e. ?l \<noteq> [] \<and> parse_line (indet n) ?l = Inl e")
      case True
      then show ?thesis
        using 1(3) nf gl unfolding lines by (auto simp: read_rounds_go read_rounds_stop)
    next
      case False
      then obtain c where "read_round indet (n, is, cfg, True) = (Suc n, ?is', c, True)"
          "read_lines indet (Suc n) (lines_of (tl ?more)) c = (ok, cfg')"
        using 1(3) gl unfolding lines by (auto split: sum.splits if_splits)
      then show ?thesis using IH nf by (simp add: read_rounds_go)
    qed
  qed
qed

lemma lines_of_newline:
  "newline \<notin> set l \<Longrightarrow> lines_of (l @ newline # r) = l # lines_of r"
proof -
  assume "newline \<notin> set l"
  then have p: "\<forall>c \<in> set l. c \<noteq> newline" by auto
  show ?thesis
    by (subst lines_of.simps)
      (simp add: takeWhile_append_stop [OF p] dropWhile_append_stop [OF p])
qed

lemma lines_of_Nil [simp]: "lines_of [] = [[]]"
  by (subst lines_of.simps) simp

lemma newline_not_in_show: "newline \<notin> set (show_int i)" "newline \<notin> set (show_nat n)"
  using show_int_chars show_nat_digits isdigit_not_space newline_isspace by blast+

lemma render_entry_line:
  assumes "host_word h"
  shows "newline \<notin> set (render_entry (i, h, p))" "render_entry (i, h, p) \<noteq> []"
proof -
  have "newline \<notin> set h" using assms by (auto simp: host_word_def)
  then show "newline \<notin> set (render_entry (i, h, p))"
    by (auto simp: render_entry_def newline_not_in_show) (simp add: newline_def)
  show "render_entry (i, h, p) \<noteq> []" by (simp add: render_entry_def)
qed

lemma lines_of_render:
  "\<forall>(i, h, p) \<in> set es. host_word h \<Longrightarrow> lines_of (render es) = map render_entry es @ [[]]"
proof (induction es)
  case Nil
  then show ?case by (simp add: render_def)
next
  case (Cons e es)
  obtain i h p where e: "e = (i, h, p)" by (cases e)
  with Cons.prems have "newline \<notin> set (render_entry e)" by (simp add: render_entry_line)
  with Cons show ?case by (simp add: render_def lines_of_newline)
qed

lemma read_lines_render:
  "\<forall>(i, h, p) \<in> set es. host_word h \<Longrightarrow>
   read_lines indet n (map render_entry es @ [[]]) cfg =
     (True, cfg\<lparr>cfg_hosts := cfg_hosts cfg ++ map_of (rev es)\<rparr>)"
proof (induction es arbitrary: n cfg)
  case Nil
  then show ?case by simp
next
  case (Cons e es)
  obtain i h p where e: "e = (i, h, p)" by (cases e)
  with Cons.prems have h: "host_word h" by simp
  have "cfg_hosts cfg ++ map_of (rev es @ [(i, h, p)]) =
      (cfg_hosts cfg)(i \<mapsto> (h, p)) ++ map_of (rev es)"
    by (rule ext) (simp add: map_add_def split: option.split)
  with Cons e h show ?case
    by (simp add: render_entry_line parse_line_render)
qed

subsection \<open>Properties\<close>

text \<open>
  C20. The reader refines the line-wise reader: reading a fresh stream takes its lines in order,
  skips the empty ones, stores each parsed line (a later line for an id replaces an earlier one)
  and returns false at the first line that does not parse, keeping what was stored before it.
\<close>

theorem read_refines_lines:
  "read indet (istream_of s) cfg = read_lines indet 0 (lines_of s) cfg"
  by (simp add: read_def read_loop_lines)

text \<open>
  C22. Round trip of the routing table: a rendered list of entries (hosts are non-empty words without
  white space, ids and ports arbitrary) is read back, whatever the uninitialised port slots hold,
  as exactly these entries, the last entry of an id winning over earlier ones and over the
  configuration read before.
\<close>

theorem read_render_roundtrip:
  assumes "\<forall>(i, h, p) \<in> set es. host_word h"
  shows "read indet (istream_of (render es)) cfg =
    (True, cfg\<lparr>cfg_hosts := cfg_hosts cfg ++ map_of (rev es)\<rparr>)"
  using assms by (simp add: read_def read_loop_lines lines_of_render read_lines_render)

theorem read_render_roundtrip_witness:
  "read (\<lambda>_. 0) (istream_of (render [(7, ''n1'', 80), (7, ''n2'', 81)])) new_Config =
    (True, new_Config\<lparr>cfg_hosts := Map.empty(7 \<mapsto> (''n2'', 81))\<rparr>)"
proof -
  have h: "\<forall>(i, h, p) \<in> set [(7, ''n1'', 80), (7, ''n2'', 81)]. host_word h"
    by (simp add: host_word_def isspace_def)
  show ?thesis
    using read_render_roundtrip [OF h, of "\<lambda>_. 0" new_Config] by (simp add: new_Config_def)
qed

text \<open>
  A line without a port is not rejected: the id is routed to the host with whatever the
  uninitialised port variable held.
\<close>

theorem read_missing_port_accepted:
  assumes "host_word h"
  shows "read indet (istream_of (show_int (sint i) @ CHR '' '' # h)) cfg =
    (True, cfg\<lparr>cfg_hosts := (cfg_hosts cfg)(i \<mapsto> (h, indet 0))\<rparr>)"
proof -
  let ?s = "show_int (sint i) @ CHR '' '' # h"
  have n: "\<forall>c \<in> set ?s. c \<noteq> newline"
    using assms newline_isspace newline_not_in_show by (auto simp: host_word_def newline_def)
  then have "lines_of ?s = [?s]"
    by (subst lines_of.simps) (simp add: takeWhile_all [OF n] dropWhile_all [OF n])
  then show ?thesis
    using assms by (simp add: read_def read_loop_lines parse_line_no_port)
qed

theorem read_missing_port_accepted_witness:
  "cfg_hosts (snd (read (\<lambda>_. 4919) (istream_of (show_int (sint (3 :: c_int)) @ CHR '' '' # ''n1'')) new_Config)) 3
    = Some (''n1'', 4919)"
proof -
  have h: "host_word ''n1''" by (simp add: host_word_def isspace_def)
  show ?thesis using read_missing_port_accepted [OF h, of "\<lambda>_. 4919" 3 new_Config] by simp
qed

text \<open>
  C21. \<open>Config::read\<close> returns, on every text: its loop ends after at most one round more than the text
  has lines, and the flag and the table it ends with are those of the recursive reader.
\<close>

theorem read_returns:
  "\<exists>n is'. read_rounds indet (0, istream_of s, cfg, True) =
      Some (n, is', snd (read indet (istream_of s) cfg), fst (read indet (istream_of s) cfg)) \<and>
    n \<le> length (lines_of s) + 1"
  using read_rounds_lines [of "istream_of s" indet 0 cfg "fst (read indet (istream_of s) cfg)"
      "snd (read indet (istream_of s) cfg)"]
  by (simp add: read_def read_loop_lines)

text \<open>
  A port that does not fit in 16 bits is only rejected when something follows it on its line: at
  the end of the line the extraction has both failed and met the end, the test
  \<open>!is && !is.eof()\<close> is false, and the id is routed to port 65535; with a blank after the number the
  reader gives up.
\<close>

theorem read_port_out_of_range:
  assumes "host_word h" and "65535 < p"
  shows "read indet (istream_of (show_int (sint i) @ CHR '' '' # h @ CHR '' '' # show_nat p)) cfg =
      (True, cfg\<lparr>cfg_hosts := (cfg_hosts cfg)(i \<mapsto> (h, 65535))\<rparr>) \<and>
    read indet (istream_of (show_int (sint i) @ CHR '' '' # h @ CHR '' '' # show_nat p @ '' '')) cfg = (False, cfg)"
proof -
  have "read indet (istream_of (show_int (sint i) @ CHR '' '' # h @ CHR '' '' # show_nat p @ r)) cfg =
      (if r = [] then (True, cfg\<lparr>cfg_hosts := (cfg_hosts cfg)(i \<mapsto> (h, 65535))\<rparr>) else (False, cfg))"
    (is "read _ (istream_of ?s) _ = _")
    if "r = [] \<or> r = '' ''" for r
  proof -
    have "newline \<notin> set ?s"
      using assms(1) newline_isspace newline_not_in_show that by (auto simp: host_word_def newline_def)
    then have n: "\<forall>c \<in> set ?s. c \<noteq> newline" by auto
    then have "lines_of ?s = [?s]"
      by (subst lines_of.simps) (simp add: takeWhile_all [OF n] dropWhile_all [OF n])
    then show ?thesis
      using parse_line_big_port [OF assms that] by (auto simp: read_def read_loop_lines)
  qed
  from this [of "[]"] this [of "'' ''"] show ?thesis by simp
qed

theorem read_port_out_of_range_witness:
  "cfg_hosts (snd (read (\<lambda>_. 4919)
      (istream_of (show_int (sint (3 :: c_int)) @ CHR '' '' # ''n1'' @ CHR '' '' # show_nat 70000)) new_Config)) 3
    = Some (''n1'', 65535)"
proof -
  have h: "host_word ''n1''" by (simp add: host_word_def isspace_def)
  show ?thesis using read_port_out_of_range [OF h, of 70000 "\<lambda>_. 4919" 3 new_Config] by simp
qed

text \<open>
  The command line: the value of \<open>-p\<close> is reduced modulo 65536, so every decimal below
  \<open>2 ^ 31\<close> is accepted as a port.
\<close>

theorem parseCmdLine_port_wraps:
  assumes "n < 2 ^ 31"
  shows "parseCmdLine [(CHR ''p'', Some (show_nat n))] cfg = (True, cfg\<lparr>cfg_port := of_nat n\<rparr>)"
proof -
  have "ucast (of_nat n :: c_int) = (of_nat n :: u16)"
    by transfer simp
  then show ?thesis using assms by (simp add: atoi_show_nat)
qed

theorem parseCmdLine_port_wraps_witness:
  "cfg_port (snd (parseCmdLine [(CHR ''p'', Some (show_nat 65616))] new_Config)) = 80"
  using parseCmdLine_port_wraps [of 65616 new_Config] by simp

text \<open>
  \<open>toPriority\<close> yields a priority for every verbosity from 0 up, the most verbose from 3 on, and
  reads outside its table exactly for the negative ones, which \<open>-v\<close> does not exclude.
\<close>

theorem toPriority_total_iff_nonneg:
  "(toPriority l = None \<longleftrightarrow> sint l < 0) \<and> (toPriority l = Some P_DEBUG \<longleftrightarrow> 3 \<le> sint l)"
proof -
  consider "sint l < 0" | "sint l = 0" | "sint l = 1" | "sint l = 2" | "3 \<le> sint l" by linarith
  then show ?thesis
    by cases (simp_all add: toPriority_def Let_def numeral_2_eq_2 numeral_3_eq_3)
qed

end
