(* ===== verification/Proxy.thy ===== *)
theory Proxy
  imports Connection_Processor Config
begin

section \<open>Proxy: one client and the server it is forwarded to\<close>

text \<open>
  \<open>proxy.cpp/.h\<close>. A proxy is the connection object of an accepted client. It waits for the 12-byte
  first message (tag 1, size 4 and the client id, big-endian), looks the id up, connects a
  forwarder to the configured host, and from then on moves bytes both ways. The first message is
  only copied out, not removed, so it is forwarded too.

  An operation returns a fault or the proxy after it and the list of callbacks it ran, in order:
  \<open>Id_received\<close> is \<open>_idClb\<close> (installed by the proxy manager), \<open>Closed\<close> is \<open>_closeCb\<close>, after
  which the proxy is destroyed by its owner. \<open>_lastInput\<close> is a pointer that only ever holds the
  proxy's own input buffer or null, and nothing before the first message.
\<close>

datatype proxy_state = BEGIN | CONNECTING | FWD

datatype input_ptr = Uninit_input | Null_input | Own_input

datatype proxy_effect = Id_received c_int | Closed

record proxy = connection_processor +
  px_fwd :: "forwarder option"
  px_state :: proxy_state
  px_data :: "byte list"
  px_lastInput :: input_ptr
  px_id :: c_int
  px_idClb :: bool

definition MSG_SIZE :: nat where "MSG_SIZE = 12"
definition TAG_INT :: u32 where "TAG_INT = 1"
definition SIZE_INT :: u32 where "SIZE_INT = 4"

text \<open>The message buffer \<open>_data\<close> is not initialised by the constructor: \<open>junk\<close> is what it holds.\<close>

definition new_Proxy :: "byte list \<Rightarrow> string \<Rightarrow> u16 \<Rightarrow> proxy" where
  "new_Proxy junk ip prt =
     connection_processor.extend (new_incoming ip prt)
       \<lparr>px_fwd = None, px_state = BEGIN, px_data = junk, px_lastInput = Uninit_input,
        px_id = -1, px_idClb = False\<rparr>"

definition setIdRcvClb :: "proxy \<Rightarrow> proxy" where
  "setIdRcvClb p = p\<lparr>px_idClb := True\<rparr>"

definition Proxy_close :: "proxy \<Rightarrow> proxy \<times> proxy_effect list" where
  "Proxy_close p =
     (case ConnectionProcessor_close p of (p', called) \<Rightarrow> (p', if called then [Closed] else []))"

subsection \<open>Data from the client\<close>

text \<open>The id of a first message, if its tag and size are right.\<close>

definition header_id :: "byte list \<Rightarrow> c_int option" where
  "header_id bs =
     (if word_of_be (take 4 bs) = TAG_INT \<and> word_of_be (take 4 (drop 4 bs)) = SIZE_INT
      then Some (word_of_be (take 4 (drop 8 bs))) else None)"

text \<open>
  The forwarder \<open>dataRecieved\<close> creates: close callback and destination set, then \<open>connect\<close>. The
  argument \<open>indet\<close> is the uninitialised port member of the new object, overwritten by \<open>connect\<close>.
\<close>

definition start_forwarder :: "libevent \<Rightarrow> u16 \<Rightarrow> host \<Rightarrow> bool \<times> forwarder" where
  "start_forwarder L indet hst =
     connect L (fst hst) (snd hst) (setDestination (setOnCloseCb (new_Forwarder indet)))"

definition parse_first_message ::
  "libevent \<Rightarrow> config \<Rightarrow> u16 \<Rightarrow> proxy \<Rightarrow> proxy \<times> proxy_effect list" where
  "parse_first_message L cfg indet p =
     (case header_id (px_data p) of
        None \<Rightarrow> Proxy_close p
      | Some i \<Rightarrow>
          let hst = getHostById cfg i
          in if fst hst = [] then Proxy_close p
             else
               let p1 = p\<lparr>px_id := i\<rparr>;
                   effs = (if px_idClb p1 then [Id_received i] else []);
                   (ok, f) = start_forwarder L indet hst;
                   p2 = p1\<lparr>px_fwd := Some f\<rparr>
               in if \<not> ok then (case Proxy_close p2 of (p3, effs') \<Rightarrow> (p3, effs @ effs'))
                  else (p2\<lparr>px_state := CONNECTING\<rparr>, effs))"

definition Proxy_dataRecieved ::
  "libevent \<Rightarrow> config \<Rightarrow> u16 \<Rightarrow> input_ptr \<Rightarrow> proxy \<Rightarrow> fault + proxy \<times> proxy_effect list" where
  "Proxy_dataRecieved L cfg indet ptr p =
     (case px_state p of
        FWD \<Rightarrow>
          (case px_fwd p of
             None \<Rightarrow> Inl Null_pointer
           | Some f \<Rightarrow>
               if ptr \<noteq> Own_input then Inl Null_pointer
               else
                 case sendData L (cp_input p) f of
                   Inl e \<Rightarrow> Inl e
                 | Inr (ok, f', left) \<Rightarrow> Inr (p\<lparr>px_fwd := Some f', cp_input := left\<rparr>, []))
      | BEGIN \<Rightarrow>
          if ptr \<noteq> Own_input then Inl Null_pointer
          else
            let p1 = p\<lparr>px_lastInput := ptr\<rparr>
            in if length (cp_input p1) < MSG_SIZE then Inr (p1, [])
               else
                 let (res, bytes) = evbuffer_copyout L (cp_input p1) MSG_SIZE;
                     p2 = p1\<lparr>px_data := bytes @ drop (length bytes) (px_data p1)\<rparr>
                 in if res \<noteq> int MSG_SIZE then Inr (Proxy_close p2)
                    else Inr (parse_first_message L cfg indet p2)
      | CONNECTING \<Rightarrow> Inr (p, []))"

subsection \<open>Events of the server connection\<close>

text \<open>
  \<open>onConnected\<close> is the connect callback of the forwarder: a failed connection attempt is only
  logged. \<open>onFwdClose\<close> is its close callback.
\<close>

definition onConnected ::
  "libevent \<Rightarrow> config \<Rightarrow> u16 \<Rightarrow> bool \<Rightarrow> proxy \<Rightarrow> fault + proxy \<times> proxy_effect list" where
  "onConnected L cfg indet res p =
     (if \<not> res then Inr (p, [])
      else
        let p1 = p\<lparr>px_state := FWD\<rparr>
        in case Proxy_dataRecieved L cfg indet (px_lastInput p1) p1 of
             Inl e \<Rightarrow> Inl e
           | Inr (p2, effs) \<Rightarrow> Inr (p2\<lparr>px_lastInput := Null_input\<rparr>, effs))"

definition onFwdClose :: "proxy \<Rightarrow> fault + proxy \<times> proxy_effect list" where
  "onFwdClose p = (if px_fwd p = None then Inl Null_pointer else Inr (Proxy_close p))"

subsection \<open>The events libevent delivers to a proxy and its forwarder\<close>

text \<open>
  \<open>readProxy\<close> hands the input buffer of the bufferevent to \<open>dataRecieved\<close>, after libevent appended
  what the socket delivered; \<open>eventProxy\<close> calls \<open>onEvent\<close>. An event for a forwarder that does not
  exist would be a call on a dangling object.
\<close>

datatype proxy_event =
    Client_data "byte list"
  | Client_event bev_events
  | Server_data "byte list"
  | Server_event bev_events

fun px_step ::
  "config \<Rightarrow> proxy \<Rightarrow> libevent \<times> u16 \<times> proxy_event \<Rightarrow> fault + proxy \<times> proxy_effect list" where
  "px_step cfg p (L, indet, Client_data bs) =
     Proxy_dataRecieved L cfg indet Own_input (p\<lparr>cp_input := cp_input p @ bs\<rparr>)"
| "px_step cfg p (L, indet, Client_event ev) =
     (case onEvent ev p of
        Inl e \<Rightarrow> Inl e
      | Inr (p', Call_close) \<Rightarrow> Inr (p', [Closed])
      | Inr (p', Call_connect b) \<Rightarrow> Inr (p', [])
      | Inr (p', No_call) \<Rightarrow> Inr (p', []))"
| "px_step cfg p (L, indet, Server_data bs) =
     (case px_fwd p of
        None \<Rightarrow> Inl Null_pointer
      | Some f \<Rightarrow>
          (case Forwarder_dataRecieved L (f\<lparr>cp_input := cp_input f @ bs\<rparr>) p of
             Inl e \<Rightarrow> Inl e
           | Inr (f', p') \<Rightarrow> Inr (p'\<lparr>px_fwd := Some f'\<rparr>, [])))"
| "px_step cfg p (L, indet, Server_event ev) =
     (case px_fwd p of
        None \<Rightarrow> Inl Null_pointer
      | Some f \<Rightarrow>
          (case onEvent ev f of
             Inl e \<Rightarrow> Inl e
           | Inr (f', Call_connect b) \<Rightarrow> onConnected L cfg indet b (p\<lparr>px_fwd := Some f'\<rparr>)
           | Inr (f', Call_close) \<Rightarrow> onFwdClose (p\<lparr>px_fwd := Some f'\<rparr>)
           | Inr (f', No_call) \<Rightarrow> Inr (p\<lparr>px_fwd := Some f'\<rparr>, [])))"

type_synonym proxy_input = "libevent \<times> u16 \<times> proxy_event"

definition px_next :: "config \<Rightarrow> proxy \<Rightarrow> proxy_input \<Rightarrow> fault + proxy" where
  "px_next cfg p e = map_sum (\<lambda>f. f) fst (px_step cfg p e)"

text \<open>
  What libevent promises: events come only from bufferevents that have not been freed, the accepted
  client connection never reports a completed connect, and the server connection reports one only
  while a connect is pending.
\<close>

fun px_events_ok :: "proxy \<Rightarrow> proxy_input \<Rightarrow> bool" where
  "px_events_ok p (L, indet, e) \<longleftrightarrow>
     cp_bev p \<and>
     (case e of
        Client_data bs \<Rightarrow> True
      | Client_event ev \<Rightarrow> \<not> ev_connected ev
      | Server_data bs \<Rightarrow> (case px_fwd p of None \<Rightarrow> False | Some f \<Rightarrow> cp_bev f)
      | Server_event ev \<Rightarrow>
          (case px_fwd p of None \<Rightarrow> False
           | Some f \<Rightarrow> cp_bev f \<and> (ev_connected ev \<longrightarrow> cp_connecting f)))"

definition px_adm :: "proxy \<Rightarrow> proxy_input \<Rightarrow> bool" where
  "px_adm p x \<longleftrightarrow> libevent_laws (fst x) \<and> px_events_ok p x"

text \<open>A proxy as the server hands it to its manager: constructed, callbacks installed.\<close>

definition managed_Proxy :: "byte list \<Rightarrow> string \<Rightarrow> u16 \<Rightarrow> proxy" where
  "managed_Proxy junk ip prt = setIdRcvClb (setOnCloseCb (new_Proxy junk ip prt))"

lemmas px_defs =
  Proxy_close_def ConnectionProcessor_close_def Proxy_dataRecieved_def parse_first_message_def
  start_forwarder_def connect_def setDestination_def setOnCloseCb_def new_Forwarder_def
  new_outgoing_def onConnected_def onFwdClose_def onEvent_def Forwarder_dataRecieved_def
  connection_processor.defs forwarder.defs

declare px_defs [proxy_defs]

end
