(* ===== verification/Proxy_Props.thy ===== *)
theory Proxy_Props
  imports Proxy
begin

section \<open>What a proxy guarantees\<close>

text \<open>
  The invariant of a managed proxy, its preservation by every event (no null pointer is
  dereferenced and no empty callback is called), the conservation of the two byte streams, the
  routing of the forwarder, and the behaviour on each kind of first message.
\<close>

subsection \<open>First messages\<close>

definition header :: "c_int \<Rightarrow> byte list" where
  "header i = be_of_word TAG_INT @ be_of_word SIZE_INT @ be_of_word i"

lemma be_of_word_of_be4: "length bs = 4 \<Longrightarrow> be_of_word (word_of_be bs :: u32) = bs"
proof -
  assume l: "length bs = 4"
  have "from_be bs < 2 ^ 32" using from_be_bound [of bs] l by simp
  then have "unat (of_nat (from_be bs) :: u32) = from_be bs"
    by (simp add: unat_of_nat)
  then show ?thesis
    using to_be_from_be [of bs] l by (simp add: be_of_word_def word_of_be_def)
qed

lemma word_of_be_eq4: "length bs = 4 \<Longrightarrow> word_of_be bs = (w :: u32) \<longleftrightarrow> bs = be_of_word w"
  using be_of_word_of_be4 by fastforce

lemma length_header [simp]: "length (header i) = 12"
  by (simp add: header_def)

lemma take_drop_12: "take 12 bs = take 4 bs @ take 4 (drop 4 bs) @ take 4 (drop 8 bs)"
  using take_add [of 4 8 bs] take_add [of 4 4 "drop 4 bs"] by simp

lemma header_id_iff:
  assumes "12 \<le> length bs"
  shows "header_id bs = Some i \<longleftrightarrow> take 12 bs = header i"
proof -
  have "header_id bs = Some i \<longleftrightarrow>
      take 4 bs = be_of_word TAG_INT \<and> take 4 (drop 4 bs) = be_of_word SIZE_INT \<and>
      take 4 (drop 8 bs) = be_of_word i"
    using assms by (auto simp: header_id_def word_of_be_eq4)
  also have "\<dots> \<longleftrightarrow> take 12 bs = header i"
    using assms by (simp add: take_drop_12 header_def)
  finally show ?thesis .
qed

lemma header_id_take:
  assumes "12 \<le> length bs"
  shows "header_id (take 12 bs @ r) = header_id bs"
proof -
  have n: "4 - min (length bs) 12 = 0" "8 - min (length bs) 12 = 0"
      "4 - min (length bs - 8) 4 = 0"
    using assms by auto
  show ?thesis using n by (simp add: header_id_def drop_take)
qed

subsection \<open>The invariant\<close>

definition fwd_ok :: "config \<Rightarrow> proxy \<Rightarrow> forwarder \<Rightarrow> bool" where
  "fwd_ok cfg p f \<longleftrightarrow>
     cp_bev f \<and> cp_connectCb f \<and> cp_closeCb f \<and> fw_destination f \<and>
     (cp_host f, cp_port f) = getHostById cfg (px_id p) \<and> cp_host f \<noteq> [] \<and>
     take 12 (cp_output f @ cp_input p) = header (px_id p)"

definition px_inv :: "config \<Rightarrow> proxy \<Rightarrow> bool" where
  "px_inv cfg p \<longleftrightarrow>
     \<not> cp_connectCb p \<and> \<not> cp_connecting p \<and> cp_closeCb p \<and> px_idClb p \<and>
     (cp_bev p \<longrightarrow>
       (case px_state p of
          BEGIN \<Rightarrow> px_fwd p = None \<and> px_id p = -1 \<and> cp_output p = []
        | CONNECTING \<Rightarrow>
            (\<exists>f. px_fwd p = Some f \<and> fwd_ok cfg p f \<and> cp_connecting f \<and> cp_output f = [] \<and>
                 px_lastInput p = Own_input)
        | FWD \<Rightarrow>
            (\<exists>f. px_fwd p = Some f \<and> fwd_ok cfg p f \<and> \<not> cp_connecting f)))"

lemma px_inv_managed: "px_inv cfg (managed_Proxy junk ip prt)"
  by (simp add: px_inv_def managed_Proxy_def setIdRcvClb_def setOnCloseCb_def new_Proxy_def
      new_incoming_def connection_processor.defs)

text \<open>The two byte streams: what was and what will be sent on, in order.\<close>

definition to_server :: "proxy \<Rightarrow> byte list" where
  "to_server p = (case px_fwd p of None \<Rightarrow> [] | Some f \<Rightarrow> cp_output f)"

definition from_server :: "proxy \<Rightarrow> byte list" where
  "from_server p = (case px_fwd p of None \<Rightarrow> [] | Some f \<Rightarrow> cp_input f)"

fun event_client :: "proxy_event \<Rightarrow> byte list" where
  "event_client (Client_data bs) = bs"
| "event_client _ = []"

fun event_server :: "proxy_event \<Rightarrow> byte list" where
  "event_server (Server_data bs) = bs"
| "event_server _ = []"

fun client_bytes :: "proxy_input list \<Rightarrow> byte list" where
  "client_bytes [] = []"
| "client_bytes ((L, indet, e) # es) = event_client e @ client_bytes es"

fun server_bytes :: "proxy_input list \<Rightarrow> byte list" where
  "server_bytes [] = []"
| "server_bytes ((L, indet, e) # es) = event_server e @ server_bytes es"

text \<open>
  What one step does to a proxy that satisfies the invariant, in one record of facts: it keeps the
  invariant, adds the event's bytes to the streams, and runs its callbacks in one of four ways.
\<close>

definition step_effects :: "proxy \<Rightarrow> proxy \<Rightarrow> proxy_effect list \<Rightarrow> bool" where
  "step_effects p p' effs \<longleftrightarrow>
     (if cp_bev p' then effs = [] \<and> px_id p' = px_id p \<and> (px_state p' = BEGIN \<longleftrightarrow> px_state p = BEGIN) \<or>
                        effs = [Id_received (px_id p')] \<and> px_state p = BEGIN \<and> px_state p' = CONNECTING
      else effs = [Closed] \<and> px_id p' = px_id p \<or>
           effs = [Id_received (px_id p'), Closed] \<and> px_state p = BEGIN)"

definition step_ok :: "config \<Rightarrow> proxy \<Rightarrow> byte list \<Rightarrow> byte list \<Rightarrow> proxy \<Rightarrow> proxy_effect list \<Rightarrow> bool" where
  "step_ok cfg p c s p' effs \<longleftrightarrow>
     px_inv cfg p' \<and> step_effects p p' effs \<and>
     to_server p' @ cp_input p' = to_server p @ cp_input p @ c \<and>
     cp_output p' @ from_server p' = cp_output p @ from_server p @ s"

lemma first_message_ok:
  assumes inv: "px_inv cfg p" and alive: "cp_bev p" and st: "px_state p = BEGIN"
    and data: "12 \<le> length (cp_input p @ c)" "px_data q = take 12 (cp_input p @ c) @ r"
    and q: "q = p\<lparr>cp_input := cp_input p @ c, px_lastInput := Own_input, px_data := px_data q\<rparr>"
    and res: "parse_first_message L cfg indet q = (p', effs)"
  shows "step_ok cfg p c [] p' effs"
proof -
  have p: "px_fwd p = None" "px_id p = -1" "cp_output p = []" "cp_closeCb p" "px_idClb p"
      "\<not> cp_connectCb p" "\<not> cp_connecting p"
    using inv alive st by (simp_all add: px_inv_def)
  note qs = arg_cong [OF q, where f = cp_input] arg_cong [OF q, where f = px_fwd]
    arg_cong [OF q, where f = px_id] arg_cong [OF q, where f = cp_output]
    arg_cong [OF q, where f = cp_closeCb] arg_cong [OF q, where f = px_idClb]
    arg_cong [OF q, where f = cp_connectCb] arg_cong [OF q, where f = cp_connecting]
    arg_cong [OF q, where f = cp_bev] arg_cong [OF q, where f = px_state]
    arg_cong [OF q, where f = px_lastInput]
  have hid: "header_id (px_data q) = header_id (cp_input p @ c)"
    using data by (simp add: header_id_take del: length_append take_append)
  show ?thesis
  proof (cases "header_id (cp_input p @ c)")
    case None
    then show ?thesis
      using res p qs alive st hid
      by (auto simp: parse_first_message_def Proxy_close_def ConnectionProcessor_close_def
          step_ok_def step_effects_def px_inv_def to_server_def from_server_def)
  next
    case (Some i)
    then have hd: "take 12 (cp_input p @ c) = header i"
      using data(1) by (simp add: header_id_iff del: length_append take_append)
    show ?thesis
      using Some res p qs alive st hid hd
      by (auto simp: px_defs step_ok_def step_effects_def px_inv_def to_server_def from_server_def
          fwd_ok_def Let_def split: if_splits simp del: take_append)
  qed
qed

lemma client_data_begin:
  assumes inv: "px_inv cfg p" and alive: "cp_bev p" and laws: "libevent_laws L" and BEGIN: "px_state p = BEGIN"
  obtains p' effs where "px_step cfg p (L, indet, Client_data bs) = Inr (p', effs)"
    and "step_ok cfg p bs [] p' effs"
proof (cases "length (cp_input p @ bs) < 12")
  case True
  let ?p1 = "p\<lparr>cp_input := cp_input p @ bs, px_lastInput := Own_input\<rparr>"
  have "px_step cfg p (L, indet, Client_data bs) = Inr (?p1, [])"
    using BEGIN True by (simp add: Proxy_dataRecieved_def MSG_SIZE_def)
  moreover have "step_ok cfg p bs [] ?p1 []"
    using inv alive BEGIN
    by (auto simp: step_ok_def step_effects_def px_inv_def to_server_def from_server_def)
  ultimately show ?thesis by (rule that)
next
  case False
  let ?d = "take 12 (cp_input p @ bs) @ drop 12 (px_data p)"
  let ?q = "p\<lparr>cp_input := cp_input p @ bs, px_lastInput := Own_input, px_data := ?d\<rparr>"
  obtain p' effs where r: "parse_first_message L cfg indet ?q = (p', effs)"
    by (metis surj_pair)
  define i where "i = cp_input p @ bs"
  have i: "12 \<le> length i" "length (take 12 i) = 12" using False by (simp_all add: i_def)
  have "Proxy_dataRecieved L cfg indet Own_input (p\<lparr>cp_input := i\<rparr>) = Inr (p', effs)"
    using BEGIN i r [folded i_def] copyout_laws [OF laws i(1)]
    by (simp add: Proxy_dataRecieved_def MSG_SIZE_def)
  then have "px_step cfg p (L, indet, Client_data bs) = Inr (p', effs)" by (simp add: i_def)
  moreover have "step_ok cfg p bs [] p' effs"
    using inv alive BEGIN _ _ _ r
    by (rule first_message_ok [where r = "drop 12 (px_data p)"])
      (use False in \<open>simp_all del: take_append\<close>)
  ultimately show ?thesis by (rule that)
qed

lemma client_data_connecting:
  assumes inv: "px_inv cfg p" and alive: "cp_bev p" and CONNECTING: "px_state p = CONNECTING"
  shows "px_step cfg p (L, indet, Client_data bs) = Inr (p\<lparr>cp_input := cp_input p @ bs\<rparr>, [])"
    and "step_ok cfg p bs [] (p\<lparr>cp_input := cp_input p @ bs\<rparr>) []"
proof -
  let ?p1 = "p\<lparr>cp_input := cp_input p @ bs\<rparr>"
  obtain f where f: "px_fwd p = Some f" "fwd_ok cfg p f" "cp_connecting f" "cp_output f = []"
      "px_lastInput p = Own_input"
    using inv alive CONNECTING by (auto simp: px_inv_def)
  have "12 \<le> length (cp_input p)"
    using f by (auto simp: fwd_ok_def dest: arg_cong [where f = length])
  then have "fwd_ok cfg ?p1 f" using f by (simp add: fwd_ok_def)
  then show "step_ok cfg p bs [] ?p1 []"
    using inv alive CONNECTING f
    by (auto simp: step_ok_def step_effects_def px_inv_def to_server_def from_server_def)
  show "px_step cfg p (L, indet, Client_data bs) = Inr (?p1, [])"
    using CONNECTING by (simp add: Proxy_dataRecieved_def)
qed

lemma client_data_fwd:
  assumes inv: "px_inv cfg p" and alive: "cp_bev p" and laws: "libevent_laws L" and FWD: "px_state p = FWD"
  obtains p' effs where "px_step cfg p (L, indet, Client_data bs) = Inr (p', effs)"
    and "step_ok cfg p bs [] p' effs"
proof -
  obtain f where f: "px_fwd p = Some f" "fwd_ok cfg p f" "\<not> cp_connecting f"
    using inv alive FWD by (auto simp: px_inv_def)
  then have bev: "cp_bev f" by (simp add: fwd_ok_def)
  obtain ok out left
    where s: "sendData L (cp_input p @ bs) f = Inr (ok, f\<lparr>cp_output := out\<rparr>, left)"
      and o: "out @ left = cp_output f @ cp_input p @ bs"
    using sendData_Inr [OF laws bev, of "cp_input p @ bs"] by metis
  let ?p1 = "p\<lparr>px_fwd := Some (f\<lparr>cp_output := out\<rparr>), cp_input := left\<rparr>"
  have "12 \<le> length (cp_output f @ cp_input p)"
    using f by (auto simp: fwd_ok_def dest: arg_cong [where f = length])
  then have "take 12 (out @ left) = take 12 (cp_output f @ cp_input p)"
    unfolding o by simp
  then have "fwd_ok cfg ?p1 (f\<lparr>cp_output := out\<rparr>)" using f by (simp add: fwd_ok_def)
  then have "step_ok cfg p bs [] ?p1 []"
    using inv alive FWD f o
    by (auto simp: step_ok_def step_effects_def px_inv_def to_server_def from_server_def)
  moreover have "px_step cfg p (L, indet, Client_data bs) = Inr (?p1, [])"
    using FWD f s by (simp add: Proxy_dataRecieved_def)
  ultimately show ?thesis using that by blast
qed

lemma client_data_ok:
  assumes "px_inv cfg p" and "cp_bev p" and "libevent_laws L"
  obtains p' effs where "px_step cfg p (L, indet, Client_data bs) = Inr (p', effs)"
    and "step_ok cfg p bs [] p' effs"
proof (cases "px_state p")
  case BEGIN
  show ?thesis by (rule client_data_begin [OF assms BEGIN, of indet bs]) (rule that)
next
  case CONNECTING
  show ?thesis by (rule that [OF client_data_connecting [OF assms(1,2) CONNECTING]])
next
  case FWD
  show ?thesis by (rule client_data_fwd [OF assms FWD, of indet bs]) (rule that)
qed

lemma client_event_ok:
  assumes inv: "px_inv cfg p" and alive: "cp_bev p" and ev: "\<not> ev_connected ev"
  obtains p' effs where "px_step cfg p (L, indet, Client_event ev) = Inr (p', effs)"
    and "step_ok cfg p [] [] p' effs" and "cp_bev p' \<longleftrightarrow> \<not> ev_eof ev \<and> \<not> ev_error ev"
proof -
  have c: "\<not> cp_connecting p" "cp_closeCb p" using inv by (simp_all add: px_inv_def)
  show ?thesis
  proof (cases "ev_eof ev \<or> ev_error ev")
    case True
    have "px_step cfg p (L, indet, Client_event ev) = Inr (p\<lparr>cp_bev := False\<rparr>, [Closed])"
      using ev c True by (simp add: onEvent_def ConnectionProcessor_close_def)
    moreover have "step_ok cfg p [] [] (p\<lparr>cp_bev := False\<rparr>) [Closed]"
      using inv by (auto simp: step_ok_def step_effects_def px_inv_def to_server_def from_server_def)
    ultimately show ?thesis using that True by simp
  next
    case False
    have "px_step cfg p (L, indet, Client_event ev) = Inr (p, [])"
      using ev False by (simp add: onEvent_def)
    moreover have "step_ok cfg p [] [] p []"
      using inv alive by (simp add: step_ok_def step_effects_def)
    ultimately show ?thesis using that False alive by simp
  qed
qed

lemma px_inv_fwdE:
  assumes "px_inv cfg p" "cp_bev p" "px_fwd p = Some f"
  obtains "fwd_ok cfg p f" "px_state p = CONNECTING \<and> cp_connecting f \<and> cp_output f = [] \<and>
      px_lastInput p = Own_input \<or> px_state p = FWD \<and> \<not> cp_connecting f"
  using assms by (auto simp: px_inv_def split: proxy_state.splits)

lemma server_data_ok:
  assumes inv: "px_inv cfg p" and alive: "cp_bev p" and laws: "libevent_laws L"
    and f: "px_fwd p = Some f"
  obtains p' effs where "px_step cfg p (L, indet, Server_data bs) = Inr (p', effs)"
    and "step_ok cfg p [] bs p' effs" and "cp_bev p'"
proof -
  obtain ok: "fwd_ok cfg p f" and
    st: "px_state p = CONNECTING \<and> cp_connecting f \<and> cp_output f = [] \<and>
      px_lastInput p = Own_input \<or> px_state p = FWD \<and> \<not> cp_connecting f"
    using px_inv_fwdE [OF inv alive f] by blast
  obtain sok out left
    where s: "sendData L (cp_input f @ bs) p = Inr (sok, p\<lparr>cp_output := out\<rparr>, left)"
      and o: "out @ left = cp_output p @ cp_input f @ bs"
    using sendData_Inr [OF laws alive, of "cp_input f @ bs"] by blast
  let ?p1 = "p\<lparr>cp_output := out, px_fwd := Some (f\<lparr>cp_input := left\<rparr>)\<rparr>"
  have "px_step cfg p (L, indet, Server_data bs) = Inr (?p1, [])"
    using f ok s by (simp add: Forwarder_dataRecieved_def fwd_ok_def)
  moreover have "step_ok cfg p [] bs ?p1 []"
    using inv alive f ok st o
    by (auto simp: step_ok_def step_effects_def px_inv_def to_server_def from_server_def fwd_ok_def)
  ultimately show ?thesis using that alive by simp
qed

lemma onConnected_ok:
  assumes inv: "px_inv cfg p" and alive: "cp_bev p" and laws: "libevent_laws L"
    and f: "px_fwd p = Some f" and conn: "cp_connecting f"
  obtains p' where
    "onConnected L cfg indet True (p\<lparr>px_fwd := Some (f\<lparr>cp_connecting := False\<rparr>)\<rparr>) = Inr (p', [])"
    and "step_ok cfg p [] [] p' []" and "px_state p' = FWD"
proof -
  obtain ok: "fwd_ok cfg p f" and st: "px_state p = CONNECTING" "cp_output f = []"
      "px_lastInput p = Own_input"
    using px_inv_fwdE [OF inv alive f] conn by blast
  let ?f = "f\<lparr>cp_connecting := False\<rparr>"
  have bev: "cp_bev ?f" using ok by (simp add: fwd_ok_def)
  obtain sok out left
    where s: "sendData L (cp_input p) ?f = Inr (sok, ?f\<lparr>cp_output := out\<rparr>, left)"
      and "out @ left = cp_output ?f @ cp_input p"
    using sendData_Inr [OF laws bev, of "cp_input p"] by metis
  then have o: "out @ left = cp_output f @ cp_input p" by simp
  let ?p1 = "p\<lparr>px_fwd := Some (?f\<lparr>cp_output := out\<rparr>), px_state := FWD, cp_input := left,
      px_lastInput := Null_input\<rparr>"
  have "onConnected L cfg indet True (p\<lparr>px_fwd := Some ?f\<rparr>) = Inr (?p1, [])"
    using st s by (simp add: onConnected_def Proxy_dataRecieved_def)
  moreover have "fwd_ok cfg ?p1 (?f\<lparr>cp_output := out\<rparr>)"
    using ok unfolding fwd_ok_def by (simp only: o [symmetric]) simp
  then have "step_ok cfg p [] [] ?p1 []"
    using inv alive f st o
    by (simp add: step_ok_def step_effects_def px_inv_def to_server_def from_server_def)
  ultimately show ?thesis using that by simp
qed

lemma server_event_ok:
  assumes inv: "px_inv cfg p" and alive: "cp_bev p" and laws: "libevent_laws L"
    and f: "px_fwd p = Some f" and ev: "ev_connected ev \<longrightarrow> cp_connecting f"
  obtains p' effs where "px_step cfg p (L, indet, Server_event ev) = Inr (p', effs)"
    and "step_ok cfg p [] [] p' effs"
proof -
  obtain ok: "fwd_ok cfg p f"
    using px_inv_fwdE [OF inv alive f] by blast
  consider (conn) "ev_connected ev"
    | (fail) "\<not> ev_connected ev" "ev_eof ev \<or> ev_error ev" "cp_connecting f"
    | (closed) "\<not> ev_connected ev" "ev_eof ev \<or> ev_error ev" "\<not> cp_connecting f"
    | (other) "\<not> ev_connected ev" "\<not> ev_eof ev" "\<not> ev_error ev"
    by blast
  then show ?thesis
  proof cases
    case conn
    have r: "onEvent ev f = Inr (f\<lparr>cp_connecting := False\<rparr>, Call_connect True)"
      using conn ok by (simp add: onEvent_def fwd_ok_def)
    obtain p' where
      c: "onConnected L cfg indet True (p\<lparr>px_fwd := Some (f\<lparr>cp_connecting := False\<rparr>)\<rparr>) = Inr (p', [])"
      and s: "step_ok cfg p [] [] p' []"
      using onConnected_ok [OF inv alive laws f] conn ev by blast
    show ?thesis by (rule that [OF _ s]) (simp add: f r c)
  next
    case fail
    have "px_step cfg p (L, indet, Server_event ev) = Inr (p, [])"
      using f fail ok by (simp add: onEvent_def onConnected_def fwd_ok_def)
    moreover have "step_ok cfg p [] [] p []"
      using inv alive by (simp add: step_ok_def step_effects_def)
    ultimately show ?thesis by (rule that)
  next
    case closed
    let ?p1 = "p\<lparr>px_fwd := Some (f\<lparr>cp_bev := False\<rparr>), cp_bev := False\<rparr>"
    have c: "cp_closeCb p" using inv by (simp add: px_inv_def)
    have "px_step cfg p (L, indet, Server_event ev) = Inr (?p1, [Closed])"
      using f closed ok c
      by (simp add: onEvent_def ConnectionProcessor_close_def onFwdClose_def Proxy_close_def fwd_ok_def)
    moreover have "step_ok cfg p [] [] ?p1 [Closed]"
      using inv f by (auto simp: step_ok_def step_effects_def px_inv_def to_server_def from_server_def)
    ultimately show ?thesis by (rule that)
  next
    case other
    have "px_step cfg p (L, indet, Server_event ev) = Inr (p, [])"
      using f other by (simp add: onEvent_def)
    moreover have "step_ok cfg p [] [] p []"
      using inv alive by (simp add: step_ok_def step_effects_def)
    ultimately show ?thesis by (rule that)
  qed
qed

subsection \<open>Every event\<close>

lemma px_step_ok:
  assumes inv: "px_inv cfg p" and adm: "px_adm p (L, indet, e)"
  obtains p' effs where "px_step cfg p (L, indet, e) = Inr (p', effs)"
    and "step_ok cfg p (event_client e) (event_server e) p' effs"
proof -
  have alive: "cp_bev p" and laws: "libevent_laws L" using adm by (simp_all add: px_adm_def)
  show ?thesis
  proof (cases e)
    case (Client_data bs)
    show ?thesis
      by (rule client_data_ok [OF inv alive laws, of indet bs]) (use that Client_data in auto)
  next
    case (Client_event ev)
    show ?thesis
      by (rule client_event_ok [OF inv alive, of ev L indet]) (use that adm Client_event in \<open>auto simp: px_adm_def\<close>)
  next
    case (Server_data bs)
    obtain f where f: "px_fwd p = Some f" using adm Server_data by (auto simp: px_adm_def split: option.splits)
    show ?thesis
      by (rule server_data_ok [OF inv alive laws f, of indet bs]) (use that Server_data in auto)
  next
    case (Server_event ev)
    obtain f where f: "px_fwd p = Some f" "ev_connected ev \<longrightarrow> cp_connecting f"
      using adm Server_event by (auto simp: px_adm_def split: option.splits)
    show ?thesis
      by (rule server_event_ok [OF inv alive laws f, of indet]) (use that Server_event in auto)
  qed
qed

lemma px_next_ok:
  assumes "px_inv cfg p" and "px_adm p (L, indet, e)"
  obtains p' effs where "px_next cfg p (L, indet, e) = Inr p'"
    and "step_ok cfg p (event_client e) (event_server e) p' effs"
  using px_step_ok [OF assms] by (metis px_next_def fst_conv map_sum.simps(2))

interpretation px: guarded_machine "px_next cfg" px_adm "px_inv cfg" for cfg
proof
  fix p :: proxy and x :: proxy_input
  assume inv: "px_inv cfg p" and adm: "px_adm p x"
  obtain L indet e where x: "x = (L, indet, e)" by (cases x)
  show "\<exists>p'. px_next cfg p x = Inr p' \<and> px_inv cfg p'"
    using px_next_ok [OF inv, of L indet e] adm x by (metis step_ok_def)
qed

lemma run_streams:
  assumes "px_inv cfg p" and "admissible_run px_adm (px_next cfg) p es"
    and "run_steps (px_next cfg) p es = Inr p'"
  shows "to_server p' @ cp_input p' = to_server p @ cp_input p @ client_bytes es \<and>
    cp_output p' @ from_server p' = cp_output p @ from_server p @ server_bytes es"
  using assms
proof (induction es arbitrary: p)
  case Nil
  then show ?case by simp
next
  case (Cons x es)
  obtain L indet e where x: "x = (L, indet, e)" by (cases x)
  with Cons.prems have adm: "px_adm p (L, indet, e)" by simp
  obtain q effs where q: "px_next cfg p (L, indet, e) = Inr q"
    and ok: "step_ok cfg p (event_client e) (event_server e) q effs"
    using px_next_ok [OF Cons.prems(1) adm] by metis
  have "px_inv cfg q" using ok by (simp add: step_ok_def)
  with Cons x q have "to_server p' @ cp_input p' = (to_server q @ cp_input q) @ client_bytes es \<and>
      cp_output p' @ from_server p' = (cp_output q @ from_server q) @ server_bytes es" by simp
  with ok show ?case by (simp add: step_ok_def x)
qed

subsection \<open>An example run\<close>

text \<open>
  A client sends its first message for id 1 in two pieces, the server connects, answers, and the
  client sends another byte; used to show that the hypotheses below can hold.
\<close>

definition example_config :: config where
  "example_config = new_Config\<lparr>cfg_hosts := [1 \<mapsto> (''n1'', 8888)]\<rparr>"

definition connected_event :: bev_events where
  "connected_event = \<lparr>ev_connected = True, ev_eof = False, ev_error = False\<rparr>"

definition example_run :: "proxy_input list" where
  "example_run =
     [(libevent_ok, 0, Client_data [0, 0, 0, 1, 0]),
      (libevent_ok, 0, Client_data [0, 0, 4, 0, 0, 0, 1]),
      (libevent_ok, 0, Server_event connected_event),
      (libevent_ok, 0, Server_data [42]),
      (libevent_ok, 0, Client_data [7])]"

definition example_start :: proxy where
  "example_start = managed_Proxy (replicate 12 0) ''c'' 1"

definition example_final :: proxy where
  "example_final =
     connection_processor.extend
       ((new_incoming ''c'' 1)\<lparr>cp_closeCb := True, cp_output := [42]\<rparr>)
       \<lparr>px_fwd = Some (connection_processor.extend
           ((new_incoming ''n1'' 8888)\<lparr>cp_incoming := False, cp_connectCb := True,
              cp_closeCb := True, cp_output := [0, 0, 0, 1, 0, 0, 0, 4, 0, 0, 0, 1, 7]\<rparr>)
           \<lparr>fw_destination = True\<rparr>),
        px_state = FWD, px_data = [0, 0, 0, 1, 0, 0, 0, 4, 0, 0, 0, 1],
        px_lastInput = Null_input, px_id = 1, px_idClb = True\<rparr>"

lemma example_run_final:
  "run_steps (px_next example_config) example_start example_run = Inr example_final"
  by code_simp

lemma example_run_adm: "admissible_run px_adm (px_next example_config) example_start example_run"
proof -
  have "admissible_run px_events_ok (px_next example_config) example_start example_run" by code_simp
  moreover have "list_all (\<lambda>x. libevent_laws (fst x)) example_run"
    by (simp add: example_run_def libevent_ok_laws)
  ultimately show ?thesis unfolding px_adm_def [abs_def] by (intro admissible_run_conj)
qed

subsection \<open>Properties\<close>

text \<open>
  A managed proxy never dereferences a null pointer and never calls an empty callback: whatever
  libevent delivers in the order it promises, every run goes through and ends in a state that
  satisfies the invariant.
\<close>

theorem proxy_never_faults:
  assumes "admissible_run px_adm (px_next cfg) (managed_Proxy junk ip prt) es"
  shows "\<exists>p. run_steps (px_next cfg) (managed_Proxy junk ip prt) es = Inr p \<and> px_inv cfg p"
  using px_inv_managed assms by (rule px.run_safe)

theorem proxy_never_faults_witness:
  "\<exists>p. run_steps (px_next example_config) (managed_Proxy (replicate 12 0) ''c'' 1) example_run = Inr p \<and>
     px_inv example_config p"
  by (rule proxy_never_faults [OF example_run_adm [unfolded example_start_def]])

text \<open>
  C4. The proxy is transparent: at every moment the bytes queued for the server followed by those
  still held are exactly the bytes the client sent, in order, first message included, and the same
  holds from the server to the client.
\<close>

theorem proxy_streams_conserved:
  assumes "admissible_run px_adm (px_next cfg) (managed_Proxy junk ip prt) es"
    and "run_steps (px_next cfg) (managed_Proxy junk ip prt) es = Inr p"
  shows "to_server p @ cp_input p = client_bytes es \<and> cp_output p @ from_server p = server_bytes es"
  using run_streams [OF px_inv_managed assms]
  by (simp add: to_server_def from_server_def managed_Proxy_def setIdRcvClb_def setOnCloseCb_def
      new_Proxy_def new_incoming_def connection_processor.defs)

theorem proxy_streams_conserved_witness:
  "to_server example_final @ cp_input example_final = [0, 0, 0, 1, 0, 0, 0, 4, 0, 0, 0, 1, 7] \<and>
   cp_output example_final @ from_server example_final = [42]"
  using proxy_streams_conserved [OF example_run_adm [unfolded example_start_def]
      example_run_final [unfolded example_start_def]]
  by (simp add: example_run_def)

text \<open>
  C11. Routing: whenever a live proxy has a server connection, the client's first 12 bytes were the
  tag 1, the size 4 and the proxy's id, and the connection goes to the host and port configured for
  that id.
\<close>

theorem proxy_routes_by_id:
  assumes "admissible_run px_adm (px_next cfg) (managed_Proxy junk ip prt) es"
    and "run_steps (px_next cfg) (managed_Proxy junk ip prt) es = Inr p"
    and "cp_bev p" and "px_fwd p = Some f"
  shows "take 12 (client_bytes es) = header (px_id p) \<and>
    (cp_host f, cp_port f) = getHostById cfg (px_id p) \<and> cfg_hosts cfg (px_id p) \<noteq> None"
proof -
  have inv: "px_inv cfg p"
    using px.run_safe [OF px_inv_managed assms(1)] assms(2) by fastforce
  obtain ok: "fwd_ok cfg p f" using px_inv_fwdE [OF inv assms(3,4)] by blast
  have "cp_output f @ cp_input p = client_bytes es"
    using run_streams [OF px_inv_managed assms(1,2)] assms(4)
    by (simp add: to_server_def managed_Proxy_def setIdRcvClb_def setOnCloseCb_def
        new_Proxy_def new_incoming_def connection_processor.defs)
  with ok show ?thesis
    by (auto simp: fwd_ok_def getHostById_def simp del: take_append split: option.splits)
qed

theorem proxy_routes_by_id_witness:
  "take 12 (client_bytes example_run) = header (px_id example_final) \<and>
   getHostById example_config (px_id example_final) = (''n1'', 8888)"
proof -
  have f: "cp_bev example_final" "px_fwd example_final = Some (the (px_fwd example_final))"
    by (simp_all add: example_final_def new_incoming_def connection_processor.defs)
  show ?thesis
    using proxy_routes_by_id [OF example_run_adm [unfolded example_start_def]
        example_run_final [unfolded example_start_def] f]
    by (simp add: example_final_def new_incoming_def connection_processor.defs)
qed

text \<open>
  C14. The decision on the first message: with fewer than 12 bytes the proxy waits; with 12 or more
  it closes the client if they are not a first message for a configured id; otherwise it reports
  the id once and either waits for the server connection or, if connecting fails at once, closes.
\<close>

theorem first_message_decision:
  assumes "px_inv cfg p" "cp_bev p" "px_state p = BEGIN" "libevent_laws L"
    and "px_step cfg p (L, indet, Client_data bs) = Inr (p', effs)"
  shows "if length (cp_input p @ bs) < 12 then effs = [] \<and> cp_bev p' \<and> px_state p' = BEGIN
    else case header_id (cp_input p @ bs) of
      None \<Rightarrow> effs = [Closed] \<and> \<not> cp_bev p'
    | Some i \<Rightarrow>
        (case cfg_hosts cfg i of
           None \<Rightarrow> effs = [Closed] \<and> \<not> cp_bev p'
         | Some (h, prt) \<Rightarrow>
             if h = [] then effs = [Closed] \<and> \<not> cp_bev p'
             else if bufferevent_socket_connect_hostname L h prt = 0
             then effs = [Id_received i] \<and> cp_bev p' \<and> px_state p' = CONNECTING \<and> px_id p' = i
             else effs = [Id_received i, Closed] \<and> \<not> cp_bev p')"
proof (cases "length (cp_input p @ bs) < 12")
  case True
  then show ?thesis
    using assms by (auto simp: Proxy_dataRecieved_def MSG_SIZE_def)
next
  case False
  define i where "i = cp_input p @ bs"
  have i: "12 \<le> length i" "length (take 12 i) = 12" using False by (simp_all add: i_def)
  let ?q = "p\<lparr>cp_input := i, px_lastInput := Own_input, px_data := take 12 i @ drop 12 (px_data p)\<rparr>"
  have s: "Proxy_dataRecieved L cfg indet Own_input (p\<lparr>cp_input := i\<rparr>) = Inr (p', effs)"
    using assms(5) by (simp add: i_def)
  have r: "parse_first_message L cfg indet ?q = (p', effs)"
    using s i assms(3) copyout_laws [OF assms(4) i(1)]
    by (simp add: Proxy_dataRecieved_def MSG_SIZE_def)
  have h: "header_id (px_data ?q) = header_id i" using header_id_take [OF i(1)] by simp
  have "cp_closeCb p" "px_idClb p" using assms(1) by (simp_all add: px_inv_def)
  then show ?thesis
    using r h False assms(2) unfolding i_def [symmetric]
    by (auto simp: px_defs getHostById_def Let_def split: option.splits if_splits)
qed

theorem first_message_decision_witness:
  "px_step example_config example_start (libevent_ok, 0, Client_data (header 2)) =
     Inr (example_start\<lparr>cp_bev := False, cp_input := header 2, px_lastInput := Own_input,
            px_data := header 2\<rparr>, [Closed]) \<and> header_id (header 2) = Some 2"
proof -
  have r: "px_step example_config example_start (libevent_ok, 0, Client_data (header 2)) =
     Inr (example_start\<lparr>cp_bev := False, cp_input := header 2, px_lastInput := Own_input,
            px_data := header 2\<rparr>, [Closed])" by code_simp
  have s: "px_inv example_config example_start" "cp_bev example_start" "px_state example_start = BEGIN"
    by (simp_all add: px_inv_managed example_start_def)
      (simp_all add: managed_Proxy_def setIdRcvClb_def setOnCloseCb_def new_Proxy_def
        new_incoming_def connection_processor.defs)
  have "header_id (header 2) = Some 2" by code_simp
  then show ?thesis using first_message_decision [OF s libevent_ok_laws r] r by simp
qed

text \<open>
  While the proxy is waiting for its server connection, nothing but a completed connect or an event
  on the client side moves it.
\<close>

fun keeps_waiting :: "proxy_event \<Rightarrow> bool" where
  "keeps_waiting (Client_data bs) = True"
| "keeps_waiting (Client_event ev) = False"
| "keeps_waiting (Server_data bs) = False"
| "keeps_waiting (Server_event ev) = (\<not> ev_connected ev)"

lemma waiting_step:
  assumes inv: "px_inv cfg p" and alive: "cp_bev p" and st: "px_state p = CONNECTING"
    and e: "keeps_waiting e"
  shows "\<exists>p'. px_next cfg p (L, indet, e) = Inr p' \<and> cp_bev p' \<and> px_state p' = CONNECTING \<and>
    px_inv cfg p'"
proof -
  obtain f where f: "px_fwd p = Some f" "fwd_ok cfg p f" "cp_connecting f" "cp_output f = []"
      "px_lastInput p = Own_input"
    using inv alive st by (auto simp: px_inv_def)
  show ?thesis
  proof (cases e)
    case (Client_data bs)
    let ?p1 = "p\<lparr>cp_input := cp_input p @ bs\<rparr>"
    have "12 \<le> length (cp_input p)"
      using f by (auto simp: fwd_ok_def dest: arg_cong [where f = length])
    then have "px_inv cfg ?p1" using inv st f by (simp add: px_inv_def fwd_ok_def)
    then show ?thesis using Client_data st alive by (simp add: px_next_def Proxy_dataRecieved_def)
  next
    case (Server_event ev)
    have same: "p\<lparr>px_fwd := Some f\<rparr> = p" using f(1) by simp
    have "px_inv cfg (p\<lparr>px_fwd := Some f\<rparr>)" unfolding same by (rule inv)
    with Server_event show ?thesis
      using f e st alive by (simp add: px_next_def onEvent_def onConnected_def fwd_ok_def)
  qed (use e in auto)
qed

text \<open>
  C16. A failed connection attempt is only logged: from then on, whatever the client sends and
  however often the server side reports errors, the proxy stays open in its waiting state, the
  client is never closed and none of its bytes is ever queued anywhere.
\<close>

theorem failed_connect_leaves_client_waiting:
  assumes "px_inv cfg p" "cp_bev p" "px_state p = CONNECTING"
    and "\<forall>(L, indet, e) \<in> set es. keeps_waiting e"
  shows "\<exists>p'. run_steps (px_next cfg) p es = Inr p' \<and> cp_bev p' \<and> px_state p' = CONNECTING \<and>
    to_server p' = []"
  using assms
proof (induction es arbitrary: p)
  case Nil
  then show ?case by (auto simp: px_inv_def to_server_def)
next
  case (Cons x es)
  obtain L indet e where x: "x = (L, indet, e)" by (cases x)
  obtain q where q: "px_next cfg p (L, indet, e) = Inr q" "cp_bev q" "px_state q = CONNECTING"
      "px_inv cfg q"
    using waiting_step [OF Cons.prems(1-3), of e L indet] Cons.prems(4) x by auto
  then show ?case using Cons.IH [OF q(4,2,3)] Cons.prems(4) x by simp
qed

definition error_event :: bev_events where
  "error_event = \<lparr>ev_connected = False, ev_eof = False, ev_error = True\<rparr>"

definition example_waiting :: proxy where
  "example_waiting =
     (case run_steps (px_next example_config) example_start (take 2 example_run) of
        Inr p \<Rightarrow> p | Inl f \<Rightarrow> example_start)"

lemma example_waiting_inv: "px_inv example_config example_waiting"
proof -
  have "admissible_run px_adm (px_next example_config) example_start (take 2 example_run)"
  proof -
    have "admissible_run px_events_ok (px_next example_config) example_start (take 2 example_run)"
      by code_simp
    moreover have "list_all (\<lambda>x. libevent_laws (fst x)) (take 2 example_run)"
      by (simp add: example_run_def libevent_ok_laws)
    ultimately show ?thesis unfolding px_adm_def [abs_def] by (intro admissible_run_conj)
  qed
  then obtain p where "run_steps (px_next example_config) example_start (take 2 example_run) = Inr p"
      "px_inv example_config p"
    using px.run_safe [OF px_inv_managed] unfolding example_start_def by blast
  then show ?thesis by (simp add: example_waiting_def)
qed

theorem failed_connect_leaves_client_waiting_witness:
  "\<exists>p'. run_steps (px_next example_config) example_waiting
      [(libevent_ok, 0, Server_event error_event), (libevent_ok, 0, Client_data [9])] = Inr p' \<and>
     cp_bev p' \<and> px_state p' = CONNECTING \<and> to_server p' = []"
proof -
  have s: "cp_bev example_waiting" "px_state example_waiting = CONNECTING" by code_simp+
  show ?thesis
    by (rule failed_connect_leaves_client_waiting [OF example_waiting_inv s])
      (simp add: error_event_def)
qed

text \<open>
  No delay once forwarding: while the event buffers accept data, a chunk from the client is
  queued for the server in the same step together with everything still held, and nothing stays
  behind.
\<close>

theorem forwarding_is_immediate:
  assumes "px_inv cfg p" "cp_bev p" "px_state p = FWD"
    and "\<forall>d s. evbuffer_add_buffer L d s = (0, d @ s, [])"
  shows "\<exists>p'. px_step cfg p (L, indet, Client_data bs) = Inr (p', []) \<and>
    to_server p' = to_server p @ cp_input p @ bs \<and> cp_input p' = [] \<and> px_state p' = FWD"
proof -
  obtain f where "px_fwd p = Some f" "fwd_ok cfg p f"
    using assms(1-3) by (auto simp: px_inv_def)
  then show ?thesis
    using assms(3,4) by (simp add: Proxy_dataRecieved_def sendData_def fwd_ok_def to_server_def)
qed

lemma example_final_inv: "px_inv example_config example_final"
  using px.run_safe [OF px_inv_managed example_run_adm [unfolded example_start_def]]
    example_run_final by (fastforce simp: example_start_def)

theorem forwarding_is_immediate_witness:
  "\<exists>p'. px_step example_config example_final (libevent_ok, 0, Client_data [5]) = Inr (p', []) \<and>
     to_server p' = to_server example_final @ cp_input example_final @ [5] \<and> cp_input p' = [] \<and>
     px_state p' = FWD"
proof -
  have s: "cp_bev example_final" "px_state example_final = FWD" by code_simp+
  show ?thesis
    by (rule forwarding_is_immediate [OF example_final_inv s]) (simp add: libevent_ok_def)
qed

text \<open>The two events that close a proxy.\<close>

lemma closing_steps:
  assumes "px_inv cfg p" "cp_bev p" "px_fwd p = Some f" "\<not> cp_connecting f"
    and "\<not> ev_connected ev" "ev_eof ev \<or> ev_error ev"
  shows "px_step cfg p (L, indet, Client_event ev) = Inr (p\<lparr>cp_bev := False\<rparr>, [Closed]) \<and>
    px_step cfg p (L, indet, Server_event ev) =
      Inr (p\<lparr>px_fwd := Some (f\<lparr>cp_bev := False\<rparr>), cp_bev := False\<rparr>, [Closed])"
proof -
  obtain "fwd_ok cfg p f" using px_inv_fwdE [OF assms(1-3)] by blast
  moreover have "cp_closeCb p" "\<not> cp_connecting p" using assms(1) by (simp_all add: px_inv_def)
  ultimately show ?thesis
    using assms
    by (simp add: onEvent_def ConnectionProcessor_close_def onFwdClose_def Proxy_close_def fwd_ok_def)
qed

text \<open>
  Either side closing ends the proxy: an end-of-file or error event of the client, or of an
  established server connection, frees the client's bufferevent and runs the close callback exactly
  once.
\<close>

theorem closing_either_side_closes:
  assumes "px_inv cfg p" "cp_bev p" "px_fwd p = Some f" "\<not> cp_connecting f"
    and "\<not> ev_connected ev" "ev_eof ev \<or> ev_error ev"
  shows "px_step cfg p (L, indet, Client_event ev) = Inr (p\<lparr>cp_bev := False\<rparr>, [Closed]) \<and>
    px_step cfg p (L, indet, Server_event ev) =
      Inr (p\<lparr>px_fwd := Some (f\<lparr>cp_bev := False\<rparr>), cp_bev := False\<rparr>, [Closed])"
  using closing_steps [OF assms] by blast

theorem closing_either_side_closes_witness:
  "px_step example_config example_final (libevent_ok, 0, Client_event error_event) =
     Inr (example_final\<lparr>cp_bev := False\<rparr>, [Closed])"
proof -
  have s: "cp_bev example_final" "px_fwd example_final = Some (the (px_fwd example_final))"
      "\<not> cp_connecting (the (px_fwd example_final))"
    by code_simp+
  have e: "\<not> ev_connected error_event" "ev_eof error_event \<or> ev_error error_event"
    by (simp_all add: error_event_def)
  show ?thesis
    using closing_either_side_closes [OF example_final_inv s e, of libevent_ok 0] by simp
qed

end
