(* ===== verification/Connection_Manager.thy ===== *)
theory Connection_Manager
  imports Proxy_Props
begin

section \<open>ConnectionManager: the owner of the connection objects\<close>

text \<open>
  \<open>connectionmanager.cpp/.h\<close>. The manager holds the only lasting \<open>shared_ptr\<close> to every connection
  object, so an object is alive exactly while it is in \<open>_processors\<close>; removing it destroys it. An
  address stands for the identity of an object (a \<open>weak_ptr\<close> keeps the control block, so addresses
  of tracked objects are never confused), and \<open>lock\<close> on a weak pointer succeeds exactly for the
  addresses in the set. The mutex makes each operation atomic, as the functions here are.
\<close>

record 'p connection_manager =
  cm_processors :: "addr \<rightharpoonup> 'p"
  cm_running :: bool
  cm_internalEvents :: bool

definition new_ConnectionManager :: "'p connection_manager" where
  "new_ConnectionManager =
     \<lparr>cm_processors = Map.empty, cm_running = True, cm_internalEvents = False\<rparr>"

definition new_ConnectionManager_internal :: "'p connection_manager" where
  "new_ConnectionManager_internal =
     \<lparr>cm_processors = Map.empty, cm_running = True, cm_internalEvents = True\<rparr>"

definition addConnection :: "addr \<Rightarrow> 'p \<Rightarrow> 'p connection_manager \<Rightarrow> 'p connection_manager" where
  "addConnection a p cm =
     (if cm_running cm then cm\<lparr>cm_processors := (cm_processors cm)(a \<mapsto> p)\<rparr> else cm)"

definition CM_dropConnection :: "addr \<Rightarrow> 'p connection_manager \<Rightarrow> 'p connection_manager" where
  "CM_dropConnection a cm =
     (if cm_running cm then
        (case cm_processors cm a of
           None \<Rightarrow> cm
         | Some p \<Rightarrow> cm\<lparr>cm_processors := (cm_processors cm)(a := None)\<rparr>)
      else cm)"

definition CM_dropAll :: "'p connection_manager \<Rightarrow> 'p connection_manager" where
  "CM_dropAll cm = cm\<lparr>cm_running := False, cm_processors := Map.empty\<rparr>"

text \<open>
  \<open>run\<close> and \<open>stop\<close> act on an event loop of the manager's own: the result and the calls made.
\<close>

datatype loop_call = Event_base_dispatch | Event_base_loopbreak

definition CM_run :: "'p connection_manager \<Rightarrow> bool \<times> loop_call list" where
  "CM_run cm = (if \<not> cm_internalEvents cm then (False, []) else (True, [Event_base_dispatch]))"

definition CM_stop :: "'p connection_manager \<Rightarrow> bool \<times> loop_call list" where
  "CM_stop cm = (if \<not> cm_internalEvents cm then (False, []) else (True, [Event_base_loopbreak]))"

subsection \<open>What the proxy manager relies on\<close>

text \<open>
  The interface of a store of connection objects: \<open>find\<close> is \<open>lock\<close>, \<open>drop\<close> removes one object,
  \<open>wipe\<close> all of them. \<open>ok\<close> is the well-formedness the store keeps.
\<close>

locale processor_store =
  fixes find :: "'s \<Rightarrow> addr \<Rightarrow> 'p option"
    and drop_one :: "addr \<Rightarrow> 's \<Rightarrow> 's"
    and wipe :: "'s \<Rightarrow> 's"
    and ok :: "'s \<Rightarrow> bool"
  assumes find_drop: "ok s \<Longrightarrow> find (drop_one a s) b = (if b = a then None else find s b)"
    and ok_drop: "ok s \<Longrightarrow> ok (drop_one a s)"
    and find_wipe: "find (wipe s) b = None"
    and ok_wipe: "ok (wipe s)"
begin

lemma ok_drops: "ok s \<Longrightarrow> ok (fold drop_one as s)"
  by (induction as arbitrary: s) (auto simp: ok_drop)

lemma find_drops:
  "ok s \<Longrightarrow> find (fold drop_one as s) b = (if b \<in> set as then None else find s b)"
  by (induction as arbitrary: s) (auto simp: find_drop ok_drop)

lemma find_drops_perm:
  "ok s \<Longrightarrow> set as = set bs \<Longrightarrow> find (fold drop_one as s) = find (fold drop_one bs s)"
  by (rule ext) (simp add: find_drops)

end

definition cm_ok :: "'p connection_manager \<Rightarrow> bool" where
  "cm_ok cm \<longleftrightarrow> (cm_running cm \<or> cm_processors cm = Map.empty)"

interpretation cm: processor_store cm_processors CM_dropConnection CM_dropAll cm_ok
  by unfold_locales
    (auto simp: CM_dropConnection_def CM_dropAll_def cm_ok_def split: option.splits)

lemma CM_dropConnection_running [simp]:
  "cm_running (CM_dropConnection a cm) = cm_running cm"
  "cm_internalEvents (CM_dropConnection a cm) = cm_internalEvents cm"
  by (auto simp: CM_dropConnection_def split: option.splits)

lemma drops_running: "cm_running (fold CM_dropConnection as cm) = cm_running cm"
  by (induction as arbitrary: cm) simp_all

end
