(* ===== verification/Proxy_Manager.thy ===== *)
theory Proxy_Manager
  imports Connection_Manager
begin

section \<open>ProxyManager and Controller: clients by id\<close>

text \<open>
  \<open>proxymanager.cpp/.h\<close>, \<open>controller.cpp/.h\<close> and \<open>controlmessage.h\<close>. The proxy manager records
  which client reported which id in an \<open>unordered_multimap\<close> from ids to weak pointers, modelled as
  the list of its entries (their order never matters: the model only filters it and drops the
  objects it names, which commutes, see \<open>cm.find_drops_perm\<close>).
\<close>

record proxy_manager =
  pm_cm :: "proxy connection_manager"
  pm_idToConn :: "(c_int \<times> addr) list"

definition new_ProxyManager :: "proxy connection_manager \<Rightarrow> proxy_manager" where
  "new_ProxyManager cm = \<lparr>pm_cm = cm, pm_idToConn = []\<rparr>"

definition erase_id :: "c_int \<Rightarrow> (c_int \<times> addr) list \<Rightarrow> (c_int \<times> addr) list" where
  "erase_id i m = filter (\<lambda>(j, a). j \<noteq> i) m"

definition equal_range :: "c_int \<Rightarrow> (c_int \<times> addr) list \<Rightarrow> addr list" where
  "equal_range i m = map snd (filter (\<lambda>(j, a). j = i) m)"

definition addProxy :: "addr \<Rightarrow> proxy \<Rightarrow> proxy_manager \<Rightarrow> proxy_manager" where
  "addProxy a p pm = pm\<lparr>pm_cm := addConnection a (setIdRcvClb (setOnCloseCb p)) (pm_cm pm)\<rparr>"

text \<open>
  The close callback of a proxy: an object that is still alive and has reported a non-negative id
  has the entries of that id erased, all of them; then the object is dropped.
\<close>

definition PM_dropConnection :: "addr \<Rightarrow> proxy_manager \<Rightarrow> proxy_manager" where
  "PM_dropConnection a pm =
     (let pm1 =
        (case cm_processors (pm_cm pm) a of
           None \<Rightarrow> pm
         | Some p \<Rightarrow>
             if 0 \<le> sint (px_id p) then pm\<lparr>pm_idToConn := erase_id (px_id p) (pm_idToConn pm)\<rparr>
             else pm)
      in pm1\<lparr>pm_cm := CM_dropConnection a (pm_cm pm1)\<rparr>)"

definition PM_dropAll :: "proxy_manager \<Rightarrow> proxy_manager" where
  "PM_dropAll pm = pm\<lparr>pm_cm := CM_dropAll (pm_cm pm), pm_idToConn := []\<rparr>"

definition dropById :: "c_int \<Rightarrow> proxy_manager \<Rightarrow> proxy_manager" where
  "dropById i pm =
     (let allProxies = equal_range i (pm_idToConn pm)
      in if allProxies = [] then pm
         else
           let pm1 = pm\<lparr>pm_idToConn := erase_id i (pm_idToConn pm)\<rparr>
           in pm1\<lparr>pm_cm := fold CM_dropConnection allProxies (pm_cm pm1)\<rparr>)"

definition onIdRecv :: "c_int \<Rightarrow> addr \<Rightarrow> proxy_manager \<Rightarrow> proxy_manager" where
  "onIdRecv i a pm = pm\<lparr>pm_idToConn := (i, a) # pm_idToConn pm\<rparr>"

subsection \<open>Controller\<close>

record control_message =
  msg_type :: c_int
  msg_id :: c_int

definition CLOSE :: c_int where "CLOSE = 0"
definition CLOSE_ALL :: c_int where "CLOSE_ALL = 1"

definition onControlMessage :: "control_message \<Rightarrow> proxy_manager \<Rightarrow> proxy_manager" where
  "onControlMessage msg pm =
     (if msg_type msg = CLOSE then dropById (msg_id msg) pm
      else if msg_type msg = CLOSE_ALL then PM_dropAll pm
      else pm)"

subsection \<open>Lemmas\<close>

lemma set_erase_id [simp]: "set (erase_id i m) = {(j, a) \<in> set m. j \<noteq> i}"
  by (auto simp: erase_id_def)

lemma set_equal_range [simp]: "set (equal_range i m) = {a. (i, a) \<in> set m}"
  by (force simp: equal_range_def)

lemma erase_id_idem [simp]: "equal_range i (erase_id i m) = []"
  by (auto simp: equal_range_def erase_id_def filter_empty_conv)

lemma distinct_erase_id: "distinct (map snd m) \<Longrightarrow> distinct (map snd (erase_id i m))"
  by (simp add: erase_id_def distinct_map_filter)

lemma equal_range_Nil: "equal_range i m = [] \<longleftrightarrow> (\<forall>a. (i, a) \<notin> set m)"
  by (auto simp: equal_range_def filter_empty_conv)

text \<open>\<open>dropById\<close> as a function of the two maps alone.\<close>

lemma dropById_processors:
  assumes "cm_ok (pm_cm pm)"
  shows "cm_processors (pm_cm (dropById i pm)) a =
    (if (i, a) \<in> set (pm_idToConn pm) then None else cm_processors (pm_cm pm) a)"
proof (cases "equal_range i (pm_idToConn pm) = []")
  case True
  then show ?thesis by (simp add: dropById_def equal_range_Nil)
next
  case False
  then show ?thesis by (simp add: dropById_def Let_def cm.find_drops [OF assms])
qed

lemma dropById_idToConn: "set (pm_idToConn (dropById i pm)) = {(j, a) \<in> set (pm_idToConn pm). j \<noteq> i}"
  by (auto simp: dropById_def Let_def equal_range_Nil)

lemma dropById_idToConn_eq: "pm_idToConn (dropById i pm) = erase_id i (pm_idToConn pm)"
proof (cases "equal_range i (pm_idToConn pm) = []")
  case True
  then have "erase_id i (pm_idToConn pm) = pm_idToConn pm"
    by (auto simp: erase_id_def equal_range_Nil intro!: filter_True)
  with True show ?thesis by (simp add: dropById_def)
next
  case False
  then show ?thesis by (simp add: dropById_def Let_def)
qed

lemma dropById_running: "cm_running (pm_cm (dropById i pm)) = cm_running (pm_cm pm)"
  by (simp add: dropById_def Let_def drops_running)

lemma PM_dropConnection_processors:
  assumes "cm_ok (pm_cm pm)"
  shows "cm_processors (pm_cm (PM_dropConnection a pm)) b =
    (if b = a then None else cm_processors (pm_cm pm) b)"
  using cm.find_drop [OF assms, of a b]
  by (auto simp: PM_dropConnection_def Let_def split: option.splits)

lemma PM_dropConnection_idToConn:
  "pm_idToConn (PM_dropConnection a pm) =
     (case cm_processors (pm_cm pm) a of
        None \<Rightarrow> pm_idToConn pm
      | Some p \<Rightarrow> if 0 \<le> sint (px_id p) then erase_id (px_id p) (pm_idToConn pm) else pm_idToConn pm)"
  by (auto simp: PM_dropConnection_def Let_def split: option.splits)

lemma PM_dropConnection_running:
  "cm_running (pm_cm (PM_dropConnection a pm)) = cm_running (pm_cm pm)"
  by (auto simp: PM_dropConnection_def Let_def split: option.splits)

subsection \<open>Properties\<close>

text \<open>
  A CLOSE message drops exactly the clients recorded under its id: each of them is destroyed,
  every other client object is untouched, and the records of the other ids stay.
\<close>

theorem dropById_drops_recorded:
  assumes "cm_ok (pm_cm pm)" and "msg_type msg = CLOSE"
  shows "cm_processors (pm_cm (onControlMessage msg pm)) =
      (\<lambda>a. if (msg_id msg, a) \<in> set (pm_idToConn pm) then None else cm_processors (pm_cm pm) a) \<and>
    set (pm_idToConn (onControlMessage msg pm)) = {(j, a) \<in> set (pm_idToConn pm). j \<noteq> msg_id msg}"
  using assms by (auto simp: onControlMessage_def dropById_processors dropById_idToConn fun_eq_iff)

theorem dropById_drops_recorded_witness:
  "cm_processors (pm_cm (onControlMessage \<lparr>msg_type = CLOSE, msg_id = 1\<rparr>
      \<lparr>pm_cm = new_ConnectionManager\<lparr>cm_processors := [5 \<mapsto> example_final, 6 \<mapsto> example_final]\<rparr>,
       pm_idToConn = [(1, 5), (2, 6)]\<rparr>)) = [6 \<mapsto> example_final]"
proof -
  let ?pm = "\<lparr>pm_cm = new_ConnectionManager\<lparr>cm_processors := [5 \<mapsto> example_final, 6 \<mapsto> example_final]\<rparr>,
       pm_idToConn = [(1, 5), (2, 6)]\<rparr>"
  have h: "cm_ok (pm_cm ?pm)" "msg_type \<lparr>msg_type = CLOSE, msg_id = 1\<rparr> = CLOSE"
    by (simp_all add: cm_ok_def new_ConnectionManager_def)
  show ?thesis
    using conjunct1 [OF dropById_drops_recorded [OF h]]
    by (auto simp: new_ConnectionManager_def fun_eq_iff)
qed

text \<open>
  One client leaving makes its namesakes unreachable: after a client with a non-negative id
  has closed, no record of that id is left, so a CLOSE message for the id changes nothing, however
  many other clients with the same id are still connected.
\<close>

theorem close_after_namesake_left_is_lost:
  assumes "cm_processors (pm_cm pm) a = Some p" and "0 \<le> sint (px_id p)"
    and "msg_type msg = CLOSE" and "msg_id msg = px_id p"
  shows "onControlMessage msg (PM_dropConnection a pm) = PM_dropConnection a pm"
proof -
  have "pm_idToConn (PM_dropConnection a pm) = erase_id (px_id p) (pm_idToConn pm)"
    using assms(1,2) by (simp add: PM_dropConnection_idToConn)
  then show ?thesis using assms(3,4) by (simp add: onControlMessage_def dropById_def)
qed

theorem close_after_namesake_left_is_lost_witness:
  "cm_processors (pm_cm (onControlMessage \<lparr>msg_type = CLOSE, msg_id = 1\<rparr> (PM_dropConnection 5
      \<lparr>pm_cm = new_ConnectionManager\<lparr>cm_processors := [5 \<mapsto> example_final, 6 \<mapsto> example_final]\<rparr>,
       pm_idToConn = [(1, 5), (1, 6)]\<rparr>))) 6 = Some example_final"
proof -
  let ?pm = "\<lparr>pm_cm = new_ConnectionManager\<lparr>cm_processors := [5 \<mapsto> example_final, 6 \<mapsto> example_final]\<rparr>,
       pm_idToConn = [(1, 5), (1, 6)]\<rparr>"
  have a: "cm_processors (pm_cm ?pm) 5 = Some example_final" by simp
  have i: "px_id example_final = 1"
    by (simp add: example_final_def new_incoming_def connection_processor.defs)
  then have z: "0 \<le> sint (px_id example_final)" by simp
  have c: "cm_ok (pm_cm ?pm)" by (simp add: cm_ok_def new_ConnectionManager_def)
  show ?thesis
    using close_after_namesake_left_is_lost [OF a z, of "\<lparr>msg_type = CLOSE, msg_id = 1\<rparr>"]
      PM_dropConnection_processors [OF c, of 5 6] i
    by simp
qed

end
