(* ===== verification/Control_Channel.thy ===== *)
theory Control_Channel
  imports Proxy_Manager
begin

section \<open>ControlChannel and JsonParser: control messages from the broker\<close>

text \<open>
  \<open>controlchannel.cpp/.h\<close> and \<open>jsonparser.cpp/.h\<close>. jsoncpp is not part of the repository: a JSON
  value is an element of the type \<open>'v\<close>, the calls the parser makes are the fields of \<open>jsoncpp\<close>
  (\<open>None\<close> is the exception \<open>Json::LogicError\<close>), and \<open>jsoncpp_laws\<close> states the documented behaviour the
  properties need. An exception that leaves a callback leaves the event loop, which is written in C:
  it ends the process, so it is a fault of the model.
\<close>

record 'v jsoncpp =
  parseFromStream :: "byte list \<Rightarrow> 'v option"
  json_index :: "'v \<Rightarrow> string \<Rightarrow> 'v option"
  json_empty :: "'v \<Rightarrow> bool"
  isConvertibleTo_int :: "'v \<Rightarrow> bool"
  asString :: "'v \<Rightarrow> string option"
  asInt :: "'v \<Rightarrow> c_int option"

text \<open>A value that is convertible to an int has an int.\<close>

definition jsoncpp_laws :: "'v jsoncpp \<Rightarrow> bool" where
  "jsoncpp_laws J \<longleftrightarrow> (\<forall>v. isConvertibleTo_int J v \<longrightarrow> asInt J v \<noteq> None)"

fun or_throw :: "'a option \<Rightarrow> ('a \<Rightarrow> fault + 'b) \<Rightarrow> fault + 'b" where
  "or_throw None k = Inl Json_logic_error"
| "or_throw (Some x) k = k x"

lemma or_throw_Inr [simp]: "or_throw x k = Inr r \<longleftrightarrow> (\<exists>y. x = Some y \<and> k y = Inr r)"
  by (cases x) auto

definition JsonParser_parse ::
  "'v jsoncpp \<Rightarrow> control_message \<Rightarrow> byte list \<Rightarrow> fault + bool \<times> control_message" where
  "JsonParser_parse J out data =
     (case parseFromStream J data of
        None \<Rightarrow> Inr (False, out)
      | Some root \<Rightarrow>
          or_throw (json_index J root ''client_id'') (\<lambda>client.
          if json_empty J client then Inr (False, out)
          else
            or_throw (json_index J root ''job'') (\<lambda>job.
            if json_empty J job \<or> \<not> isConvertibleTo_int J client then Inr (False, out)
            else
              or_throw (asString J job) (\<lambda>name.
              if name \<noteq> ''close_sockets'' then Inr (False, out)
              else
                or_throw (asInt J client) (\<lambda>i.
                Inr (True, out\<lparr>msg_id := i, msg_type := (if 0 \<le> sint i then CLOSE else CLOSE_ALL)\<rparr>))))))"

text \<open>An object whose job has a text never makes the parser throw.\<close>

lemma JsonParser_parse_total:
  assumes "jsoncpp_laws J" and "parseFromStream J data = Some root"
    and "json_index J root ''client_id'' = Some client" and "json_index J root ''job'' = Some job"
    and "asString J job \<noteq> None"
  shows "JsonParser_parse J out data \<noteq> Inl f"
proof -
  obtain name where n: "asString J job = Some name" using assms(5) by blast
  show ?thesis
  proof (cases "isConvertibleTo_int J client")
    case True
    then obtain i where "asInt J client = Some i" using assms(1) by (auto simp: jsoncpp_laws_def)
    with assms n show ?thesis by (simp add: JsonParser_parse_def)
  next
    case False
    with assms n show ?thesis by (simp add: JsonParser_parse_def)
  qed
qed

lemma JsonParser_parse_type:
  "JsonParser_parse J out data = Inr (True, m) \<Longrightarrow>
   msg_type m = (if 0 \<le> sint (msg_id m) then CLOSE else CLOSE_ALL)"
  by (cases out) (auto simp: JsonParser_parse_def split: option.splits if_splits)

subsection \<open>ControlChannel\<close>

text \<open>
  What the channel asks of the AMQP connection, in order, and the control messages it hands to its
  callback. The handlers that \<open>start\<close> installs are flags of the state: the one for a declared queue
  subscribes to the queue, the one for a delivery acknowledges it first and parses it then.
\<close>

datatype cc_output =
    Declare_queue string
  | Consume string
  | Ack u64
  | Close_connection
  | Control control_message

record control_channel =
  cc_queue :: string
  cc_ctlCb :: bool
  cc_on_error :: bool
  cc_on_declared :: bool
  cc_on_received :: bool

datatype cc_event =
    Channel_error
  | Queue_declared
  | Delivery u64 "byte list"

definition new_ControlChannel :: "string \<Rightarrow> control_channel" where
  "new_ControlChannel queue =
     \<lparr>cc_queue = queue, cc_ctlCb = False, cc_on_error = False, cc_on_declared = False,
      cc_on_received = False\<rparr>"

definition setCtlMsgCallback :: "control_channel \<Rightarrow> control_channel" where
  "setCtlMsgCallback cc = cc\<lparr>cc_ctlCb := True\<rparr>"

definition cc_start :: "control_channel \<Rightarrow> bool \<times> control_channel \<times> cc_output list" where
  "cc_start cc =
     (True, cc\<lparr>cc_on_error := True, cc_on_declared := True\<rparr>, [Declare_queue (cc_queue cc)])"

definition cc_stop :: "control_channel \<Rightarrow> bool \<times> cc_output list" where
  "cc_stop cc = (True, [Close_connection])"

text \<open>The handler of a delivery: its outputs, and the fault that ended it if there was one.\<close>

definition cc_received ::
  "'v jsoncpp \<Rightarrow> control_message \<Rightarrow> control_channel \<Rightarrow> u64 \<Rightarrow> byte list \<Rightarrow> cc_output list \<times> fault option" where
  "cc_received J indet cc dt body =
     (case JsonParser_parse J indet body of
        Inl f \<Rightarrow> ([Ack dt], Some f)
      | Inr (ok, cmsg) \<Rightarrow>
          (Ack dt # (if ok \<and> cc_ctlCb cc then [Control cmsg] else []), None))"

fun cc_step ::
  "'v jsoncpp \<Rightarrow> control_message \<Rightarrow> control_channel \<Rightarrow> cc_event \<Rightarrow>
   control_channel \<times> cc_output list \<times> fault option" where
  "cc_step J indet cc Channel_error =
     (cc, if cc_on_error cc then [Close_connection] else [], None)"
| "cc_step J indet cc Queue_declared =
     (if cc_on_declared cc then (cc\<lparr>cc_on_received := True\<rparr>, [Consume (cc_queue cc)], None)
      else (cc, [], None))"
| "cc_step J indet cc (Delivery dt body) =
     (if cc_on_received cc then (case cc_received J indet cc dt body of (out, f) \<Rightarrow> (cc, out, f))
      else (cc, [], None))"

text \<open>A run of the channel: everything it put out, up to the first fault.\<close>

fun cc_run ::
  "'v jsoncpp \<Rightarrow> control_message \<Rightarrow> control_channel \<Rightarrow> cc_event list \<Rightarrow> cc_output list \<times> fault option" where
  "cc_run J indet cc [] = ([], None)"
| "cc_run J indet cc (e # es) =
     (case cc_step J indet cc e of
        (cc', out, Some f) \<Rightarrow> (out, Some f)
      | (cc', out, None) \<Rightarrow>
          (case cc_run J indet cc' es of (out', r) \<Rightarrow> (out @ out', r)))"

fun acks :: "cc_output list \<Rightarrow> u64 list" where
  "acks [] = []"
| "acks (Ack dt # os) = dt # acks os"
| "acks (_ # os) = acks os"

fun controls :: "cc_output list \<Rightarrow> control_message list" where
  "controls [] = []"
| "controls (Control m # os) = m # controls os"
| "controls (_ # os) = controls os"

fun delivered :: "cc_event list \<Rightarrow> (u64 \<times> byte list) list" where
  "delivered [] = []"
| "delivered (Delivery dt body # es) = (dt, body) # delivered es"
| "delivered (_ # es) = delivered es"

text \<open>The message a body carries, when it carries one.\<close>

definition message_of :: "'v jsoncpp \<Rightarrow> control_message \<Rightarrow> byte list \<Rightarrow> control_message option" where
  "message_of J indet body =
     (case JsonParser_parse J indet body of
        Inr (True, m) \<Rightarrow> Some m
      | _ \<Rightarrow> None)"

lemma acks_append [simp]: "acks (xs @ ys) = acks xs @ acks ys"
  by (induction xs rule: acks.induct) auto

lemma controls_append [simp]: "controls (xs @ ys) = controls xs @ controls ys"
  by (induction xs rule: controls.induct) auto

lemma cc_received_acks: "acks (fst (cc_received J indet cc dt body)) = [dt]"
  by (auto simp: cc_received_def split: sum.splits)

lemma cc_received_ok:
  assumes "cc_received J indet cc dt body = (out, None)" and "cc_ctlCb cc"
  shows "controls out = (case message_of J indet body of None \<Rightarrow> [] | Some m \<Rightarrow> [m])"
  using assms by (auto simp: cc_received_def message_of_def split: sum.splits prod.splits if_splits)

lemma cc_run_received:
  assumes "cc_on_received cc" and "cc_ctlCb cc" and "cc_run J indet cc es = (out, None)"
  shows "acks out = map fst (delivered es) \<and>
    controls out = List.map_filter (\<lambda>(dt, body). message_of J indet body) (delivered es)"
  using assms
proof (induction es arbitrary: cc out)
  case Nil
  then show ?case by (simp add: List.map_filter_def)
next
  case (Cons e es)
  show ?case
  proof (cases e)
    case (Delivery dt body)
    obtain o1 where o1: "cc_received J indet cc dt body = (o1, None)"
      using Cons.prems Delivery by (auto split: prod.splits option.splits)
    obtain o2 where o2: "cc_run J indet cc es = (o2, None)" "out = o1 @ o2"
      using Cons.prems Delivery o1 by (auto split: prod.splits)
    have "acks o1 = [dt]" using cc_received_acks [of J indet cc dt body] o1 by simp
    then show ?thesis
      using Cons.IH [OF Cons.prems(1,2) o2(1)] o2(2) Delivery cc_received_ok [OF o1 Cons.prems(2)]
      by (auto simp: List.map_filter_def split: option.splits)
  next
    case Channel_error
    then obtain o2 where "cc_run J indet cc es = (o2, None)" "acks out = acks o2" "controls out = controls o2"
      using Cons.prems by (auto split: prod.splits)
    then show ?thesis using Cons.IH [OF Cons.prems(1,2)] Channel_error by simp
  next
    case Queue_declared
    let ?cc = "cc\<lparr>cc_on_received := True\<rparr>"
    obtain o2 where "cc_run J indet (if cc_on_declared cc then ?cc else cc) es = (o2, None)"
        "acks out = acks o2" "controls out = controls o2"
      using Cons.prems Queue_declared by (auto split: prod.splits if_splits)
    then show ?thesis
      using Cons.IH [of "if cc_on_declared cc then ?cc else cc" o2] Cons.prems Queue_declared by simp
  qed
qed

subsection \<open>Properties\<close>

text \<open>
  C24. The meaning of a control message: when the parser accepts a body, the id it stores is the
  int of the \<open>client_id\<close> member of a JSON value whose \<open>job\<close> is \<open>close_sockets\<close>, and the message is
  CLOSE exactly when this id is not negative and CLOSE_ALL otherwise; when it does not accept the
  body, the output message keeps what it held.
\<close>

theorem parse_control_message:
  assumes "JsonParser_parse J out data = Inr (ok, msg)"
  shows "if ok then
      (\<exists>root client job.
         parseFromStream J data = Some root \<and> json_index J root ''client_id'' = Some client \<and>
         json_index J root ''job'' = Some job \<and> asString J job = Some ''close_sockets'' \<and>
         asInt J client = Some (msg_id msg)) \<and>
      (msg_type msg = CLOSE \<longleftrightarrow> 0 \<le> sint (msg_id msg)) \<and>
      (msg_type msg = CLOSE_ALL \<longleftrightarrow> sint (msg_id msg) < 0)
    else msg = out"
  using assms JsonParser_parse_type [of J out data msg]
  by (cases ok) (auto simp: JsonParser_parse_def CLOSE_def CLOSE_ALL_def split: option.splits if_splits)

text \<open>A small JSON to instantiate the parameter with: bodies are looked up in a table of values.\<close>

datatype json = JNull | JInt c_int | JStr string | JArr "json list" | JObj "(string \<times> json) list"

definition table_json :: "(byte list \<times> json) list \<Rightarrow> json jsoncpp" where
  "table_json t =
     \<lparr>parseFromStream = (\<lambda>b. map_of t b),
      json_index = (\<lambda>v k.
        case v of JObj ms \<Rightarrow> Some (case map_of ms k of None \<Rightarrow> JNull | Some w \<Rightarrow> w)
        | JNull \<Rightarrow> Some JNull | _ \<Rightarrow> None),
      json_empty = (\<lambda>v. v = JNull \<or> v = JArr [] \<or> v = JObj []),
      isConvertibleTo_int = (\<lambda>v. case v of JInt i \<Rightarrow> True | JNull \<Rightarrow> True | _ \<Rightarrow> False),
      asString = (\<lambda>v. case v of JStr s \<Rightarrow> Some s | JNull \<Rightarrow> Some [] | JInt i \<Rightarrow> Some (show_int (sint i)) | _ \<Rightarrow> None),
      asInt = (\<lambda>v. case v of JInt i \<Rightarrow> Some i | JNull \<Rightarrow> Some 0 | _ \<Rightarrow> None)\<rparr>"

definition example_json :: "json jsoncpp" where
  "example_json = table_json
     [([1], JObj [(''client_id'', JInt 5), (''job'', JStr ''close_sockets'')]),
      ([2], JObj [(''client_id'', JInt (-1)), (''job'', JStr ''close_sockets'')]),
      ([3], JObj [(''client_id'', JInt 5), (''job'', JStr ''other'')]),
      ([4], JArr [JInt 1])]"

lemma example_json_laws: "jsoncpp_laws example_json"
  by (simp add: jsoncpp_laws_def example_json_def table_json_def split: json.split)

definition no_message :: control_message where
  "no_message = \<lparr>msg_type = 0, msg_id = 0\<rparr>"

theorem parse_control_message_witness:
  "JsonParser_parse example_json no_message [2] = Inr (True, \<lparr>msg_type = CLOSE_ALL, msg_id = -1\<rparr>) \<and>
   sint (msg_id \<lparr>msg_type = CLOSE_ALL, msg_id = -1\<rparr>) < 0"
proof -
  have r: "JsonParser_parse example_json no_message [2] = Inr (True, \<lparr>msg_type = CLOSE_ALL, msg_id = -1\<rparr>)"
    by code_simp
  show ?thesis using parse_control_message [OF r] r by simp
qed

text \<open>
  C23. Every delivery is acknowledged exactly once and before it is looked at: in a run that ends
  without an exception the acknowledged tags are those of the deliveries, in order, whether or not
  their bodies could be parsed, and the control callback got exactly the messages of the bodies
  that could, in order.
\<close>

theorem deliveries_acked_and_dispatched:
  assumes "cc_run J indet (fst (snd (cc_start (setCtlMsgCallback (new_ControlChannel q)))))
      (Queue_declared # es) = (out, None)"
  shows "acks out = map fst (delivered es) \<and>
    controls out = List.map_filter (\<lambda>(dt, body). message_of J indet body) (delivered es)"
proof -
  let ?cc = "(fst (snd (cc_start (setCtlMsgCallback (new_ControlChannel q)))))\<lparr>cc_on_received := True\<rparr>"
  obtain o2 where "cc_run J indet ?cc es = (o2, None)" "out = Consume q # o2"
    using assms
    by (auto simp: cc_start_def setCtlMsgCallback_def new_ControlChannel_def split: prod.splits)
  then show ?thesis
    using cc_run_received [of ?cc J indet es o2]
    by (simp add: cc_start_def setCtlMsgCallback_def new_ControlChannel_def)
qed

theorem deliveries_acked_and_dispatched_witness:
  "acks (fst (cc_run example_json no_message
      (fst (snd (cc_start (setCtlMsgCallback (new_ControlChannel ''q'')))))
      [Queue_declared, Delivery 7 [9], Delivery 8 [1]])) = [7, 8]"
proof -
  have r: "cc_run example_json no_message
      (fst (snd (cc_start (setCtlMsgCallback (new_ControlChannel ''q'')))))
      [Queue_declared, Delivery 7 [9], Delivery 8 [1]] =
      ([Consume ''q'', Ack 7, Ack 8, Control \<lparr>msg_type = CLOSE, msg_id = 5\<rparr>], None)"
    by code_simp
  show ?thesis using deliveries_acked_and_dispatched [OF r] r by simp
qed

text \<open>
  C28. A body that jsoncpp parses but that is neither an object nor null (an array, a number, a
  string) makes the parser index a value that has no members: the exception leaves the handler,
  after the acknowledgement, so the message is gone and the process is ended.
\<close>

theorem non_object_body_is_fatal:
  assumes "cc_on_received cc" and "parseFromStream J body = Some root"
    and "json_index J root ''client_id'' = None"
  shows "cc_step J indet cc (Delivery dt body) = (cc, [Ack dt], Some Json_logic_error)"
  using assms by (simp add: cc_received_def JsonParser_parse_def)

theorem non_object_body_is_fatal_witness:
  "cc_step example_json no_message ((new_ControlChannel ''q'')\<lparr>cc_on_received := True\<rparr>) (Delivery 3 [4]) =
     ((new_ControlChannel ''q'')\<lparr>cc_on_received := True\<rparr>, [Ack 3], Some Json_logic_error)"
proof -
  have "parseFromStream example_json [4] = Some (JArr [JInt 1])"
    by code_simp
  moreover have "json_index example_json (JArr [JInt 1]) ''client_id'' = None"
    by code_simp
  ultimately show ?thesis by (intro non_object_body_is_fatal) simp_all
qed

end
