(* ===== verification/Server.thy ===== *)
theory Server
  imports Control_Channel
begin

section \<open>Server: the listening socket\<close>

text \<open>
  \<open>server.cpp/.h\<close>: the listener of the proxy. The constructors do not initialise \<open>_listener\<close>, so the
  pointer has three kinds of values; reading it before \<open>init\<close> is a fault. Libevent's
  \<open>evconnlistener_new_bind\<close> is the argument of \<open>Server_init\<close>: whether it returned a listener.
\<close>

datatype listener_ptr = Uninit_listener | Null_listener | Listener

record server =
  sv_internalEvents :: bool
  sv_listener :: listener_ptr
  sv_base :: bool
  sv_port :: u16
  sv_onError :: bool
  sv_onClient :: bool

datatype server_call =
    Listener_new_bind u16
  | Listener_set_error_cb
  | Listener_free
  | Base_dispatch
  | Base_loopbreak
  | Call_onError
  | Call_onClient

text \<open>\<open>base_ok\<close> tells whether \<open>event_base_new\<close> gave a base.\<close>

definition new_Server :: "bool \<Rightarrow> u16 \<Rightarrow> server" where
  "new_Server base_ok prt =
     \<lparr>sv_internalEvents = True, sv_listener = Uninit_listener, sv_base = base_ok, sv_port = prt,
      sv_onError = False, sv_onClient = False\<rparr>"

definition new_Server_on :: "u16 \<Rightarrow> bool \<Rightarrow> server" where
  "new_Server_on prt base =
     \<lparr>sv_internalEvents = False, sv_listener = Uninit_listener, sv_base = base, sv_port = prt,
      sv_onError = False, sv_onClient = False\<rparr>"

definition setOnError :: "server \<Rightarrow> server" where
  "setOnError s = s\<lparr>sv_onError := True\<rparr>"

definition setOnClientConnect :: "server \<Rightarrow> server" where
  "setOnClientConnect s = s\<lparr>sv_onClient := True\<rparr>"

definition Server_init :: "bool \<Rightarrow> server \<Rightarrow> bool \<times> server \<times> server_call list" where
  "Server_init bind_ok s =
     (let s' = s\<lparr>sv_listener := (if bind_ok then Listener else Null_listener)\<rparr>
      in if sv_listener s' = Null_listener then (False, s', [Listener_new_bind (sv_port s)])
         else (True, s', [Listener_new_bind (sv_port s), Listener_set_error_cb]))"

definition isListening :: "server \<Rightarrow> fault + bool" where
  "isListening s =
     (case sv_listener s of
        Uninit_listener \<Rightarrow> Inl Uninitialised
      | Null_listener \<Rightarrow> Inr False
      | Listener \<Rightarrow> Inr True)"

definition Server_run :: "server \<Rightarrow> fault + bool \<times> server_call list" where
  "Server_run s =
     (if \<not> sv_internalEvents s \<or> \<not> sv_base s then Inr (False, [])
      else
        case isListening s of
          Inl f \<Rightarrow> Inl f
        | Inr l \<Rightarrow> Inr (if l then (True, [Base_dispatch]) else (False, [])))"

definition Server_stop :: "server \<Rightarrow> server_call list" where
  "Server_stop s = (if sv_internalEvents s then [Base_loopbreak] else [])"

definition Server_destroy :: "server \<Rightarrow> fault + server_call list" where
  "Server_destroy s =
     (case isListening s of
        Inl f \<Rightarrow> Inl f
      | Inr l \<Rightarrow> Inr (if l then [Listener_free] else []))"

definition onAcceptConnection :: "server \<Rightarrow> server_call list" where
  "onAcceptConnection s = (if sv_onClient s then [Call_onClient] else [])"

definition acceptCbProxy :: "server \<Rightarrow> server_call list" where
  "acceptCbProxy s = onAcceptConnection s"

definition errorCbProxy :: "server \<Rightarrow> server_call list" where
  "errorCbProxy s = (if sv_onError s then [Call_onError] else [])"

lemma isListening_init:
  "isListening (fst (snd (Server_init b s))) = Inr b"
  by (simp add: Server_init_def isListening_def Let_def)

lemma new_Server_uninit:
  "isListening (new_Server b prt) = Inl Uninitialised"
  "isListening (new_Server_on prt b) = Inl Uninitialised"
  by (simp_all add: isListening_def new_Server_def new_Server_on_def)

subsection \<open>main\<close>

text \<open>
  \<open>main.cpp\<close> up to the event loop, over an environment: does \<open>event_base_new\<close> give a base, the
  results of \<open>getopt\<close>, the content of the files that can be opened, the uninitialised port slots of
  \<open>Config::read\<close>, and does the bind succeed. The result is a fault, the exit code, or what the
  program starts its event loop with.
\<close>

datatype appender = Console | Syslog | File string

record main_env =
  env_base_ok :: bool
  env_options :: "getopt_result list"
  env_files :: "string \<Rightarrow> string option"
  env_indet :: "nat \<Rightarrow> u16"
  env_bind_ok :: bool

record main_state =
  ms_cfg :: config
  ms_priority :: priority
  ms_appenders :: "appender list"
  ms_server :: server
  ms_channel :: control_channel
  ms_pm :: proxy_manager

datatype main_result = Exit int | Ready main_state

definition ifstream :: "string option \<Rightarrow> istream" where
  "ifstream content =
     (case content of
        Some s \<Rightarrow> istream_of s
      | None \<Rightarrow> (istream_of [])\<lparr>failbit := True\<rparr>)"

definition appenders :: "config \<Rightarrow> appender list" where
  "appenders cfg =
     (if logToConsole cfg then [Console] else []) @
     (if logToSyslog cfg then [Syslog] else []) @
     (if logFilename cfg \<noteq> [] then [File (logFilename cfg)] else [])"

definition main_setup :: "main_env \<Rightarrow> fault + main_result" where
  "main_setup env =
     (if \<not> env_base_ok env then Inr (Exit (-1))
      else
        case parseCmdLine (env_options env) new_Config of
          (False, cfg) \<Rightarrow> Inr (Exit (-1))
        | (True, cfg) \<Rightarrow>
            (case toPriority (Config_verbosity cfg) of
               None \<Rightarrow> Inl Out_of_bounds
             | Some prio \<Rightarrow>
                 (case read (env_indet env) (ifstream (env_files env (cfgFilename cfg))) cfg of
                    (False, cfg') \<Rightarrow> Inr (Exit (-3))
                  | (True, cfg') \<Rightarrow>
                      (case Server_init (env_bind_ok env)
                              (setOnError (new_Server_on (Config_port cfg') True)) of
                         (False, s, calls) \<Rightarrow> Inr (Exit (-4))
                       | (True, s, calls) \<Rightarrow>
                           Inr (Ready
                             \<lparr>ms_cfg = cfg', ms_priority = prio, ms_appenders = appenders cfg',
                              ms_server = setOnClientConnect s,
                              ms_channel =
                                fst (snd (cc_start (setCtlMsgCallback
                                  (new_ControlChannel (getRMQQueueName cfg'))))),
                              ms_pm = new_ProxyManager new_ConnectionManager\<rparr>)))))"

text \<open>
  The end of \<open>main\<close>: a last CLOSE_ALL, the control channel, the event base, and then the destructors
  of the locals in reverse order of their construction. The listener is freed after its base.
\<close>

datatype shutdown_call = Drop_all_clients | Close_channel | Free_base | Server_call server_call

definition main_shutdown :: "main_state \<Rightarrow> fault + int \<times> proxy_manager \<times> shutdown_call list" where
  "main_shutdown ms =
     (case Server_destroy (ms_server ms) of
        Inl f \<Rightarrow> Inl f
      | Inr calls \<Rightarrow>
          Inr (0, PM_dropAll (onControlMessage \<lparr>msg_type = CLOSE_ALL, msg_id = 0\<rparr> (ms_pm ms)),
            [Drop_all_clients, Close_channel, Free_base, Close_channel, Drop_all_clients] @
            map Server_call calls))"

text \<open>The signal handler: it clears the global \<open>run\<close>, and breaks the loop when there is a base.\<close>

definition sig_handler :: "bool \<Rightarrow> bool \<times> server_call list" where
  "sig_handler base = (False, if base then [Base_loopbreak] else [])"

subsection \<open>Properties\<close>

text \<open>
  The lifetime of the listener: after \<open>init\<close>, with either result, running, asking and
  destroying the server are defined, and the listener is freed exactly when there is one; a server
  that was never initialised reads its uninitialised pointer when it is destroyed.
\<close>

theorem server_listener_lifetime:
  "Server_destroy (fst (snd (Server_init b s))) = Inr (if b then [Listener_free] else []) \<and>
   Server_run (fst (snd (Server_init b s))) \<noteq> Inl f \<and>
   Server_destroy (new_Server_on prt base) = Inl Uninitialised \<and>
   Server_run (new_Server True prt) = Inl Uninitialised"
  using isListening_init [of b s] new_Server_uninit
  by (simp add: Server_destroy_def Server_run_def new_Server_def)


text \<open>
  The shutdown after a started run: every client is dropped and every record is gone, the
  program returns 0, and the listener is freed exactly once, after the event base it belongs to.
\<close>

theorem main_shutdown_order:
  assumes "main_setup env = Inr (Ready ms)"
  shows "\<exists>pm. main_shutdown (ms\<lparr>ms_pm := pm0\<rparr>) = Inr (0, pm,
      [Drop_all_clients, Close_channel, Free_base, Close_channel, Drop_all_clients, Server_call Listener_free]) \<and>
    cm_processors (pm_cm pm) = Map.empty \<and> pm_idToConn pm = []"
proof -
  have "sv_listener (ms_server ms) = Listener"
    using assms
    by (auto simp: main_setup_def Server_init_def setOnClientConnect_def setOnError_def
        new_Server_on_def Let_def split: if_splits prod.splits bool.splits option.splits)
  then show ?thesis
    by (simp add: main_shutdown_def Server_destroy_def isListening_def onControlMessage_def
        CLOSE_def CLOSE_ALL_def PM_dropAll_def CM_dropAll_def)
qed

definition example_env :: main_env where
  "example_env =
     \<lparr>env_base_ok = True, env_options = [(CHR ''p'', Some ''8080'')],
      env_files = (\<lambda>f. if f = ''config.cfg'' then Some ''1 n1 80'' else None),
      env_indet = (\<lambda>_. 0), env_bind_ok = True\<rparr>"

definition ready_state :: "fault + main_result \<Rightarrow> main_state option" where
  "ready_state r = (case r of Inr (Ready ms) \<Rightarrow> Some ms | _ \<Rightarrow> None)"

lemma ready_state_iff: "ready_state r = Some ms \<longleftrightarrow> r = Inr (Ready ms)"
  by (auto simp: ready_state_def split: sum.splits main_result.splits)

lemma example_env_ready: "ready_state (main_setup example_env) \<noteq> None"
proof -
  have "\<not> Option.is_none (ready_state (main_setup example_env))" by code_simp
  then show ?thesis by (simp add: Option.is_none_def)
qed

theorem main_shutdown_order_witness:
  "\<exists>ms pm. main_setup example_env = Inr (Ready ms) \<and>
     main_shutdown (ms\<lparr>ms_pm := new_ProxyManager new_ConnectionManager\<rparr>) = Inr (0, pm,
      [Drop_all_clients, Close_channel, Free_base, Close_channel, Drop_all_clients, Server_call Listener_free])"
proof -
  obtain ms where "ready_state (main_setup example_env) = Some ms" using example_env_ready by blast
  then have m: "main_setup example_env = Inr (Ready ms)" by (simp add: ready_state_iff)
  show ?thesis
    using main_shutdown_order [OF m, of "new_ProxyManager new_ConnectionManager"] m by blast
qed

end
