(* ===== verification/Proxy_System.thy ===== *)
theory Proxy_System
  imports Server
begin

section \<open>The running program: server, manager, proxies and control channel together\<close>

text \<open>
  What \<open>main\<close> wires together once the event loop runs: every accepted client becomes a managed
  proxy, every event of a bufferevent goes to the object that owns it, the callbacks of a proxy go
  to the proxy manager, and a delivery on the control channel goes through the controller to the
  proxy manager. The loop is single-threaded, so one event is one step. The objects are named by
  addresses that are never used twice (the weak pointers of the registry keep the memory of the
  objects they name from being reused).
\<close>

record sys =
  sy_pm :: proxy_manager
  sy_cc :: control_channel
  sy_next :: addr

datatype sys_event =
    Accept "byte list" string u16
  | On_proxy addr proxy_input
  | On_channel cc_event

definition live :: "sys \<Rightarrow> addr \<Rightarrow> proxy option" where
  "live s = cm_processors (pm_cm (sy_pm s))"

definition registry :: "sys \<Rightarrow> (c_int \<times> addr) list" where
  "registry s = pm_idToConn (sy_pm s)"

definition running :: "sys \<Rightarrow> bool" where
  "running s = cm_running (pm_cm (sy_pm s))"

text \<open>The callbacks that the proxy manager installed in the proxy at an address.\<close>

definition apply_effect :: "addr \<Rightarrow> proxy_effect \<Rightarrow> proxy_manager \<Rightarrow> proxy_manager" where
  "apply_effect a eff pm =
     (case eff of Id_received i \<Rightarrow> onIdRecv i a pm | Closed \<Rightarrow> PM_dropConnection a pm)"

definition store_proxy :: "addr \<Rightarrow> proxy \<Rightarrow> proxy_manager \<Rightarrow> proxy_manager" where
  "store_proxy a p pm =
     pm\<lparr>pm_cm := (pm_cm pm)\<lparr>cm_processors := (cm_processors (pm_cm pm))(a \<mapsto> p)\<rparr>\<rparr>"

fun sys_step ::
  "'v jsoncpp \<Rightarrow> config \<Rightarrow> control_message \<Rightarrow> sys \<Rightarrow> sys_event \<Rightarrow> fault + sys" where
  "sys_step J cfg indet s (Accept junk ip prt) =
     Inr (s\<lparr>sy_pm := addProxy (sy_next s) (new_Proxy junk ip prt) (sy_pm s), sy_next := Suc (sy_next s)\<rparr>)"
| "sys_step J cfg indet s (On_proxy a x) =
     (case live s a of
        None \<Rightarrow> Inl Null_pointer
      | Some p \<Rightarrow>
          (case px_step cfg p x of
             Inl f \<Rightarrow> Inl f
           | Inr (p', effs) \<Rightarrow>
               Inr (s\<lparr>sy_pm := fold (apply_effect a) effs (store_proxy a p' (sy_pm s))\<rparr>)))"
| "sys_step J cfg indet s (On_channel e) =
     (case cc_step J indet (sy_cc s) e of
        (cc, out, Some f) \<Rightarrow> Inl f
      | (cc, out, None) \<Rightarrow>
          Inr (s\<lparr>sy_cc := cc, sy_pm := fold onControlMessage (controls out) (sy_pm s)\<rparr>))"

text \<open>
  Events the environment may deliver: libevent's promises for the proxies, and control bodies that
  jsoncpp does not throw on (see \<open>JsonParser_parse_total\<close>).
\<close>

fun sys_adm :: "'v jsoncpp \<Rightarrow> control_message \<Rightarrow> sys \<Rightarrow> sys_event \<Rightarrow> bool" where
  "sys_adm J indet s (Accept junk ip prt) = True"
| "sys_adm J indet s (On_proxy a x) = (case live s a of None \<Rightarrow> False | Some p \<Rightarrow> px_adm p x)"
| "sys_adm J indet s (On_channel e) = (snd (snd (cc_step J indet (sy_cc s) e)) = None)"

text \<open>The state in which \<open>main\<close> enters the event loop.\<close>

definition sys_start :: "string \<Rightarrow> sys" where
  "sys_start queue =
     \<lparr>sy_pm = new_ProxyManager new_ConnectionManager,
      sy_cc = fst (snd (cc_start (setCtlMsgCallback (new_ControlChannel queue)))),
      sy_next = 0\<rparr>"

inductive sys_reach :: "'v jsoncpp \<Rightarrow> config \<Rightarrow> control_message \<Rightarrow> string \<Rightarrow> sys \<Rightarrow> bool"
  for J cfg indet queue where
  reach_start: "sys_reach J cfg indet queue (sys_start queue)"
| reach_step: "sys_reach J cfg indet queue s \<Longrightarrow> sys_adm J indet s e \<Longrightarrow>
    sys_step J cfg indet s e = Inr s' \<Longrightarrow> sys_reach J cfg indet queue s'"

inductive_simps sys_reach_simps: "sys_reach J cfg indet queue s"

fun_cases sys_step_AcceptE: "sys_step J cfg indet s (Accept junk ip prt) = Inr s'"
  and sys_step_On_proxyE: "sys_step J cfg indet s (On_proxy a x) = Inr s'"
  and sys_step_On_channelE: "sys_step J cfg indet s (On_channel e) = Inr s'"

lemma reach_steps:
  "sys_reach J cfg indet queue s \<Longrightarrow> admissible_run (sys_adm J indet) (sys_step J cfg indet) s es \<Longrightarrow>
   run_steps (sys_step J cfg indet) s es = Inr s' \<Longrightarrow> sys_reach J cfg indet queue s'"
proof (induction es arbitrary: s)
  case Nil
  then show ?case by simp
next
  case (Cons e es)
  then obtain s1 where "sys_step J cfg indet s e = Inr s1" by (auto split: sum.splits)
  with Cons show ?case by (auto intro: reach_step)
qed

subsection \<open>The invariant\<close>

definition entry_ok :: "(addr \<Rightarrow> proxy option) \<Rightarrow> addr \<Rightarrow> c_int \<times> addr \<Rightarrow> bool" where
  "entry_ok liv n e \<longleftrightarrow>
     snd e < n \<and>
     (case liv (snd e) of
        None \<Rightarrow> sint (fst e) < 0
      | Some p \<Rightarrow> px_id p = fst e \<and> px_state p \<noteq> BEGIN)"

definition pm_inv :: "config \<Rightarrow> addr \<Rightarrow> proxy_manager \<Rightarrow> bool" where
  "pm_inv cfg n pm \<longleftrightarrow>
     (cm_running (pm_cm pm) \<or> cm_processors (pm_cm pm) = Map.empty \<and> pm_idToConn pm = []) \<and>
     (\<forall>a p. cm_processors (pm_cm pm) a = Some p \<longrightarrow> px_inv cfg p \<and> cp_bev p \<and> a < n) \<and>
     (\<forall>e \<in> set (pm_idToConn pm). entry_ok (cm_processors (pm_cm pm)) n e) \<and>
     distinct (map snd (pm_idToConn pm))"

definition sys_inv :: "config \<Rightarrow> sys \<Rightarrow> bool" where
  "sys_inv cfg s \<longleftrightarrow> pm_inv cfg (sy_next s) (sy_pm s)"

lemma pm_inv_ok: "pm_inv cfg n pm \<Longrightarrow> cm_ok (pm_cm pm)"
  by (auto simp: pm_inv_def cm_ok_def)

lemma pm_inv_start: "pm_inv cfg n (new_ProxyManager new_ConnectionManager)"
  by (simp add: pm_inv_def new_ProxyManager_def new_ConnectionManager_def)

lemma pm_inv_addProxy:
  assumes "pm_inv cfg n pm"
  shows "pm_inv cfg (Suc n) (addProxy n (new_Proxy junk ip prt) pm)"
proof -
  have inv: "px_inv cfg (setIdRcvClb (setOnCloseCb (new_Proxy junk ip prt)))"
    using px_inv_managed [of cfg junk ip prt] by (simp add: managed_Proxy_def)
  have bev: "cp_bev (setIdRcvClb (setOnCloseCb (new_Proxy junk ip prt)))"
    by (simp add: setIdRcvClb_def setOnCloseCb_def new_Proxy_def new_incoming_def connection_processor.defs)
  show ?thesis
    using assms inv bev
    by (fastforce simp: pm_inv_def addProxy_def addConnection_def entry_ok_def split: if_splits)
qed

lemma pm_inv_dropAll: "pm_inv cfg n (PM_dropAll pm)"
  by (simp add: pm_inv_def PM_dropAll_def CM_dropAll_def)

lemma pm_inv_dropById:
  assumes "pm_inv cfg n pm"
  shows "pm_inv cfg n (dropById i pm)"
proof -
  note ok = pm_inv_ok [OF assms]
  have l: "cm_processors (pm_cm (dropById i pm)) a =
      (if (i, a) \<in> set (pm_idToConn pm) then None else cm_processors (pm_cm pm) a)" for a
    by (rule dropById_processors [OF ok])
  have uniq: "j = i" if "(j, a) \<in> set (pm_idToConn pm)" "(i, a) \<in> set (pm_idToConn pm)" for j a
  proof -
    have "inj_on snd (set (pm_idToConn pm))" using assms by (simp add: pm_inv_def distinct_map)
    from inj_onD [OF this _ that] show ?thesis by simp
  qed
  have "entry_ok (cm_processors (pm_cm (dropById i pm))) n (j, a)"
    if "(j, a) \<in> set (pm_idToConn (dropById i pm))" for j a
  proof -
    have e: "(j, a) \<in> set (pm_idToConn pm)" "j \<noteq> i" using that by (auto simp: dropById_idToConn)
    then have "(i, a) \<notin> set (pm_idToConn pm)" using uniq by blast
    with assms e show ?thesis by (auto simp: pm_inv_def entry_ok_def l)
  qed
  moreover have "distinct (map snd (pm_idToConn (dropById i pm)))"
    using assms by (simp add: pm_inv_def dropById_idToConn_eq distinct_erase_id)
  moreover have "cm_running (pm_cm (dropById i pm)) \<or>
      cm_processors (pm_cm (dropById i pm)) = Map.empty \<and> pm_idToConn (dropById i pm) = []"
    using assms by (auto simp: pm_inv_def dropById_running dropById_idToConn_eq erase_id_def l fun_eq_iff)
  ultimately show ?thesis using assms by (auto simp: pm_inv_def l split: if_splits)
qed

lemma pm_inv_onControlMessage: "pm_inv cfg n pm \<Longrightarrow> pm_inv cfg n (onControlMessage m pm)"
  by (simp add: onControlMessage_def pm_inv_dropById pm_inv_dropAll)

lemma pm_inv_controls: "pm_inv cfg n pm \<Longrightarrow> pm_inv cfg n (fold onControlMessage ms pm)"
  by (induction ms arbitrary: pm) (simp_all add: pm_inv_onControlMessage)

text \<open>
  A proxy that is on its way out: everything but the object at \<open>a\<close> is in order, and the records of
  \<open>a\<close> carry the id of the object.
\<close>

lemma pm_inv_close:
  assumes inv: "pm_inv cfg n pm" and a: "cm_processors (pm_cm pm) a = Some p0"
    and m: "pm_idToConn pm1 = pre @ pm_idToConn pm" "pm_cm pm1 = pm_cm (store_proxy a p' pm)"
    and pre: "pre = [] \<and> px_id p' = px_id p0 \<or> pre = [(px_id p', a)] \<and> px_state p0 = BEGIN"
  shows "pm_inv cfg n (PM_dropConnection a pm1)"
proof -
  have ok: "cm_ok (pm_cm pm1)"
    using inv a unfolding m by (auto simp: pm_inv_def cm_ok_def store_proxy_def)
  have run: "cm_running (pm_cm pm)" using inv a by (auto simp: pm_inv_def)
  have l: "cm_processors (pm_cm (PM_dropConnection a pm1)) b =
      (if b = a then None else cm_processors (pm_cm pm) b)" for b
    using PM_dropConnection_processors [OF ok, of a b] by (simp add: m store_proxy_def)
  have idt: "pm_idToConn (PM_dropConnection a pm1) =
      (if 0 \<le> sint (px_id p') then erase_id (px_id p') (pre @ pm_idToConn pm) else pre @ pm_idToConn pm)"
    by (simp add: PM_dropConnection_idToConn m store_proxy_def)
  have ea: "px_id p0 = j \<and> px_state p0 \<noteq> BEGIN" if "(j, a) \<in> set (pm_idToConn pm)" for j
    using inv that a by (fastforce simp: pm_inv_def entry_ok_def)
  have an: "a < n" using inv a by (auto simp: pm_inv_def)
  have "entry_ok (cm_processors (pm_cm (PM_dropConnection a pm1))) n (j, b)"
    if "(j, b) \<in> set (pm_idToConn (PM_dropConnection a pm1))" for j b
  proof (cases "b = a")
    case True
    with that ea pre have "sint j < 0"
      by (auto simp: idt split: if_splits)
    with True an show ?thesis by (simp add: entry_ok_def l)
  next
    case False
    with that pre have "(j, b) \<in> set (pm_idToConn pm)" by (auto simp: idt split: if_splits)
    with inv False show ?thesis by (auto simp: pm_inv_def entry_ok_def l)
  qed
  moreover have "distinct (map snd (pre @ pm_idToConn pm))"
    using inv pre ea by (auto simp: pm_inv_def)
  then have "distinct (map snd (pm_idToConn (PM_dropConnection a pm1)))"
    by (simp add: idt distinct_erase_id del: map_append)
  moreover have "cm_running (pm_cm (PM_dropConnection a pm1))"
    using run by (simp add: PM_dropConnection_running m store_proxy_def)
  ultimately show ?thesis using inv by (auto simp: pm_inv_def l split: if_splits)
qed

lemma pm_inv_alive:
  assumes inv: "pm_inv cfg n pm" and a: "cm_processors (pm_cm pm) a = Some p0"
    and p': "px_inv cfg p'" "cp_bev p'"
    and m: "pm_idToConn pm1 = pre @ pm_idToConn pm" "pm_cm pm1 = pm_cm (store_proxy a p' pm)"
    and pre: "pre = [] \<and> px_id p' = px_id p0 \<and> (px_state p' = BEGIN \<longleftrightarrow> px_state p0 = BEGIN) \<or>
      pre = [(px_id p', a)] \<and> px_state p0 = BEGIN \<and> px_state p' = CONNECTING"
  shows "pm_inv cfg n pm1"
proof -
  have run: "cm_running (pm_cm pm)" using inv a by (auto simp: pm_inv_def)
  have l: "cm_processors (pm_cm pm1) = (cm_processors (pm_cm pm))(a \<mapsto> p')"
    by (simp add: m store_proxy_def)
  have ea: "px_id p0 = j \<and> px_state p0 \<noteq> BEGIN" if "(j, a) \<in> set (pm_idToConn pm)" for j
    using inv that a by (fastforce simp: pm_inv_def entry_ok_def)
  have an: "a < n" using inv a by (auto simp: pm_inv_def)
  have "entry_ok (cm_processors (pm_cm pm1)) n (j, b)"
    if "(j, b) \<in> set (pm_idToConn pm1)" for j b
  proof (cases "b = a")
    case True
    with that ea pre an show ?thesis by (auto simp: m(1) l entry_ok_def)
  next
    case False
    with that pre have "(j, b) \<in> set (pm_idToConn pm)" by (auto simp: m)
    with inv False show ?thesis by (auto simp: pm_inv_def entry_ok_def l)
  qed
  moreover have "distinct (map snd (pm_idToConn pm1))"
    using inv pre ea by (auto simp: pm_inv_def m)
  moreover have "cm_running (pm_cm pm1)" using run by (simp add: m store_proxy_def)
  ultimately show ?thesis using inv p' an by (auto simp: pm_inv_def l split: if_splits)
qed

lemma pm_inv_effects:
  assumes inv: "pm_inv cfg n pm" and a: "cm_processors (pm_cm pm) a = Some p"
    and s: "step_ok cfg p c d p' effs"
  shows "pm_inv cfg n (fold (apply_effect a) effs (store_proxy a p' pm))"
proof -
  have i: "px_inv cfg p'" and e: "step_effects p p' effs" using s by (simp_all add: step_ok_def)
  have m: "pm_idToConn (store_proxy a p' pm) = [] @ pm_idToConn pm"
    by (simp add: store_proxy_def)
  have m': "pm_idToConn (onIdRecv j a (store_proxy a p' pm)) = [(j, a)] @ pm_idToConn pm"
      "pm_cm (onIdRecv j a (store_proxy a p' pm)) = pm_cm (store_proxy a p' pm)" for j
    by (simp_all add: store_proxy_def onIdRecv_def)
  show ?thesis
  proof (cases "cp_bev p'")
    case True
    with e consider "effs = []" "px_id p' = px_id p" "px_state p' = BEGIN \<longleftrightarrow> px_state p = BEGIN"
      | "effs = [Id_received (px_id p')]" "px_state p = BEGIN" "px_state p' = CONNECTING"
      by (auto simp: step_effects_def)
    then show ?thesis
    proof cases
      case 1
      with pm_inv_alive [OF inv a i True m refl] show ?thesis by simp
    next
      case 2
      with pm_inv_alive [OF inv a i True m' [of "px_id p'"]] show ?thesis
        by (simp add: apply_effect_def)
    qed
  next
    case False
    with e consider "effs = [Closed]" "px_id p' = px_id p"
      | "effs = [Id_received (px_id p'), Closed]" "px_state p = BEGIN"
      by (auto simp: step_effects_def)
    then show ?thesis
    proof cases
      case 1
      with pm_inv_close [OF inv a m refl] show ?thesis by (simp add: apply_effect_def)
    next
      case 2
      with pm_inv_close [OF inv a m' [of "px_id p'"]] show ?thesis by (simp add: apply_effect_def)
    qed
  qed
qed

lemma sys_step_safe:
  assumes inv: "sys_inv cfg s" and adm: "sys_adm J indet s e"
  shows "\<exists>s'. sys_step J cfg indet s e = Inr s' \<and> sys_inv cfg s'"
proof (cases e)
  case (Accept junk ip prt)
  with inv show ?thesis by (simp add: sys_inv_def pm_inv_addProxy)
next
  case (On_proxy a x)
  obtain p where p: "live s a = Some p" "px_adm p x"
    using adm On_proxy by (auto split: option.splits)
  obtain L i ev where x: "x = (L, i, ev)" by (cases x)
  have pi: "px_inv cfg p" using inv p by (simp add: sys_inv_def pm_inv_def live_def)
  obtain p' effs where st: "px_step cfg p x = Inr (p', effs)"
    and ok: "step_ok cfg p (event_client ev) (event_server ev) p' effs"
    using px_step_ok [OF pi] p(2) x by metis
  show ?thesis
    using On_proxy p st pm_inv_effects [OF _ _ ok] inv by (simp add: sys_inv_def live_def)
next
  case (On_channel c)
  then obtain cc out where "cc_step J indet (sy_cc s) c = (cc, out, None)"
    using adm by (cases "cc_step J indet (sy_cc s) c") auto
  with On_channel inv show ?thesis by (simp add: sys_inv_def pm_inv_controls)
qed

interpretation sy: guarded_machine "sys_step J cfg indet" "sys_adm J indet" "sys_inv cfg" for J cfg indet
  by unfold_locales (rule sys_step_safe)

lemma sys_inv_start: "sys_inv cfg (sys_start queue)"
  by (simp add: sys_inv_def sys_start_def pm_inv_start)

lemma reach_inv: "sys_reach J cfg indet queue s \<Longrightarrow> sys_inv cfg s"
proof (induction rule: sys_reach.induct)
  case reach_start
  then show ?case by (rule sys_inv_start)
next
  case (reach_step s e s')
  then show ?case using sy.step_safe by fastforce
qed

text \<open>What a step on one client does to the other clients and to the registry.\<close>

lemma effects_processors:
  assumes "cm_ok (pm_cm pm)" and "b \<noteq> a"
  shows "cm_processors (pm_cm (fold (apply_effect a) effs pm)) b = cm_processors (pm_cm pm) b \<and>
    cm_ok (pm_cm (fold (apply_effect a) effs pm))"
  using assms(1)
proof (induction effs arbitrary: pm)
  case Nil
  then show ?case by simp
next
  case (Cons eff effs)
  have "cm_ok (pm_cm (apply_effect a eff pm)) \<and>
      cm_processors (pm_cm (apply_effect a eff pm)) b = cm_processors (pm_cm pm) b"
  proof (cases eff)
    case (Id_received i)
    with Cons.prems show ?thesis by (simp add: apply_effect_def onIdRecv_def)
  next
    case Closed
    have "cm_ok (pm_cm (PM_dropConnection a pm))"
      using cm.ok_drop [OF Cons.prems, of a] by (simp add: PM_dropConnection_def Let_def split: option.split)
    with Closed Cons.prems assms(2) show ?thesis
      by (simp add: apply_effect_def PM_dropConnection_processors)
  qed
  with Cons.IH show ?case by simp
qed

lemma effects_running:
  "cm_running (pm_cm (fold (apply_effect a) effs pm)) = cm_running (pm_cm pm)"
proof (induction effs arbitrary: pm)
  case Nil
  then show ?case by simp
next
  case (Cons eff effs)
  then show ?case
    by (simp add: apply_effect_def onIdRecv_def PM_dropConnection_running split: proxy_effect.split)
qed

lemma controls_running:
  "cm_running (pm_cm (fold onControlMessage ms pm)) \<Longrightarrow> cm_running (pm_cm pm)"
proof (induction ms arbitrary: pm)
  case Nil
  then show ?case by simp
next
  case (Cons m ms)
  then have "cm_running (pm_cm (onControlMessage m pm))" by simp
  then show ?case
    by (auto simp: onControlMessage_def dropById_running PM_dropAll_def CM_dropAll_def split: if_splits)
qed

lemma sys_step_running: "sys_step J cfg indet s e = Inr s' \<Longrightarrow> running s' \<Longrightarrow> running s"
proof (cases e)
  case (On_channel c)
  assume "sys_step J cfg indet s e = Inr s'" "running s'"
  with On_channel show ?thesis
    by (auto simp: running_def split: prod.splits option.splits dest: controls_running)
qed (auto simp: running_def addProxy_def addConnection_def effects_running store_proxy_def
    split: option.splits sum.splits prod.splits if_splits)

subsection \<open>Runs that can be checked by evaluation\<close>

fun sys_lib :: "sys_event \<Rightarrow> bool" where
  "sys_lib (On_proxy a (L, indet, e)) = libevent_laws L"
| "sys_lib _ = True"

fun sys_events_ok :: "'v jsoncpp \<Rightarrow> control_message \<Rightarrow> sys \<Rightarrow> sys_event \<Rightarrow> bool" where
  "sys_events_ok J indet s (Accept junk ip prt) = True"
| "sys_events_ok J indet s (On_proxy a x) =
     (case live s a of None \<Rightarrow> False | Some p \<Rightarrow> px_events_ok p x)"
| "sys_events_ok J indet s (On_channel e) = Option.is_none (snd (snd (cc_step J indet (sy_cc s) e)))"

lemma sys_admI: "sys_lib e \<and> sys_events_ok J indet s e \<Longrightarrow> sys_adm J indet s e"
  by (cases e) (auto simp: px_adm_def Option.is_none_def split: option.splits)

lemma sys_admissibleI:
  "list_all sys_lib es \<Longrightarrow> admissible_run (sys_events_ok J indet) (sys_step J cfg indet) s es \<Longrightarrow>
   admissible_run (sys_adm J indet) (sys_step J cfg indet) s es"
proof (induction es arbitrary: s)
  case Nil
  then show ?case by simp
next
  case (Cons e es)
  then show ?case using sys_admI [of e J indet s] by (auto split: sum.splits)
qed

text \<open>
  Three clients, two of them with id 1; the first one is accepted, routed and disconnected by its
  peer while the second one is waiting for its server.
\<close>

definition eof_event :: bev_events where
  "eof_event = \<lparr>ev_connected = False, ev_eof = True, ev_error = False\<rparr>"

definition system_start :: sys where
  "system_start = sys_start ''proxyCtl''"

definition system_run :: "sys_event list" where
  "system_run =
     [On_channel Queue_declared,
      Accept [] ''c0'' 1,
      Accept [] ''c1'' 2,
      Accept [] ''c2'' 3,
      On_proxy 0 (libevent_ok, 0, Client_data (header 1)),
      On_proxy 1 (libevent_ok, 0, Client_data (header 1))]"

definition after :: "sys_event list \<Rightarrow> sys" where
  "after es =
     (case run_steps (sys_step example_json example_config no_message) system_start es of
        Inr s \<Rightarrow> s | Inl f \<Rightarrow> system_start)"

definition namesake_left :: "sys_event list" where
  "namesake_left = system_run @ [On_proxy 0 (libevent_ok, 0, Client_event eof_event)]"

lemma system_lib: "list_all sys_lib namesake_left" "list_all sys_lib system_run"
  by (simp_all add: namesake_left_def system_run_def libevent_ok_laws)

lemma namesake_left_adm:
  "admissible_run (sys_adm example_json no_message) (sys_step example_json example_config no_message)
     system_start namesake_left"
  by (rule sys_admissibleI [OF system_lib(1)]) code_simp

lemma system_run_adm:
  "admissible_run (sys_adm example_json no_message) (sys_step example_json example_config no_message)
     system_start system_run"
  by (rule sys_admissibleI [OF system_lib(2)]) code_simp

lemma after_reach:
  assumes "admissible_run (sys_adm example_json no_message)
      (sys_step example_json example_config no_message) system_start es"
  shows "run_steps (sys_step example_json example_config no_message) system_start es = Inr (after es)"
    and "sys_reach example_json example_config no_message ''proxyCtl'' (after es)"
proof -
  obtain s where s: "run_steps (sys_step example_json example_config no_message) system_start es = Inr s"
    using sy.run_safe [OF sys_inv_start] assms unfolding system_start_def by blast
  then show r: "run_steps (sys_step example_json example_config no_message) system_start es = Inr (after es)"
    by (simp add: after_def)
  show "sys_reach example_json example_config no_message ''proxyCtl'' (after es)"
    by (rule reach_steps [OF reach_start])
      (use assms r in \<open>simp_all add: system_start_def\<close>)
qed

end
