(* ===== verification/System_Props.thy ===== *)
theory System_Props
  imports Proxy_System
begin

section \<open>What the running program guarantees\<close>

text \<open>
  Properties of all reachable states of the program as \<open>main\<close> wires it: absence of faults, routing,
  isolation of the clients, the meaning of the control messages, and where the registry of ids
  falls short.
\<close>

text \<open>Every client that has been routed is recorded under its id.\<close>

definition tracked :: "sys \<Rightarrow> bool" where
  "tracked s \<longleftrightarrow>
     (\<forall>a p. live s a = Some p \<and> px_state p \<noteq> BEGIN \<longrightarrow> (px_id p, a) \<in> set (registry s))"

lemma reach_pm_inv: "sys_reach J cfg indet q s \<Longrightarrow> pm_inv cfg (sy_next s) (sy_pm s)"
  using reach_inv by (simp add: sys_inv_def)

lemma reach_live:
  assumes "sys_reach J cfg indet q s" and "live s a = Some p"
  shows "px_inv cfg p" and "cp_bev p" and "a < sy_next s"
  using reach_pm_inv [OF assms(1)] assms(2) by (auto simp: pm_inv_def live_def)

lemma reach_registry:
  assumes "sys_reach J cfg indet q s" and "(i, a) \<in> set (registry s)" and "live s a = Some p"
  shows "px_id p = i \<and> px_state p \<noteq> BEGIN"
  using reach_pm_inv [OF assms(1)] assms(2,3) by (fastforce simp: pm_inv_def live_def registry_def entry_ok_def)

lemma close_processors:
  assumes "sys_reach J cfg indet q s" and "msg_type m = CLOSE"
  shows "cm_processors (pm_cm (onControlMessage m (sy_pm s))) a =
    (if (msg_id m, a) \<in> set (registry s) then None else live s a)"
  using dropById_processors [OF pm_inv_ok [OF reach_pm_inv [OF assms(1)]]] assms(2)
  by (simp add: onControlMessage_def registry_def live_def)

text \<open>One step of the controller, and a list of them.\<close>

lemma control_processors_sub:
  assumes "pm_inv cfg n pm" and "cm_processors (pm_cm (onControlMessage m pm)) a = Some p"
  shows "cm_processors (pm_cm pm) a = Some p"
  using assms dropById_processors [OF pm_inv_ok [OF assms(1)], of "msg_id m" a]
  by (auto simp: onControlMessage_def PM_dropAll_def CM_dropAll_def split: if_splits)

lemma control_tracked:
  assumes inv: "pm_inv cfg n pm" and "cm_processors (pm_cm (onControlMessage m pm)) a = Some p"
    and tr: "(px_id p, a) \<in> set (pm_idToConn pm)"
  shows "(px_id p, a) \<in> set (pm_idToConn (onControlMessage m pm))"
  using assms dropById_processors [OF pm_inv_ok [OF inv], of "msg_id m" a]
  by (auto simp: onControlMessage_def PM_dropAll_def CM_dropAll_def dropById_idToConn split: if_splits)

lemma controls_tracked:
  assumes "pm_inv cfg n pm" and "cm_processors (pm_cm (fold onControlMessage ms pm)) a = Some p"
    and "cm_processors (pm_cm pm) a = Some p \<Longrightarrow> (px_id p, a) \<in> set (pm_idToConn pm)"
  shows "cm_processors (pm_cm pm) a = Some p \<and>
    (px_id p, a) \<in> set (pm_idToConn (fold onControlMessage ms pm))"
  using assms
proof (induction ms arbitrary: pm)
  case Nil
  then show ?case by simp
next
  case (Cons m ms)
  let ?pm = "onControlMessage m pm"
  have i: "pm_inv cfg n ?pm" using Cons.prems(1) by (rule pm_inv_onControlMessage)
  have "cm_processors (pm_cm ?pm) a = Some p \<Longrightarrow> (px_id p, a) \<in> set (pm_idToConn ?pm)"
    using control_tracked [OF Cons.prems(1)] control_processors_sub [OF Cons.prems(1)] Cons.prems(3)
    by blast
  then show ?case
    using Cons.IH [OF i] Cons.prems(2) control_processors_sub [OF Cons.prems(1), of m a p] by simp
qed

lemma received_control:
  assumes "cc_step J indet cc e = (cc', out, None)" and "m \<in> set (controls out)"
    and "msg_type m = CLOSE"
  shows "0 \<le> sint (msg_id m)"
proof -
  obtain dt body where "e = Delivery dt body" using assms(1,2) by (cases e) (auto split: if_splits)
  with assms(1,2) obtain m' where "JsonParser_parse J indet body = Inr (True, m')" "m = m'"
    by (auto simp: cc_received_def split: if_splits sum.splits prod.splits)
  then have "msg_type m = (if 0 \<le> sint (msg_id m) then CLOSE else CLOSE_ALL)"
    using JsonParser_parse_type by blast
  with assms(3) show ?thesis by (auto simp: CLOSE_def CLOSE_ALL_def split: if_splits)
qed

lemma clients_isolated:
  assumes "sys_reach J cfg indet q s" and "sys_step J cfg indet s (On_proxy a x) = Inr s'"
    and "b \<noteq> a"
  shows "live s' b = live s b"
proof -
  obtain p p' effs where p: "live s a = Some p"
    and s': "s' = s\<lparr>sy_pm := fold (apply_effect a) effs (store_proxy a p' (sy_pm s))\<rparr>"
    using assms(2) by (auto split: option.splits sum.splits)
  have "cm_running (pm_cm (sy_pm s))"
    using reach_pm_inv [OF assms(1)] p by (auto simp: pm_inv_def live_def)
  then have ok: "cm_ok (pm_cm (store_proxy a p' (sy_pm s)))" by (simp add: cm_ok_def store_proxy_def)
  show ?thesis using effects_processors [OF ok assms(3), of effs] assms(3) s' by (simp add: live_def store_proxy_def)
qed

subsection \<open>Properties\<close>

text \<open>
  The program never faults: whatever clients, servers and the broker do, as long as libevent
  keeps its promises and no control body makes jsoncpp throw, every run goes through and ends in a
  reachable state.
\<close>

theorem system_never_faults:
  assumes "admissible_run (sys_adm J indet) (sys_step J cfg indet) (sys_start q) es"
  shows "\<exists>s. run_steps (sys_step J cfg indet) (sys_start q) es = Inr s \<and> sys_reach J cfg indet q s"
  using sy.run_safe [OF sys_inv_start assms] reach_steps [OF reach_start assms] by blast

theorem system_never_faults_witness:
  "\<exists>s. run_steps (sys_step example_json example_config no_message) (sys_start ''proxyCtl'') namesake_left = Inr s \<and>
     sys_reach example_json example_config no_message ''proxyCtl'' s"
  by (rule system_never_faults [OF namesake_left_adm [unfolded system_start_def]])

text \<open>
  C9. Reachable states are well formed. A connected client holds a bufferevent and all its callbacks; its
  forwarder pointer is null exactly in the state BEGIN, in which no id was received; otherwise the
  forwarder points back at its client, is connecting exactly in the state CONNECTING, and the
  remembered input buffer is then the client's own. The registry lists an object at most once, only
  objects that were allocated, under the id the client reported; an object that is gone is listed
  only under a negative id.
\<close>

theorem reachable_states_well_formed:
  assumes "sys_reach J cfg indet q s"
  shows "(live s a = Some p \<longrightarrow>
      a < sy_next s \<and> cp_bev p \<and> cp_closeCb p \<and> px_idClb p \<and> \<not> cp_connectCb p \<and> \<not> cp_connecting p \<and>
      (case px_fwd p of
         None \<Rightarrow> px_state p = BEGIN \<and> px_id p = -1
       | Some f \<Rightarrow>
           px_state p \<noteq> BEGIN \<and> fw_destination f \<and> cp_bev f \<and> cp_connectCb f \<and> cp_closeCb f \<and>
           (cp_connecting f \<longleftrightarrow> px_state p = CONNECTING) \<and>
           (px_state p = CONNECTING \<longrightarrow> px_lastInput p = Own_input))) \<and>
    distinct (map snd (registry s)) \<and>
    ((i, a) \<in> set (registry s) \<longrightarrow>
      a < sy_next s \<and> (case live s a of None \<Rightarrow> sint i < 0 | Some p \<Rightarrow> px_id p = i \<and> px_state p \<noteq> BEGIN))"
proof (intro conjI impI)
  assume l: "live s a = Some p"
  note r = reach_live [OF assms l]
  show "a < sy_next s" "cp_bev p" by (fact r)+
  show "cp_closeCb p" "px_idClb p" "\<not> cp_connectCb p" "\<not> cp_connecting p"
    using r(1) by (simp_all add: px_inv_def)
  show "case px_fwd p of
         None \<Rightarrow> px_state p = BEGIN \<and> px_id p = -1
       | Some f \<Rightarrow>
           px_state p \<noteq> BEGIN \<and> fw_destination f \<and> cp_bev f \<and> cp_connectCb f \<and> cp_closeCb f \<and>
           (cp_connecting f \<longleftrightarrow> px_state p = CONNECTING) \<and>
           (px_state p = CONNECTING \<longrightarrow> px_lastInput p = Own_input)"
    using r(1,2) by (cases "px_state p") (auto simp: px_inv_def fwd_ok_def)
next
  show "distinct (map snd (registry s))" using reach_pm_inv [OF assms] by (simp add: pm_inv_def registry_def)
next
  assume "(i, a) \<in> set (registry s)"
  then have "entry_ok (live s) (sy_next s) (i, a)"
    using reach_pm_inv [OF assms] by (simp add: pm_inv_def registry_def live_def)
  then show "a < sy_next s" "case live s a of None \<Rightarrow> sint i < 0 | Some p \<Rightarrow> px_id p = i \<and> px_state p \<noteq> BEGIN"
    by (simp_all add: entry_ok_def split: option.splits)
qed

theorem reachable_states_well_formed_witness:
  "map_option fw_destination (px_fwd (the (live (after namesake_left) 1))) = Some True"
proof -
  have "live (after namesake_left) 1 = Some (the (live (after namesake_left) 1))"
      "px_fwd (the (live (after namesake_left) 1)) = Some (the (px_fwd (the (live (after namesake_left) 1))))"
    by code_simp+
  then obtain p f where l: "live (after namesake_left) 1 = Some p" "px_fwd p = Some f" by blast
  show ?thesis
    using reachable_states_well_formed [OF after_reach(2) [OF namesake_left_adm], of 1 p 0] l by simp
qed

text \<open>
  Routing in the running program: in every reachable state, a connected client that has a
  server connection has one to the host and port configured for the id the client reported.
\<close>

theorem system_routes_by_id:
  assumes "sys_reach J cfg indet q s" and "live s a = Some p" and "px_fwd p = Some f"
  shows "cfg_hosts cfg (px_id p) = Some (cp_host f, cp_port f)"
proof -
  have "fwd_ok cfg p f" using px_inv_fwdE [OF reach_live(1,2) [OF assms(1,2)] assms(3)] by blast
  then show ?thesis by (auto simp: fwd_ok_def getHostById_def split: option.splits)
qed

theorem system_routes_by_id_witness:
  "cfg_hosts example_config (px_id (the (live (after namesake_left) 1))) = Some (''n1'', 8888)"
proof -
  have l: "live (after namesake_left) 1 = Some (the (live (after namesake_left) 1))"
      "px_fwd (the (live (after namesake_left) 1)) = Some (the (px_fwd (the (live (after namesake_left) 1))))"
    by code_simp+
  have v: "cp_host (the (px_fwd (the (live (after namesake_left) 1)))) = ''n1''"
      "cp_port (the (px_fwd (the (live (after namesake_left) 1)))) = 8888"
    by code_simp+
  show ?thesis using system_routes_by_id [OF after_reach(2) [OF namesake_left_adm] l] v by simp
qed

text \<open>
  C13. Isolation: an event of one client, whatever it leads to, leaves the objects of all other
  clients as they are.
\<close>

theorem clients_are_isolated:
  assumes "sys_reach J cfg indet q s" and "sys_step J cfg indet s (On_proxy a x) = Inr s'"
    and "b \<noteq> a"
  shows "live s' b = live s b"
  using assms by (rule clients_isolated)

theorem clients_are_isolated_witness:
  "live (after namesake_left) 1 = live (after system_run) 1"
proof -
  have st: "sys_step example_json example_config no_message (after system_run)
      (On_proxy 0 (libevent_ok, 0, Client_event eof_event)) = Inr (after namesake_left)"
    using after_reach(1) [OF namesake_left_adm] after_reach(1) [OF system_run_adm]
    by (simp add: namesake_left_def run_steps_append split: sum.splits)
  show ?thesis using clients_are_isolated [OF after_reach(2) [OF system_run_adm] st, of 1] by simp
qed

text \<open>
  C12. CLOSE never disconnects the wrong client: in every reachable state, a client that a CLOSE
  message removes had reported exactly the id of the message.
\<close>

theorem close_hits_only_its_id:
  assumes "sys_reach J cfg indet q s" and "msg_type m = CLOSE" and "live s a = Some p"
    and "cm_processors (pm_cm (onControlMessage m (sy_pm s))) a = None"
  shows "px_id p = msg_id m \<and> px_state p \<noteq> BEGIN"
  using close_processors [OF assms(1,2), of a] reach_registry [OF assms(1) _ assms(3)] assms(3,4)
  by (auto split: if_splits)

theorem close_hits_only_its_id_witness:
  "px_id (the (live (after system_run) 1)) = 1"
proof -
  have l: "live (after system_run) 1 = Some (the (live (after system_run) 1))" by code_simp
  have n: "Option.is_none (cm_processors (pm_cm (onControlMessage \<lparr>msg_type = CLOSE, msg_id = 1\<rparr> (sy_pm (after system_run)))) 1)"
    by code_simp
  then have n': "cm_processors (pm_cm (onControlMessage \<lparr>msg_type = CLOSE, msg_id = 1\<rparr> (sy_pm (after system_run)))) 1 = None"
    by (simp add: Option.is_none_def)
  show ?thesis
    using close_hits_only_its_id [OF after_reach(2) [OF system_run_adm] _ l n'] by simp
qed

lemma close_complete:
  assumes "sys_reach J cfg indet q s" and "tracked s" and "msg_type m = CLOSE"
    and "0 \<le> sint (msg_id m)" and "live s a = Some p"
  shows "cm_processors (pm_cm (onControlMessage m (sy_pm s))) a =
    (if px_id p = msg_id m then None else Some p)"
proof -
  have b: "sint (px_id p) = -1" if "px_state p = BEGIN"
    using reach_live(1,2) [OF assms(1,5)] that by (auto simp: px_inv_def)
  have "(px_id p, a) \<in> set (registry s)" if "px_id p = msg_id m"
  proof -
    have "px_state p \<noteq> BEGIN" using b assms(4) that by auto
    then show ?thesis using assms(2,5) by (auto simp: tracked_def)
  qed
  then have "(msg_id m, a) \<in> set (registry s) \<longleftrightarrow> px_id p = msg_id m"
    using reach_registry [OF assms(1) _ assms(5)] by auto
  then show ?thesis using close_processors [OF assms(1,3), of a] assms(5) by simp
qed

text \<open>
  CLOSE is complete when every routed client is recorded: in such a reachable state a CLOSE
  message for an id from 0 up disconnects exactly the clients that reported the id and keeps all
  others.
\<close>

theorem close_complete_when_tracked:
  assumes "sys_reach J cfg indet q s" and "tracked s" and "msg_type m = CLOSE"
    and "0 \<le> sint (msg_id m)" and "live s a = Some p"
  shows "cm_processors (pm_cm (onControlMessage m (sy_pm s))) a =
    (if px_id p = msg_id m then None else Some p)"
  by (rule close_complete [OF assms])

lemma tracked_system_run: "tracked (after system_run)"
proof -
  have n: "sy_next (after system_run) = 3" by code_simp
  have t: "(case live (after system_run) a of None \<Rightarrow> True | Some p \<Rightarrow>
      px_state p = BEGIN \<or> (px_id p, a) \<in> set (registry (after system_run)))" if "a < 3" for a
  proof -
    have "list_all (\<lambda>a. case live (after system_run) a of None \<Rightarrow> True | Some p \<Rightarrow>
        px_state p = BEGIN \<or> (px_id p, a) \<in> set (registry (after system_run))) [0, 1, 2]"
      by code_simp
    moreover have "a = 0 \<or> a = 1 \<or> a = 2" using that by auto
    ultimately show ?thesis by auto
  qed
  then show ?thesis
    unfolding tracked_def using reach_live(3) [OF after_reach(2) [OF system_run_adm]] n
    by (fastforce split: option.splits)
qed

theorem close_complete_when_tracked_witness:
  "cm_processors (pm_cm (onControlMessage \<lparr>msg_type = CLOSE, msg_id = 1\<rparr> (sy_pm (after system_run)))) 1 = None"
proof -
  have l: "live (after system_run) 1 = Some (the (live (after system_run) 1))"
      "px_id (the (live (after system_run) 1)) = 1" by code_simp+
  show ?thesis
    using close_complete_when_tracked [OF after_reach(2) [OF system_run_adm] tracked_system_run _ _ l(1)] l(2)
    by simp
qed


text \<open>
  C15. CLOSE_ALL is final: once a control message with a negative id has been handled, the program
  keeps running and accepting connections, but no client is ever connected again, whatever happens.
\<close>

theorem close_all_is_final:
  assumes "sys_reach J cfg indet q s" and "cc_on_received (sy_cc s)" and "cc_ctlCb (sy_cc s)"
    and "message_of J indet body = Some m" and "sint (msg_id m) < 0"
    and "admissible_run (sys_adm J indet) (sys_step J cfg indet) s (On_channel (Delivery dt body) # es)"
    and "run_steps (sys_step J cfg indet) s (On_channel (Delivery dt body) # es) = Inr s'"
  shows "live s' = Map.empty"
proof -
  have js: "JsonParser_parse J indet body = Inr (True, m)"
    using assms(4) by (auto simp: message_of_def split: sum.splits prod.splits bool.splits)
  then have "msg_type m = (if 0 \<le> sint (msg_id m) then CLOSE else CLOSE_ALL)"
    by (rule JsonParser_parse_type)
  with assms(5) have t: "msg_type m = CLOSE_ALL" "msg_type m \<noteq> CLOSE"
    by (simp_all add: CLOSE_ALL_def CLOSE_def)
  obtain s1 where s1: "sys_step J cfg indet s (On_channel (Delivery dt body)) = Inr s1"
    and r: "run_steps (sys_step J cfg indet) s1 es = Inr s'"
    using assms(7) by (auto split: sum.splits)
  have nr: "\<not> running s1"
    using s1 assms(2,3) js t
    by (auto simp: cc_received_def running_def onControlMessage_def PM_dropAll_def CM_dropAll_def)
  have "\<not> running s'" using r nr
  proof (induction es arbitrary: s1)
    case Nil
    then show ?case by simp
  next
    case (Cons e es)
    then obtain s2 where "sys_step J cfg indet s1 e = Inr s2" "run_steps (sys_step J cfg indet) s2 es = Inr s'"
      by (auto split: sum.splits)
    then show ?case using Cons sys_step_running by blast
  qed
  moreover have "sys_reach J cfg indet q s'" by (rule reach_steps [OF assms(1,6,7)])
  then have "pm_inv cfg (sy_next s') (sy_pm s')" by (rule reach_pm_inv)
  ultimately show ?thesis by (auto simp: pm_inv_def running_def live_def)
qed

theorem close_all_is_final_witness:
  "live (after (system_run @ [On_channel (Delivery 1 [2]), Accept [] ''c3'' 4])) = Map.empty"
proof -
  let ?es = "[On_channel (Delivery 1 [2]), Accept [] ''c3'' 4]"
  have a: "admissible_run (sys_adm example_json no_message) (sys_step example_json example_config no_message)
      (after system_run) ?es"
    by (rule sys_admissibleI) (simp, code_simp)
  have w: "admissible_run (sys_adm example_json no_message) (sys_step example_json example_config no_message)
      system_start (system_run @ ?es)"
    by (rule sys_admissibleI) (simp add: system_lib, code_simp)
  have c: "cc_on_received (sy_cc (after system_run))" "cc_ctlCb (sy_cc (after system_run))" by code_simp+
  have m: "message_of example_json no_message [2] = Some \<lparr>msg_type = CLOSE_ALL, msg_id = -1\<rparr>" by code_simp
  have r: "run_steps (sys_step example_json example_config no_message) (after system_run) ?es =
      Inr (after (system_run @ ?es))"
    using after_reach(1) [OF w] after_reach(1) [OF system_run_adm]
    by (simp add: run_steps_append split: sum.splits)
  show ?thesis
    using close_all_is_final [OF after_reach(2) [OF system_run_adm] c m _ a r] by simp
qed

text \<open>
  An event of a proxy, as the registry and the other clients see it: while the client stays open its
  record is kept or made, and when it closes only records of its own id may go.
\<close>

lemma open_step_tracked:
  assumes eff: "step_effects p p' effs" and s': "sy_pm s' = fold (apply_effect a) effs (store_proxy a p' (sy_pm s))"
    and "cp_bev p'" and tr: "tracked s" and p: "live s a = Some p"
    and l: "live s' b = Some r" "px_state r \<noteq> BEGIN"
  shows "(px_id r, b) \<in> set (registry s')"
proof -
  have k: "set (registry s) \<subseteq> set (registry s')" "live s' = (live s)(a \<mapsto> p')"
      "px_state p = BEGIN \<longrightarrow> px_state p' = BEGIN \<or> (px_id p', a) \<in> set (registry s')"
      "px_state p \<noteq> BEGIN \<longrightarrow> px_id p' = px_id p"
    using eff s' assms(3)
    by (auto simp: step_effects_def apply_effect_def onIdRecv_def store_proxy_def live_def registry_def)
  show ?thesis
  proof (cases "b = a")
    case True
    have "(px_id p, a) \<in> set (registry s)" if "px_state p \<noteq> BEGIN"
      using tr p that by (auto simp: tracked_def)
    moreover have "r = p'" using k(2) l(1) True by simp
    ultimately show ?thesis using True l(2) k(1,3,4) by (cases "px_state p = BEGIN") auto
  next
    case False
    with k(2) l(1) have "live s b = Some r" by simp
    then have "(px_id r, b) \<in> set (registry s)" using tr l(2) unfolding tracked_def by blast
    then show ?thesis using k(1) by blast
  qed
qed

lemma closing_step_registry:
  assumes eff: "step_effects p p' effs" and s': "sy_pm s' = fold (apply_effect a) effs (store_proxy a p' (sy_pm s))"
    and "\<not> cp_bev p'" and run: "cm_running (pm_cm (sy_pm s))"
  shows "Closed \<in> set effs" and "live s' a = None"
    and "(i, b) \<in> set (registry s) \<Longrightarrow> (i, b) \<notin> set (registry s') \<Longrightarrow> i = px_id p' \<and> 0 \<le> sint i"
proof -
  show "Closed \<in> set effs" using eff assms(3) by (auto simp: step_effects_def)
  show "live s' a = None"
    using eff assms(3) s' run
    by (auto simp: step_effects_def apply_effect_def onIdRecv_def store_proxy_def live_def
        PM_dropConnection_processors cm_ok_def)
  assume "(i, b) \<in> set (registry s)" and "(i, b) \<notin> set (registry s')"
  then show "i = px_id p' \<and> 0 \<le> sint i"
    using eff assms(3) s'
    by (auto simp: step_effects_def apply_effect_def onIdRecv_def store_proxy_def registry_def
        PM_dropConnection_idToConn split: if_splits)
qed

text \<open>
  C6. Tracking is lost in one way only: if every routed client is recorded before a step and some
  routed client is not recorded after it, then the step was an event of a client that closed while
  another connected client had the same id, an id from 0 up.
\<close>

theorem tracking_lost_only_by_namesake:
  assumes "sys_reach J cfg indet q s" and "sys_adm J indet s e" and "sys_step J cfg indet s e = Inr s'"
    and "tracked s" and "live s' b = Some r" and "px_state r \<noteq> BEGIN"
    and "(px_id r, b) \<notin> set (registry s')"
  shows "\<exists>a x p p' effs. e = On_proxy a x \<and> a \<noteq> b \<and> live s a = Some p \<and>
    px_step cfg p x = Inr (p', effs) \<and> Closed \<in> set effs \<and> px_id p' = px_id r \<and>
    0 \<le> sint (px_id p') \<and> live s b = Some r"
proof (cases e)
  case (Accept junk ip prt)
  with assms(3-7) show ?thesis
    by (auto simp: live_def registry_def tracked_def addProxy_def addConnection_def setIdRcvClb_def
        setOnCloseCb_def new_Proxy_def connection_processor.defs split: if_splits)
next
  case (On_channel c)
  obtain out where "sy_pm s' = fold onControlMessage (controls out) (sy_pm s)"
    using assms(3) On_channel by (auto split: prod.splits option.splits)
  then show ?thesis
    using controls_tracked [OF reach_pm_inv [OF assms(1)], of "controls out" b r] assms(4-7)
    by (auto simp: live_def registry_def tracked_def)
next
  case (On_proxy a x)
  obtain p where p: "live s a = Some p" "px_adm p x"
    using assms(2) On_proxy by (auto split: option.splits)
  obtain L i ev where x: "x = (L, i, ev)" by (cases x)
  obtain p' effs where st: "px_step cfg p x = Inr (p', effs)"
    and ok: "step_ok cfg p (event_client ev) (event_server ev) p' effs"
    using px_step_ok [OF reach_live(1) [OF assms(1) p(1)]] p(2) x by metis
  have eff: "step_effects p p' effs" using ok by (simp add: step_ok_def)
  have s': "sy_pm s' = fold (apply_effect a) effs (store_proxy a p' (sy_pm s))"
    using assms(3) On_proxy p(1) st by auto
  show ?thesis
  proof (cases "cp_bev p'")
    case True
    with open_step_tracked [OF eff s' True assms(4) p(1) assms(5,6)] assms(7) show ?thesis by blast
  next
    case False
    have "cm_running (pm_cm (sy_pm s))"
      using reach_pm_inv [OF assms(1)] p(1) by (auto simp: pm_inv_def live_def)
    note c = closing_step_registry [OF eff s' False this]
    have ne: "b \<noteq> a" using c(2) assms(5) by auto
    have lb: "live s b = Some r" using clients_isolated [OF assms(1)] assms(3,5) On_proxy ne by simp
    then have "(px_id r, b) \<in> set (registry s)" using assms(4,6) by (auto simp: tracked_def)
    then show ?thesis
      using On_proxy ne p(1) st c(1) c(3) [OF _ assms(7)] lb
      by (intro exI [of _ a] exI [of _ x] exI [of _ p] exI [of _ p'] exI [of _ effs]) auto
  qed
qed

theorem tracking_lost_only_by_namesake_witness:
  "\<exists>a x p p' effs. On_proxy 0 (libevent_ok, 0, Client_event eof_event) = On_proxy a x \<and> a \<noteq> 1 \<and>
    live (after system_run) a = Some p \<and> px_step example_config p x = Inr (p', effs) \<and>
    Closed \<in> set effs \<and> px_id p' = 1 \<and> (0::int) \<le> 1"
proof -
  let ?e = "On_proxy 0 (libevent_ok, 0, Client_event eof_event)"
  let ?r = "the (live (after namesake_left) 1)"
  have st: "sys_step example_json example_config no_message (after system_run) ?e = Inr (after namesake_left)"
    using after_reach(1) [OF namesake_left_adm] after_reach(1) [OF system_run_adm]
    by (simp add: namesake_left_def run_steps_append split: sum.splits)
  have a: "sys_adm example_json no_message (after system_run) ?e"
    by (rule sys_admI) (simp add: libevent_ok_laws del: sys_events_ok.simps, code_simp)
  have r: "live (after namesake_left) 1 = Some ?r" "px_state ?r \<noteq> BEGIN" by code_simp+
  have n: "(px_id ?r, 1) \<notin> set (registry (after namesake_left))" by code_simp
  have i: "px_id ?r = 1" by code_simp
  show ?thesis
    using tracking_lost_only_by_namesake [OF after_reach(2) [OF system_run_adm] a st tracked_system_run r n] i
    by fastforce
qed

lemma effects_keep_negative:
  assumes "sint i < 0"
  shows "(i, a) \<in> set (pm_idToConn pm) \<Longrightarrow> (i, a) \<in> set (pm_idToConn (fold (apply_effect b) effs pm))"
proof (induction effs arbitrary: pm)
  case Nil
  then show ?case by simp
next
  case (Cons eff effs)
  then have "(i, a) \<in> set (pm_idToConn (apply_effect b eff pm))"
    using assms by (auto simp: apply_effect_def onIdRecv_def PM_dropConnection_idToConn
        split: proxy_effect.split option.split)
  then show ?case using Cons.IH by simp
qed

lemma controls_keep_negative:
  assumes "sint i < 0" and c: "cc_step J indet cc e = (cc', out, None)"
  shows "(i, a) \<in> set (pm_idToConn pm) \<Longrightarrow> cm_running (pm_cm (fold onControlMessage ms pm)) \<Longrightarrow>
    set ms \<subseteq> set (controls out) \<Longrightarrow> (i, a) \<in> set (pm_idToConn (fold onControlMessage ms pm))"
proof (induction ms arbitrary: pm)
  case Nil
  then show ?case by simp
next
  case (Cons m ms)
  have "cm_running (pm_cm (onControlMessage m pm))"
    using Cons.prems(2) controls_running [of ms "onControlMessage m pm"] by simp
  then have "(i, a) \<in> set (pm_idToConn (onControlMessage m pm))"
    using Cons.prems(1,3) received_control [OF c, of m] assms(1)
    by (auto simp: onControlMessage_def dropById_idToConn PM_dropAll_def CM_dropAll_def CLOSE_def CLOSE_ALL_def split: if_splits)
  then show ?case using Cons.IH Cons.prems(2,3) by simp
qed

text \<open>
  The records of clients with negative ids are never removed: no message and no disconnect
  deletes one while the program accepts clients, so the registry only grows with them.
\<close>

theorem negative_id_records_stay:
  assumes "(i, a) \<in> set (registry s)" and "sint i < 0"
    and "sys_step J cfg indet s e = Inr s'" and "running s'"
  shows "(i, a) \<in> set (registry s')"
proof (cases e)
  case (Accept junk ip prt)
  with assms show ?thesis by (auto simp: registry_def addProxy_def)
next
  case (On_proxy b x)
  obtain p' effs where s': "sy_pm s' = fold (apply_effect b) effs (store_proxy b p' (sy_pm s))"
    using assms(3) On_proxy by (auto split: option.splits sum.splits)
  show ?thesis using effects_keep_negative [OF assms(2)] assms(1) s' by (simp add: registry_def store_proxy_def)
next
  case (On_channel c)
  obtain cc out where c: "cc_step J indet (sy_cc s) c = (cc, out, None)"
    and s': "sy_pm s' = fold onControlMessage (controls out) (sy_pm s)"
    using assms(3) On_channel by (auto split: prod.splits option.splits)
  show ?thesis
    using controls_keep_negative [OF assms(2) c, of a "sy_pm s" "controls out"] assms(1,4) s'
    by (simp add: registry_def running_def)
qed

theorem negative_id_records_stay_witness:
  "case sys_step example_json example_config no_message
      ((sys_start [])\<lparr>sy_pm := \<lparr>pm_cm = new_ConnectionManager, pm_idToConn = [(-1, 5)]\<rparr>\<rparr>)
      (Accept [] ''c'' 1) of
     Inr s \<Rightarrow> (-1, 5) \<in> set (registry s) | Inl f \<Rightarrow> False"
proof -
  let ?s = "(sys_start [])\<lparr>sy_pm := \<lparr>pm_cm = new_ConnectionManager, pm_idToConn = [(-1, 5)]\<rparr>\<rparr>"
  obtain s' where s': "sys_step example_json example_config no_message ?s (Accept [] ''c'' 1) = Inr s'"
    by simp
  then have r: "running s'"
    by (auto simp: running_def addProxy_def addConnection_def new_ConnectionManager_def)
  show ?thesis
    using negative_id_records_stay [OF _ _ s' r, of "-1" 5] s' by (simp add: registry_def)
qed

end
