(* ===== verification/Amqp_Wire.thy ===== *)
theory Amqp_Wire
  imports Prelude
begin

unbundle bit_operations_syntax

section \<open>AMQP: the octets values are written as and read from\<close>

text \<open>
  \<open>include/amqpcpp/\<close>: \<open>outbuffer.h\<close>, \<open>copiedbuffer.h\<close>, \<open>bytebuffer.h\<close>, \<open>booleanset.h\<close>,
  \<open>numericfield.h\<close>, \<open>stringfield.h\<close>, \<open>decimalfield.h\<close>. A value that fills a buffer appends octets to
  it. The frame a value is read from (\<open>ReceivedFrame\<close>, implemented in the prebuilt library) is a
  parameter: \<open>'f\<close> is its state, \<open>unread\<close> the octets it has not handed out, and \<open>reader_laws\<close> says that
  the readers take big-endian values and blocks from its front.
\<close>

type_synonym octets = "byte list"
type_synonym out_buffer = octets

subsection \<open>OutBuffer\<close>

definition add_block :: "octets \<Rightarrow> out_buffer \<Rightarrow> out_buffer" where
  "add_block data buf = buf @ data"

definition add_word :: "'a::len word \<Rightarrow> out_buffer \<Rightarrow> out_buffer" where
  "add_word v buf = buf @ be_of_word v"

subsection \<open>CopiedBuffer\<close>

text \<open>
  The concrete out buffer: a block of \<open>cb_capacity\<close> octets of which the first \<open>cb_size\<close> are written. A
  \<open>memcpy\<close> past the end of the block is a fault. A frame is what \<open>Frame\<close> promises: its total size,
  the octets it fills in and whether it needs the end-of-frame octet.
\<close>

datatype buffer_fault = Buffer_overflow

record frame =
  fr_totalSize :: u32
  fr_fill :: octets
  fr_partOfHandshake :: bool
  fr_partOfShutdown :: bool
  fr_needsSeparator :: bool
  fr_synchronous :: bool

definition default_frame :: "u32 \<Rightarrow> octets \<Rightarrow> frame" where
  "default_frame n bs =
     \<lparr>fr_totalSize = n, fr_fill = bs, fr_partOfHandshake = False, fr_partOfShutdown = False,
      fr_needsSeparator = True, fr_synchronous = False\<rparr>"

record copied_buffer =
  cb_capacity :: nat
  cb_buffer :: "octets option"
  cb_size :: nat

definition cb_append :: "octets \<Rightarrow> copied_buffer \<Rightarrow> buffer_fault + copied_buffer" where
  "cb_append data cb =
     (case cb_buffer cb of
        None \<Rightarrow> Inl Buffer_overflow
      | Some buf \<Rightarrow>
          if cb_capacity cb < cb_size cb + length data then Inl Buffer_overflow
          else Inr (cb\<lparr>cb_buffer := Some (take (cb_size cb) buf @ data @ drop (cb_size cb + length data) buf),
                       cb_size := cb_size cb + length data\<rparr>))"

text \<open>\<open>heap\<close> is what \<open>malloc\<close> hands out: a block of the requested size with any content.\<close>

definition CopiedBuffer :: "(nat \<Rightarrow> octets) \<Rightarrow> frame \<Rightarrow> buffer_fault + copied_buffer" where
  "CopiedBuffer heap fr =
     (let cb = \<lparr>cb_capacity = unat (fr_totalSize fr), cb_buffer = Some (heap (unat (fr_totalSize fr))), cb_size = 0\<rparr>
      in case cb_append (fr_fill fr) cb of
           Inl e \<Rightarrow> Inl e
         | Inr cb' \<Rightarrow> if fr_needsSeparator fr then cb_append [206] cb' else Inr cb')"

definition cb_move :: "copied_buffer \<Rightarrow> copied_buffer \<times> copied_buffer" where
  "cb_move that = (that, \<lparr>cb_capacity = 0, cb_buffer = None, cb_size = 0\<rparr>)"

text \<open>The destructor frees the block; freeing the null pointer of a moved-from buffer does nothing.\<close>

definition cb_destroy :: "copied_buffer \<Rightarrow> octets option" where
  "cb_destroy cb = cb_buffer cb"

definition cb_data :: "copied_buffer \<Rightarrow> octets" where
  "cb_data cb = (case cb_buffer cb of None \<Rightarrow> [] | Some buf \<Rightarrow> take (cb_size cb) buf)"

lemma CopiedBuffer_content:
  assumes "length (heap (unat (fr_totalSize fr))) = unat (fr_totalSize fr)"
    and "CopiedBuffer heap fr = Inr cb"
  shows "cb_data cb = fr_fill fr @ (if fr_needsSeparator fr then [206] else [])"
    and "cb_size cb = length (cb_data cb)"
  using assms
  by (auto simp: CopiedBuffer_def cb_append_def cb_data_def Let_def split: if_splits)

subsection \<open>ByteBuffer\<close>

text \<open>
  A view of a block of memory; \<open>None\<close> is the null pointer of a moved-from buffer. The accessors have
  no bounds check: an access that the interface forbids is a fault.
\<close>

record byte_buffer =
  bb_data :: "octets option"
  bb_size :: nat

definition ByteBuffer :: "octets \<Rightarrow> nat \<Rightarrow> byte_buffer" where
  "ByteBuffer mem n = \<lparr>bb_data = Some mem, bb_size = n\<rparr>"

definition bb_move :: "byte_buffer \<Rightarrow> byte_buffer \<times> byte_buffer" where
  "bb_move that = (that, \<lparr>bb_data = None, bb_size = 0\<rparr>)"

definition bb_byte :: "nat \<Rightarrow> byte_buffer \<Rightarrow> buffer_fault + byte" where
  "bb_byte pos bb =
     (case bb_data bb of
        None \<Rightarrow> Inl Buffer_overflow
      | Some mem \<Rightarrow> if pos < length mem then Inr (mem ! pos) else Inl Buffer_overflow)"

definition bb_copy :: "nat \<Rightarrow> nat \<Rightarrow> byte_buffer \<Rightarrow> buffer_fault + octets" where
  "bb_copy pos n bb =
     (case bb_data bb of
        None \<Rightarrow> Inl Buffer_overflow
      | Some mem \<Rightarrow> if pos + n \<le> length mem then Inr (take n (drop pos mem)) else Inl Buffer_overflow)"

subsection \<open>Buffer\<close>

text \<open>
  The interface \<open>buffer.h\<close> that frames are received through, and \<open>ByteBuffer\<close> as its implementation.
  The library only asks for octets that exist; for these, every buffer behaves like the block of octets
  it holds.
\<close>

record 'b buffer =
  bf_size :: "'b \<Rightarrow> nat"
  bf_byte :: "nat \<Rightarrow> 'b \<Rightarrow> buffer_fault + byte"
  bf_data :: "nat \<Rightarrow> nat \<Rightarrow> 'b \<Rightarrow> buffer_fault + octets"
  bf_copy :: "nat \<Rightarrow> nat \<Rightarrow> 'b \<Rightarrow> buffer_fault + octets"

definition ByteBuffer_ops :: "byte_buffer buffer" where
  "ByteBuffer_ops = \<lparr>bf_size = bb_size, bf_byte = bb_byte, bf_data = bb_copy, bf_copy = bb_copy\<rparr>"

text \<open>Reading octet by octet, as a client of the interface does.\<close>

primrec bf_bytes :: "'b buffer \<Rightarrow> nat list \<Rightarrow> 'b \<Rightarrow> buffer_fault + octets" where
  "bf_bytes B [] b = Inr []"
| "bf_bytes B (i # is) b =
     (case bf_byte B i b of
        Inl f \<Rightarrow> Inl f
      | Inr x \<Rightarrow> (case bf_bytes B is b of Inl f \<Rightarrow> Inl f | Inr xs \<Rightarrow> Inr (x # xs)))"

locale octet_buffer =
  fixes B :: "'b buffer" and ok :: "'b \<Rightarrow> bool" and contents :: "'b \<Rightarrow> octets"
  assumes size_contents: "ok b \<Longrightarrow> bf_size B b = length (contents b)"
    and byte_contents: "ok b \<Longrightarrow> pos < bf_size B b \<Longrightarrow> bf_byte B pos b = Inr (contents b ! pos)"
    and data_contents: "ok b \<Longrightarrow> pos + n \<le> bf_size B b \<Longrightarrow>
      bf_data B pos n b = Inr (take n (drop pos (contents b)))"
    and copy_contents: "ok b \<Longrightarrow> pos + n \<le> bf_size B b \<Longrightarrow>
      bf_copy B pos n b = Inr (take n (drop pos (contents b)))"
begin

lemma bytes_contents:
  "ok b \<Longrightarrow> \<forall>i \<in> set is. i < bf_size B b \<Longrightarrow> bf_bytes B is b = Inr (map (\<lambda>i. contents b ! i) is)"
  by (induction \<open>is\<close>) (simp_all add: byte_contents)

lemma bytes_are_copy:
  assumes "ok b" and "pos + n \<le> bf_size B b"
  shows "bf_bytes B [pos..<pos + n] b = bf_copy B pos n b"
proof -
  have "map (\<lambda>i. contents b ! i) [pos..<pos + n] = take n (drop pos (contents b))"
    using assms by (intro nth_equalityI) (auto simp: size_contents)
  with assms show ?thesis by (simp add: bytes_contents copy_contents)
qed

end

definition bb_ok :: "byte_buffer \<Rightarrow> bool" where
  "bb_ok bb \<longleftrightarrow> (case bb_data bb of None \<Rightarrow> bb_size bb = 0 | Some mem \<Rightarrow> bb_size bb \<le> length mem)"

definition bb_contents :: "byte_buffer \<Rightarrow> octets" where
  "bb_contents bb = (case bb_data bb of None \<Rightarrow> [] | Some mem \<Rightarrow> take (bb_size bb) mem)"

text \<open>A buffer that was moved from is empty, and asking it for no octets still is a null pointer.\<close>

definition bb_readable :: "byte_buffer \<Rightarrow> bool" where
  "bb_readable bb \<longleftrightarrow> bb_ok bb \<and> bb_data bb \<noteq> None"

interpretation bb: octet_buffer ByteBuffer_ops bb_readable bb_contents
  by unfold_locales
    (auto simp: ByteBuffer_ops_def bb_readable_def bb_ok_def bb_contents_def bb_byte_def bb_copy_def
      take_drop min_def)

lemma bb_in_bounds:
  assumes "n \<le> length mem" and "pos < n"
  shows "bb_byte pos (ByteBuffer mem n) = Inr (mem ! pos)"
    and "bb_copy pos 1 (ByteBuffer mem n) = Inr [mem ! pos]"
  using assms by (auto simp: bb_byte_def bb_copy_def ByteBuffer_def take_Suc_conv_app_nth hd_drop_conv_nth)

subsection \<open>BooleanSet\<close>

definition bs_get :: "u32 \<Rightarrow> byte \<Rightarrow> bool" where
  "bs_get index b = (if 7 < index then False else push_bit (unat index) 1 AND b \<noteq> 0)"

definition bs_set :: "u32 \<Rightarrow> bool \<Rightarrow> byte \<Rightarrow> byte" where
  "bs_set index v b =
     (if 7 < index then b
      else if v then b OR push_bit (unat index) 1
      else b AND NOT (push_bit (unat index) 1))"

definition BooleanSet :: "bool \<Rightarrow> bool \<Rightarrow> bool \<Rightarrow> bool \<Rightarrow> bool \<Rightarrow> bool \<Rightarrow> bool \<Rightarrow> bool \<Rightarrow> byte" where
  "BooleanSet b0 b1 b2 b3 b4 b5 b6 b7 =
     bs_set 7 b7 (bs_set 6 b6 (bs_set 5 b5 (bs_set 4 b4
       (bs_set 3 b3 (bs_set 2 b2 (bs_set 1 b1 (bs_set 0 b0 0)))))))"

lemma and_mask_byte: "n < 8 \<Longrightarrow> (push_bit n 1 AND b \<noteq> (0 :: byte)) = bit b n"
  by (auto simp: bit_eq_iff [where 'a = byte] bit_simps)

lemma bit_or_mask: "n < 8 \<Longrightarrow> m < 8 \<Longrightarrow> bit (b OR push_bit m (1 :: byte)) n = (n = m \<or> bit b n)"
  by (auto simp: bit_simps)

lemma bit_and_not_mask:
  "n < 8 \<Longrightarrow> m < 8 \<Longrightarrow> bit (b AND NOT (push_bit m (1 :: byte))) n = (n \<noteq> m \<and> bit b n)"
  by (auto simp: bit_simps)

lemma index_less: "\<not> 7 < i \<Longrightarrow> unat (i :: u32) < 8"
  by (simp add: word_less_nat_alt)

lemma bs_get_bit: "bs_get i b \<longleftrightarrow> \<not> 7 < i \<and> bit b (unat i)"
  using and_mask_byte [OF index_less, of i b] by (auto simp only: bs_get_def split: if_split)

lemma bs_get_set:
  "bs_get j (bs_set i v b) = (if j = i \<and> \<not> 7 < i then v else bs_get j b)"
proof (cases "7 < i \<or> 7 < j")
  case True
  then show ?thesis by (auto simp: bs_set_def bs_get_def)
next
  case False
  then have l: "unat i < 8" "unat j < 8" "\<not> 7 < i" "\<not> 7 < j" using index_less by blast+
  have u: "unat j = unat i \<longleftrightarrow> j = i" by (rule word_unat_eq_iff [symmetric])
  show ?thesis
    unfolding bs_get_bit bs_set_def
    using l bit_or_mask [OF l(2,1), of b] bit_and_not_mask [OF l(2,1), of b] u by (cases v) auto
qed

subsection \<open>Reading from a frame\<close>

record 'f frame_reader =
  unread :: "'f \<Rightarrow> octets"
  nextUint8 :: "'f \<Rightarrow> (u8 \<times> 'f) option"
  nextUint16 :: "'f \<Rightarrow> (u16 \<times> 'f) option"
  nextUint32 :: "'f \<Rightarrow> (u32 \<times> 'f) option"
  nextUint64 :: "'f \<Rightarrow> (u64 \<times> 'f) option"
  nextData :: "u32 \<Rightarrow> 'f \<Rightarrow> (octets \<times> 'f) option"

text \<open>A reader that, whenever the octets of a value are next, reads that value and goes past them.\<close>

definition reads :: "('f \<Rightarrow> octets) \<Rightarrow> ('f \<Rightarrow> ('a \<times> 'f) option) \<Rightarrow> 'a \<Rightarrow> octets \<Rightarrow> bool" where
  "reads left dec x bs \<longleftrightarrow>
     (\<forall>f r. left f = bs @ r \<longrightarrow> (\<exists>f'. dec f = Some (x, f') \<and> left f' = r))"

definition reader_laws :: "'f frame_reader \<Rightarrow> bool" where
  "reader_laws R \<longleftrightarrow>
     (\<forall>w. reads (unread R) (nextUint8 R) w (be_of_word w)) \<and>
     (\<forall>w. reads (unread R) (nextUint16 R) w (be_of_word w)) \<and>
     (\<forall>w. reads (unread R) (nextUint32 R) w (be_of_word w)) \<and>
     (\<forall>w. reads (unread R) (nextUint64 R) w (be_of_word w)) \<and>
     (\<forall>n d. length d = unat n \<longrightarrow> reads (unread R) (nextData R n) d d)"

text \<open>A reader over a plain list of octets.\<close>

definition take_octets :: "nat \<Rightarrow> octets \<Rightarrow> (octets \<times> octets) option" where
  "take_octets n bs = (if length bs < n then None else Some (take n bs, drop n bs))"

definition list_reader :: "octets frame_reader" where
  "list_reader =
     \<lparr>unread = (\<lambda>bs. bs),
      nextUint8 = (\<lambda>bs. map_option (apfst word_of_be) (take_octets 1 bs)),
      nextUint16 = (\<lambda>bs. map_option (apfst word_of_be) (take_octets 2 bs)),
      nextUint32 = (\<lambda>bs. map_option (apfst word_of_be) (take_octets 4 bs)),
      nextUint64 = (\<lambda>bs. map_option (apfst word_of_be) (take_octets 8 bs)),
      nextData = (\<lambda>n. take_octets (unat n))\<rparr>"

lemma list_reader_laws: "reader_laws list_reader"
proof -
  have "word_of_be [w] = w" for w :: u8 using word8_of_be [of w] by simp
  then show ?thesis
    by (auto simp: reader_laws_def reads_def list_reader_def take_octets_def)
qed

text \<open>Sequencing of readers: an exception of the first ends the whole.\<close>

definition rd_return :: "'a \<Rightarrow> 'f \<Rightarrow> ('a \<times> 'f) option" where
  "rd_return x f = Some (x, f)"

definition rd_bind ::
  "('f \<Rightarrow> ('a \<times> 'f) option) \<Rightarrow> ('a \<Rightarrow> 'f \<Rightarrow> ('b \<times> 'f) option) \<Rightarrow> 'f \<Rightarrow> ('b \<times> 'f) option" where
  "rd_bind m k f = (case m f of None \<Rightarrow> None | Some (x, f') \<Rightarrow> k x f')"

definition rd_if :: "bool \<Rightarrow> ('f \<Rightarrow> ('a \<times> 'f) option) \<Rightarrow> 'a \<Rightarrow> 'f \<Rightarrow> ('a \<times> 'f) option" where
  "rd_if c dec old = (if c then dec else rd_return old)"

lemma reads_return: "reads left (rd_return x) x []"
  by (simp add: reads_def rd_return_def)

lemma reads_bind:
  assumes "reads left m x bs" and "reads left (k x) y cs"
  shows "reads left (rd_bind m k) y (bs @ cs)"
  unfolding reads_def
proof (intro allI impI)
  fix f r
  assume "left f = (bs @ cs) @ r"
  then have "left f = bs @ cs @ r" by simp
  then obtain f1 where "m f = Some (x, f1)" "left f1 = cs @ r"
    using assms(1) unfolding reads_def by blast
  moreover then obtain f2 where "k x f1 = Some (y, f2)" "left f2 = r"
    using assms(2) unfolding reads_def by blast
  ultimately show "\<exists>f'. rd_bind m k f = Some (y, f') \<and> left f' = r"
    by (simp add: rd_bind_def)
qed

lemma reads_if:
  assumes "c \<Longrightarrow> reads left dec x bs" and "\<not> c \<Longrightarrow> x = old"
  shows "reads left (rd_if c dec old) x (if c then bs else [])"
  using assms by (simp add: rd_if_def reads_return)

lemma reads_words:
  assumes "reader_laws R"
  shows "reads (unread R) (nextUint8 R) a (be_of_word a)"
    and "reads (unread R) (nextUint16 R) b (be_of_word b)"
    and "reads (unread R) (nextUint32 R) c (be_of_word c)"
    and "reads (unread R) (nextUint64 R) d (be_of_word d)"
  using assms by (simp_all add: reader_laws_def)

lemma reads_data: "reader_laws R \<Longrightarrow> length d = unat n \<Longrightarrow> reads (unread R) (nextData R n) d d"
  by (simp add: reader_laws_def)

subsection \<open>The codec interface\<close>

text \<open>
  What a composite value relies on for its parts: a part that is \<open>ok\<close> is read back from the octets it
  fills in, and its announced size is their number.
\<close>

locale field_codec =
  fixes left :: "'f \<Rightarrow> octets"
    and fill :: "'a \<Rightarrow> octets"
    and decode :: "'f \<Rightarrow> ('a \<times> 'f) option"
    and sz :: "'a \<Rightarrow> nat"
    and ok :: "'a \<Rightarrow> bool"
  assumes decode_fill: "ok x \<Longrightarrow> reads left decode x (fill x)"
    and size_fill: "ok x \<Longrightarrow> length (fill x) = sz x"
begin

lemma decode_optional:
  "(c \<Longrightarrow> ok x) \<Longrightarrow> (\<not> c \<Longrightarrow> x = old) \<Longrightarrow>
   reads left (rd_if c decode old) x (if c then fill x else [])"
  by (rule reads_if) (simp_all add: decode_fill)

lemma size_optional: "(c \<Longrightarrow> ok x) \<Longrightarrow> length (if c then fill x else []) = (if c then sz x else 0)"
  by (simp add: size_fill)

lemma round_trip: "ok x \<Longrightarrow> left f = fill x \<Longrightarrow> \<exists>f'. decode f = Some (x, f') \<and> left f' = []"
  using decode_fill [of x] unfolding reads_def by simp

end

subsection \<open>NumericField\<close>

definition Numeric_fill :: "'a::len word \<Rightarrow> octets" where
  "Numeric_fill v = add_word v []"

definition Numeric_size :: "'a::len word \<Rightarrow> nat" where
  "Numeric_size v = LENGTH('a) div 8"

text \<open>
  The cast operators of a field: a signed value is sign extended, an unsigned one zero extended, and
  a narrower target truncates.
\<close>

definition Numeric_cast :: "bool \<Rightarrow> 'a::len word \<Rightarrow> 'b::len word" where
  "Numeric_cast sgnd v = (if sgnd then scast v else ucast v)"

interpretation uoctet: field_codec "unread R" Numeric_fill "nextUint8 R" Numeric_size "\<lambda>w. reader_laws R" for R
  by unfold_locales (simp_all add: Numeric_fill_def Numeric_size_def add_word_def reads_words [simplified])

interpretation ushort: field_codec "unread R" Numeric_fill "nextUint16 R" Numeric_size "\<lambda>w. reader_laws R" for R
  by unfold_locales (simp_all add: Numeric_fill_def Numeric_size_def add_word_def reads_words)

interpretation ulong: field_codec "unread R" Numeric_fill "nextUint32 R" Numeric_size "\<lambda>w. reader_laws R" for R
  by unfold_locales (simp_all add: Numeric_fill_def Numeric_size_def add_word_def reads_words)

interpretation ulonglong: field_codec "unread R" Numeric_fill "nextUint64 R" Numeric_size "\<lambda>w. reader_laws R" for R
  by unfold_locales (simp_all add: Numeric_fill_def Numeric_size_def add_word_def reads_words)

subsection \<open>StringField\<close>

text \<open>
  A string is written as its length, converted to the type of the length field, and its octets. The
  two instances are \<open>ShortString\<close> (length in 8 bits) and \<open>LongString\<close> (32 bits).
\<close>

definition ShortString_fill :: "octets \<Rightarrow> octets" where
  "ShortString_fill s = add_block s (Numeric_fill (of_nat (length s) :: u8))"

definition LongString_fill :: "octets \<Rightarrow> octets" where
  "LongString_fill s = add_block s (Numeric_fill (of_nat (length s) :: u32))"

definition ShortString_size :: "octets \<Rightarrow> nat" where
  "ShortString_size s = Numeric_size (of_nat (length s) :: u8) + length s"

definition LongString_size :: "octets \<Rightarrow> nat" where
  "LongString_size s = Numeric_size (of_nat (length s) :: u32) + length s"

definition ShortString_decode :: "'f frame_reader \<Rightarrow> 'f \<Rightarrow> (octets \<times> 'f) option" where
  "ShortString_decode R = rd_bind (nextUint8 R) (\<lambda>n. nextData R (ucast n))"

definition LongString_decode :: "'f frame_reader \<Rightarrow> 'f \<Rightarrow> (octets \<times> 'f) option" where
  "LongString_decode R = rd_bind (nextUint32 R) (\<lambda>n. nextData R n)"

definition short_ok :: "octets \<Rightarrow> bool" where
  "short_ok s \<longleftrightarrow> length s < 256"

definition long_ok :: "octets \<Rightarrow> bool" where
  "long_ok s \<longleftrightarrow> length s < 2 ^ 32"

lemma ShortString_reads:
  assumes "reader_laws R" and "short_ok s"
  shows "reads (unread R) (ShortString_decode R) s (ShortString_fill s)"
proof -
  have n: "unat (ucast (of_nat (length s) :: u8) :: u32) = length s"
    using assms(2) by (simp add: short_ok_def unsigned_ucast_eq unat_of_nat take_bit_eq_mod)
  show ?thesis
    unfolding ShortString_decode_def ShortString_fill_def add_block_def
    by (rule reads_bind [OF uoctet.decode_fill [OF assms(1)]])
      (rule reads_data [OF assms(1)], simp only: n)
qed

lemma LongString_reads:
  assumes "reader_laws R" and "long_ok s"
  shows "reads (unread R) (LongString_decode R) s (LongString_fill s)"
proof -
  have n: "unat (of_nat (length s) :: u32) = length s"
    using assms(2) by (simp add: long_ok_def unat_of_nat)
  show ?thesis
    unfolding LongString_decode_def LongString_fill_def add_block_def
    by (rule reads_bind [OF ulong.decode_fill [OF assms(1)]])
      (rule reads_data [OF assms(1)], simp only: n)
qed

interpretation shortstr: field_codec "unread R" ShortString_fill "ShortString_decode R" ShortString_size
    "\<lambda>s. reader_laws R \<and> short_ok s" for R
  by (unfold_locales, use ShortString_reads in blast)
    (simp_all add: ShortString_fill_def ShortString_size_def Numeric_fill_def
      Numeric_size_def add_block_def add_word_def)

interpretation longstr: field_codec "unread R" LongString_fill "LongString_decode R" LongString_size
    "\<lambda>s. reader_laws R \<and> long_ok s" for R
  by (unfold_locales, use LongString_reads in blast)
    (simp_all add: LongString_fill_def LongString_size_def Numeric_fill_def
      Numeric_size_def add_block_def add_word_def)

subsection \<open>DecimalField\<close>

record decimal_field =
  dec_places :: u8
  dec_number :: u32

definition Decimal_fill :: "decimal_field \<Rightarrow> octets" where
  "Decimal_fill d = add_word (dec_number d) (add_word (dec_places d) [])"

definition Decimal_decode :: "'f frame_reader \<Rightarrow> 'f \<Rightarrow> (decimal_field \<times> 'f) option" where
  "Decimal_decode R =
     rd_bind (nextUint8 R) (\<lambda>p. rd_bind (nextUint32 R) (\<lambda>n.
       rd_return \<lparr>dec_places = p, dec_number = n\<rparr>))"

definition Decimal_size :: "decimal_field \<Rightarrow> nat" where
  "Decimal_size d = 5"

definition Decimal_eq :: "decimal_field \<Rightarrow> decimal_field \<Rightarrow> bool" where
  "Decimal_eq a b \<longleftrightarrow> dec_number a = dec_number b \<and> dec_places a = dec_places b"

lemma Decimal_eq_iff: "Decimal_eq a b \<longleftrightarrow> a = b"
  by (cases a; cases b) (auto simp: Decimal_eq_def)

lemma Decimal_reads:
  assumes "reader_laws R"
  shows "reads (unread R) (Decimal_decode R) d (Decimal_fill d)"
proof -
  have "reads (unread R) (Decimal_decode R) d (be_of_word (dec_places d) @ be_of_word (dec_number d) @ [])"
    unfolding Decimal_decode_def
    by (rule reads_bind [OF reads_words(1) [OF assms]], rule reads_bind [OF reads_words(3) [OF assms]])
      (cases d, simp add: reads_return)
  then show ?thesis by (simp add: Decimal_fill_def add_word_def)
qed

interpretation decimal: field_codec "unread R" Decimal_fill "Decimal_decode R" Decimal_size
    "\<lambda>d. reader_laws R" for R
  by (unfold_locales, erule Decimal_reads) (simp_all add: Decimal_fill_def Decimal_size_def add_word_def)

end
