(* ===== verification/Amqp_Deferred.thy ===== *)
theory Amqp_Deferred
  imports Amqp_Wire
begin

section \<open>AMQP: the deferred results of channel operations\<close>

text \<open>
  \<open>include/amqpcpp/\<close>: \<open>deferred.h\<close>, \<open>deferredqueue.h\<close>, \<open>deferreddelete.h\<close>, \<open>deferredcancel.h\<close>,
  \<open>deferredconfirm.h\<close>, \<open>deferredreceiver.h\<close>, \<open>deferredextreceiver.h\<close>, \<open>deferredget.h\<close>,
  \<open>deferredconsumer.h\<close>, \<open>deferredpublisher.h\<close>. An operation of a channel returns a deferred object in
  which the caller installs callbacks. A callback is a number that names the caller's function; an
  operation yields the calls it makes, in order. An object is linked to the next pending one by its
  address.
\<close>

type_synonym callback = nat

datatype user_call =
    Success_call callback
  | Error_call callback string
  | Finalize_call callback
  | Queue_call callback octets u32 u32
  | Delete_call callback u32

record deferred =
  df_finalizeCallback :: "callback option"
  df_successCallback :: "callback option"
  df_errorCallback :: "callback option"
  df_next :: "addr option"
  df_failed :: bool

definition new_Deferred :: "bool \<Rightarrow> deferred" where
  "new_Deferred failed =
     \<lparr>df_finalizeCallback = None, df_successCallback = None, df_errorCallback = None,
      df_next = None, df_failed = failed\<rparr>"

definition Deferred_reportSuccess :: "'a deferred_scheme \<Rightarrow> user_call list" where
  "Deferred_reportSuccess d = (case df_successCallback d of None \<Rightarrow> [] | Some cb \<Rightarrow> [Success_call cb])"

definition Deferred_reportError :: "string \<Rightarrow> 'a deferred_scheme \<Rightarrow> 'a deferred_scheme \<times> user_call list" where
  "Deferred_reportError msg d =
     (let d' = d\<lparr>df_failed := True\<rparr>
      in (d', case df_errorCallback d' of None \<Rightarrow> [] | Some cb \<Rightarrow> [Error_call cb msg]))"

definition Deferred_add :: "addr \<Rightarrow> 'a deferred_scheme \<Rightarrow> 'a deferred_scheme" where
  "Deferred_add a d = d\<lparr>df_next := Some a\<rparr>"

definition Deferred_ok :: "'a deferred_scheme \<Rightarrow> bool" where
  "Deferred_ok d \<longleftrightarrow> \<not> df_failed d"

definition Deferred_destroy :: "'a deferred_scheme \<Rightarrow> user_call list" where
  "Deferred_destroy d = (case df_finalizeCallback d of None \<Rightarrow> [] | Some cb \<Rightarrow> [Finalize_call cb])"

definition Deferred_onSuccess :: "callback \<Rightarrow> 'a deferred_scheme \<Rightarrow> 'a deferred_scheme" where
  "Deferred_onSuccess cb d = d\<lparr>df_successCallback := Some cb\<rparr>"

definition Deferred_onError :: "callback \<Rightarrow> 'a deferred_scheme \<Rightarrow> 'a deferred_scheme \<times> user_call list" where
  "Deferred_onError cb d =
     (d\<lparr>df_errorCallback := Some cb\<rparr>,
      if df_failed d then [Error_call cb ''Frame could not be sent''] else [])"

definition Deferred_onFinalize :: "callback \<Rightarrow> 'a deferred_scheme \<Rightarrow> 'a deferred_scheme \<times> user_call list" where
  "Deferred_onFinalize cb d =
     (d\<lparr>df_finalizeCallback := Some cb\<rparr>, if df_failed d then [Finalize_call cb] else [])"

subsection \<open>The kinds of deferred objects\<close>

record deferred_queue = deferred +
  dq_queueCallback :: "callback option"

record deferred_delete = deferred +
  dd_deleteCallback :: "callback option"

record deferred_cancel = deferred +
  dc_channel :: addr
  dc_cancelCallback :: "callback option"

record deferred_confirm = deferred +
  dk_ackCallback :: "callback option"
  dk_nackCallback :: "callback option"

definition new_DeferredQueue :: "bool \<Rightarrow> deferred_queue" where
  "new_DeferredQueue failed = deferred.extend (new_Deferred failed) \<lparr>dq_queueCallback = None\<rparr>"

definition new_DeferredDelete :: "bool \<Rightarrow> deferred_delete" where
  "new_DeferredDelete failed = deferred.extend (new_Deferred failed) \<lparr>dd_deleteCallback = None\<rparr>"

definition new_DeferredCancel :: "addr \<Rightarrow> bool \<Rightarrow> deferred_cancel" where
  "new_DeferredCancel ch failed =
     deferred.extend (new_Deferred failed) \<lparr>dc_channel = ch, dc_cancelCallback = None\<rparr>"

definition new_DeferredConfirm :: "bool \<Rightarrow> deferred_confirm" where
  "new_DeferredConfirm failed =
     deferred.extend (new_Deferred failed) \<lparr>dk_ackCallback = None, dk_nackCallback = None\<rparr>"

definition DeferredQueue_onSuccess :: "callback \<Rightarrow> deferred_queue \<Rightarrow> deferred_queue" where
  "DeferredQueue_onSuccess cb d = d\<lparr>dq_queueCallback := Some cb\<rparr>"

definition DeferredDelete_onSuccess :: "callback \<Rightarrow> deferred_delete \<Rightarrow> deferred_delete" where
  "DeferredDelete_onSuccess cb d = d\<lparr>dd_deleteCallback := Some cb\<rparr>"

definition DeferredCancel_onSuccess :: "callback \<Rightarrow> deferred_cancel \<Rightarrow> deferred_cancel" where
  "DeferredCancel_onSuccess cb d = d\<lparr>dc_cancelCallback := Some cb\<rparr>"

definition onAck :: "callback \<Rightarrow> deferred_confirm \<Rightarrow> deferred_confirm" where
  "onAck cb d = d\<lparr>dk_ackCallback := Some cb\<rparr>"

definition onNack :: "callback \<Rightarrow> deferred_confirm \<Rightarrow> deferred_confirm" where
  "onNack cb d = d\<lparr>dk_nackCallback := Some cb\<rparr>"

definition DeferredQueue_reportSuccess :: "octets \<Rightarrow> u32 \<Rightarrow> u32 \<Rightarrow> deferred_queue \<Rightarrow> user_call list" where
  "DeferredQueue_reportSuccess name messages consumers d =
     (case dq_queueCallback d of
        None \<Rightarrow> Deferred_reportSuccess d
      | Some cb \<Rightarrow> [Queue_call cb name messages consumers])"

definition DeferredDelete_reportSuccess :: "u32 \<Rightarrow> deferred_delete \<Rightarrow> user_call list" where
  "DeferredDelete_reportSuccess messages d =
     (case dd_deleteCallback d of
        None \<Rightarrow> Deferred_reportSuccess d
      | Some cb \<Rightarrow> [Delete_call cb messages])"

text \<open>Receivers of messages: the slots that a consumer, a get and a publisher fill.\<close>

record deferred_receiver = deferred +
  dr_channel :: addr
  dr_bodySize :: u64
  dr_startCallback :: "callback option"
  dr_sizeCallback :: "callback option"
  dr_headerCallback :: "callback option"
  dr_dataCallback :: "callback option"

record deferred_ext = deferred_receiver +
  de_deliveryTag :: u64
  de_redelivered :: bool
  de_messageCallback :: "callback option"
  de_deliveredCallback :: "callback option"

record deferred_get = deferred_ext +
  dg_emptyCallback :: "callback option"
  dg_countCallback :: "callback option"

record deferred_consumer = deferred_ext +
  dn_consumeCallback :: "callback option"

record deferred_publisher = deferred_receiver +
  dp_code :: "16 word"
  dp_description :: octets
  dp_bounceCallback :: "callback option"
  dp_beginCallback :: "callback option"
  dp_completeCallback :: "callback option"

definition new_DeferredReceiver :: "bool \<Rightarrow> addr \<Rightarrow> deferred_receiver" where
  "new_DeferredReceiver failed ch =
     deferred.extend (new_Deferred failed)
       \<lparr>dr_channel = ch, dr_bodySize = 0, dr_startCallback = None, dr_sizeCallback = None,
        dr_headerCallback = None, dr_dataCallback = None\<rparr>"

definition new_DeferredExtReceiver :: "bool \<Rightarrow> addr \<Rightarrow> deferred_ext" where
  "new_DeferredExtReceiver failed ch =
     deferred_receiver.extend (new_DeferredReceiver failed ch)
       \<lparr>de_deliveryTag = 0, de_redelivered = False, de_messageCallback = None,
        de_deliveredCallback = None\<rparr>"

definition new_DeferredGet :: "addr \<Rightarrow> bool \<Rightarrow> deferred_get" where
  "new_DeferredGet ch failed =
     deferred_ext.extend (new_DeferredExtReceiver failed ch)
       \<lparr>dg_emptyCallback = None, dg_countCallback = None\<rparr>"

definition new_DeferredConsumer :: "addr \<Rightarrow> bool \<Rightarrow> deferred_consumer" where
  "new_DeferredConsumer ch failed =
     deferred_ext.extend (new_DeferredExtReceiver failed ch) \<lparr>dn_consumeCallback = None\<rparr>"

definition new_DeferredPublisher :: "addr \<Rightarrow> bool \<Rightarrow> deferred_publisher" where
  "new_DeferredPublisher ch failed =
     deferred_receiver.extend (new_DeferredReceiver failed ch)
       \<lparr>dp_code = 0, dp_description = [], dp_bounceCallback = None, dp_beginCallback = None,
        dp_completeCallback = None\<rparr>"

text \<open>
  The setters of a get and of a consumer; several names store the same slot. \<open>DeferredGet::onError\<close>
  hides the one of the base class and only stores the callback.
\<close>

definition onMessage :: "callback \<Rightarrow> 'a deferred_ext_scheme \<Rightarrow> 'a deferred_ext_scheme" where
  "onMessage cb d = d\<lparr>de_messageCallback := Some cb\<rparr>"

definition onDelivered :: "callback \<Rightarrow> 'a deferred_ext_scheme \<Rightarrow> 'a deferred_ext_scheme" where
  "onDelivered cb d = d\<lparr>de_deliveredCallback := Some cb\<rparr>"

definition onStart :: "callback \<Rightarrow> 'a deferred_receiver_scheme \<Rightarrow> 'a deferred_receiver_scheme" where
  "onStart cb d = d\<lparr>dr_startCallback := Some cb\<rparr>"

definition onSize :: "callback \<Rightarrow> 'a deferred_receiver_scheme \<Rightarrow> 'a deferred_receiver_scheme" where
  "onSize cb d = d\<lparr>dr_sizeCallback := Some cb\<rparr>"

definition onHeaders :: "callback \<Rightarrow> 'a deferred_receiver_scheme \<Rightarrow> 'a deferred_receiver_scheme" where
  "onHeaders cb d = d\<lparr>dr_headerCallback := Some cb\<rparr>"

definition onData :: "callback \<Rightarrow> 'a deferred_receiver_scheme \<Rightarrow> 'a deferred_receiver_scheme" where
  "onData cb d = d\<lparr>dr_dataCallback := Some cb\<rparr>"

definition DeferredGet_onError :: "callback \<Rightarrow> deferred_get \<Rightarrow> deferred_get \<times> user_call list" where
  "DeferredGet_onError cb d = (d\<lparr>df_errorCallback := Some cb\<rparr>, [])"

definition onEmpty :: "callback \<Rightarrow> deferred_get \<Rightarrow> deferred_get" where
  "onEmpty cb d = d\<lparr>dg_emptyCallback := Some cb\<rparr>"

definition onCount :: "callback \<Rightarrow> deferred_get \<Rightarrow> deferred_get" where
  "onCount cb d = d\<lparr>dg_countCallback := Some cb\<rparr>"

definition DeferredConsumer_onSuccess :: "callback \<Rightarrow> deferred_consumer \<Rightarrow> deferred_consumer" where
  "DeferredConsumer_onSuccess cb d = d\<lparr>dn_consumeCallback := Some cb\<rparr>"

definition onBounced :: "callback \<Rightarrow> deferred_publisher \<Rightarrow> deferred_publisher" where
  "onBounced cb d = d\<lparr>dp_bounceCallback := Some cb\<rparr>"

definition Publisher_onBegin :: "callback \<Rightarrow> deferred_publisher \<Rightarrow> deferred_publisher" where
  "Publisher_onBegin cb d = d\<lparr>dp_beginCallback := Some cb\<rparr>"

definition Publisher_onComplete :: "callback \<Rightarrow> deferred_publisher \<Rightarrow> deferred_publisher" where
  "Publisher_onComplete cb d = d\<lparr>dp_completeCallback := Some cb\<rparr>"

text \<open>
  The setters of a consumer (several names for one slot), and those of a publisher and of a confirm
  that store a slot of a base class.
\<close>

definition DeferredQueue_onSuccess_plain :: "callback \<Rightarrow> deferred_queue \<Rightarrow> deferred_queue" where
  "DeferredQueue_onSuccess_plain cb d = Deferred_onSuccess cb d"

definition DeferredConfirm_onSuccess :: "callback \<Rightarrow> deferred_confirm \<Rightarrow> deferred_confirm" where
  "DeferredConfirm_onSuccess cb d = Deferred_onSuccess cb d"

definition Consumer_onSuccess_plain :: "callback \<Rightarrow> deferred_consumer \<Rightarrow> deferred_consumer" where
  "Consumer_onSuccess_plain cb d = Deferred_onSuccess cb d"

definition Consumer_onReceived :: "callback \<Rightarrow> deferred_consumer \<Rightarrow> deferred_consumer" where
  "Consumer_onReceived cb d = d\<lparr>de_messageCallback := Some cb\<rparr>"

definition Consumer_onMessage :: "callback \<Rightarrow> deferred_consumer \<Rightarrow> deferred_consumer" where
  "Consumer_onMessage cb d = d\<lparr>de_messageCallback := Some cb\<rparr>"

definition Consumer_onBegin :: "callback \<Rightarrow> deferred_consumer \<Rightarrow> deferred_consumer" where
  "Consumer_onBegin cb d = d\<lparr>dr_startCallback := Some cb\<rparr>"

definition Consumer_onStart :: "callback \<Rightarrow> deferred_consumer \<Rightarrow> deferred_consumer" where
  "Consumer_onStart cb d = d\<lparr>dr_startCallback := Some cb\<rparr>"

definition Consumer_onSize :: "callback \<Rightarrow> deferred_consumer \<Rightarrow> deferred_consumer" where
  "Consumer_onSize cb d = d\<lparr>dr_sizeCallback := Some cb\<rparr>"

definition Consumer_onHeaders :: "callback \<Rightarrow> deferred_consumer \<Rightarrow> deferred_consumer" where
  "Consumer_onHeaders cb d = d\<lparr>dr_headerCallback := Some cb\<rparr>"

definition Consumer_onData :: "callback \<Rightarrow> deferred_consumer \<Rightarrow> deferred_consumer" where
  "Consumer_onData cb d = d\<lparr>dr_dataCallback := Some cb\<rparr>"

definition Consumer_onComplete :: "callback \<Rightarrow> deferred_consumer \<Rightarrow> deferred_consumer" where
  "Consumer_onComplete cb d = d\<lparr>de_deliveredCallback := Some cb\<rparr>"

definition Consumer_onDelivered :: "callback \<Rightarrow> deferred_consumer \<Rightarrow> deferred_consumer" where
  "Consumer_onDelivered cb d = d\<lparr>de_deliveredCallback := Some cb\<rparr>"

definition Publisher_onSize :: "callback \<Rightarrow> deferred_publisher \<Rightarrow> deferred_publisher" where
  "Publisher_onSize cb d = d\<lparr>dr_sizeCallback := Some cb\<rparr>"

definition Publisher_onHeaders :: "callback \<Rightarrow> deferred_publisher \<Rightarrow> deferred_publisher" where
  "Publisher_onHeaders cb d = d\<lparr>dr_headerCallback := Some cb\<rparr>"

definition Publisher_onData :: "callback \<Rightarrow> deferred_publisher \<Rightarrow> deferred_publisher" where
  "Publisher_onData cb d = d\<lparr>dr_dataCallback := Some cb\<rparr>"

text \<open>A chain of setter calls on a consumer, and the slot each name stores.\<close>

datatype consumer_setter =
    Set_success | Set_consume | Set_received | Set_message | Set_begin | Set_start | Set_size
  | Set_headers | Set_data | Set_complete | Set_delivered

fun consumer_set :: "consumer_setter \<Rightarrow> callback \<Rightarrow> deferred_consumer \<Rightarrow> deferred_consumer" where
  "consumer_set Set_success = Consumer_onSuccess_plain"
| "consumer_set Set_consume = DeferredConsumer_onSuccess"
| "consumer_set Set_received = Consumer_onReceived"
| "consumer_set Set_message = Consumer_onMessage"
| "consumer_set Set_begin = Consumer_onBegin"
| "consumer_set Set_start = Consumer_onStart"
| "consumer_set Set_size = Consumer_onSize"
| "consumer_set Set_headers = Consumer_onHeaders"
| "consumer_set Set_data = Consumer_onData"
| "consumer_set Set_complete = Consumer_onComplete"
| "consumer_set Set_delivered = Consumer_onDelivered"

datatype consumer_slot =
    Slot_success | Slot_consume | Slot_message | Slot_start | Slot_size | Slot_header | Slot_data
  | Slot_delivered

fun slot_of :: "consumer_setter \<Rightarrow> consumer_slot" where
  "slot_of Set_success = Slot_success"
| "slot_of Set_consume = Slot_consume"
| "slot_of Set_received = Slot_message"
| "slot_of Set_message = Slot_message"
| "slot_of Set_begin = Slot_start"
| "slot_of Set_start = Slot_start"
| "slot_of Set_size = Slot_size"
| "slot_of Set_headers = Slot_header"
| "slot_of Set_data = Slot_data"
| "slot_of Set_complete = Slot_delivered"
| "slot_of Set_delivered = Slot_delivered"

fun slot_value :: "consumer_slot \<Rightarrow> deferred_consumer \<Rightarrow> callback option" where
  "slot_value Slot_success d = df_successCallback d"
| "slot_value Slot_consume d = dn_consumeCallback d"
| "slot_value Slot_message d = de_messageCallback d"
| "slot_value Slot_start d = dr_startCallback d"
| "slot_value Slot_size d = dr_sizeCallback d"
| "slot_value Slot_header d = dr_headerCallback d"
| "slot_value Slot_data d = dr_dataCallback d"
| "slot_value Slot_delivered d = de_deliveredCallback d"

lemmas consumer_setters =
  Consumer_onSuccess_plain_def DeferredConsumer_onSuccess_def Consumer_onReceived_def
  Consumer_onMessage_def Consumer_onBegin_def Consumer_onStart_def Consumer_onSize_def
  Consumer_onHeaders_def Consumer_onData_def Consumer_onComplete_def Consumer_onDelivered_def
  Deferred_onSuccess_def

lemma consumer_set_slot:
  "slot_value s (consumer_set k cb d) = (if slot_of k = s then Some cb else slot_value s d)"
  by (cases k; cases s) (simp_all add: consumer_setters)

lemmas deferred_defs =
  new_Deferred_def new_DeferredQueue_def new_DeferredDelete_def new_DeferredReceiver_def
  new_DeferredExtReceiver_def new_DeferredGet_def new_DeferredConsumer_def new_DeferredPublisher_def
  Deferred_onError_def Deferred_onFinalize_def Deferred_reportError_def Deferred_destroy_def
  DeferredGet_onError_def deferred.defs deferred_receiver.defs deferred_ext.defs

subsection \<open>Properties\<close>

text \<open>
  An error is reported exactly once to a callback installed before or after it happened, for every
  kind of deferred object but one: on a get that already failed, installing the error callback
  reports nothing, and nothing later does.
\<close>

theorem failed_get_error_is_lost:
  "snd (DeferredGet_onError cb (new_DeferredGet ch True)) = [] \<and>
   snd (Deferred_onError cb (new_DeferredConsumer ch True)) = [Error_call cb ''Frame could not be sent''] \<and>
   Deferred_destroy (fst (DeferredGet_onError cb (new_DeferredGet ch True))) = [] \<and>
   snd (Deferred_reportError msg (fst (Deferred_onError cb (new_DeferredConsumer ch False)))) = [Error_call cb msg]"
  by (simp add: deferred_defs Let_def)

text \<open>
  The finalize callback runs once when the object is destroyed, and it ran once more at the time it
  was installed if the object had already failed.
\<close>

theorem finalize_calls:
  "let (d', calls) = Deferred_onFinalize cb d
   in calls @ Deferred_destroy d' = (if Deferred_ok d then [Finalize_call cb] else [Finalize_call cb, Finalize_call cb])"
  by (simp add: deferred_defs Deferred_ok_def)

text \<open>
  A queue declaration reports to the specialised callback if there is one and to the plain one
  otherwise, never to both and never twice.
\<close>

theorem queue_success_dispatch:
  "DeferredQueue_reportSuccess name m c d =
     (case (dq_queueCallback d, df_successCallback d) of
        (Some cb, _) \<Rightarrow> [Queue_call cb name m c]
      | (None, Some cb) \<Rightarrow> [Success_call cb]
      | (None, None) \<Rightarrow> [])"
  by (simp add: DeferredQueue_reportSuccess_def Deferred_reportSuccess_def split: option.split)

text \<open>
  The callbacks of a consumer: after any chain of setter calls, a slot holds the callback of the last
  call under any of its names, whatever was called for the other slots.
\<close>

theorem consumer_slots_last_call:
  "slot_value s (fold (\<lambda>(k, cb). consumer_set k cb) calls d) =
     (case filter (\<lambda>(k, cb). slot_of k = s) (rev calls) of
        [] \<Rightarrow> slot_value s d
      | (k, cb) # _ \<Rightarrow> Some cb)"
  by (induction calls rule: rev_induct) (auto simp: consumer_set_slot split: list.split)

end
