(* ===== verification/Amqp_Channel.thy ===== *)
theory Amqp_Channel
  imports Amqp_Deferred
begin

section \<open>AMQP: the channel\<close>

text \<open>
  \<open>include/amqpcpp/channelimpl.h\<close>: the state of a channel and the operations that are implemented in
  the header. Pending operations form a linked list of deferred objects from the oldest to the
  newest; \<open>ch_heap\<close> is the store of these objects. What the callbacks of the application do to the
  channel is the argument \<open>user\<close>: it gets the calls and the channel and yields the channel after
  them, or \<open>None\<close> if they destroyed it (which the \<open>Monitor\<close> of the code detects). The functions of
  the prebuilt library are arguments too: \<open>lib\<close> is the \<open>reportSuccess\<close> that a cancel, a get or a
  consumer overrides there, with all it does to the channel and the calls it makes,
  \<open>onSynchronized\<close> and \<open>reportError\<close> are the functions of these names.
\<close>

datatype channel_state = Ch_connected | Ch_ready | Ch_closing | Ch_closed

datatype deferred_obj =
    Plain deferred
  | Queue_obj deferred_queue
  | Delete_obj deferred_delete
  | Confirm_obj deferred_confirm
  | Cancel_obj deferred_cancel
  | Get_obj deferred_get
  | Consumer_obj deferred_consumer

datatype success_args =
    S_done
  | S_queue octets u32 u32
  | S_count u32
  | S_get u32 u64 bool
  | S_name octets

text \<open>The virtual \<open>next\<close> and \<open>reportSuccess\<close> of an object, and which overloads are overridden in the library.\<close>

fun obj_next :: "deferred_obj \<Rightarrow> addr option" where
  "obj_next (Plain d) = df_next d"
| "obj_next (Queue_obj d) = df_next d"
| "obj_next (Delete_obj d) = df_next d"
| "obj_next (Confirm_obj d) = df_next d"
| "obj_next (Cancel_obj d) = df_next d"
| "obj_next (Get_obj d) = df_next d"
| "obj_next (Consumer_obj d) = df_next d"

fun obj_overridden :: "deferred_obj \<Rightarrow> success_args \<Rightarrow> bool" where
  "obj_overridden (Cancel_obj d) s = (case s of S_name tag \<Rightarrow> True | _ \<Rightarrow> False)"
| "obj_overridden (Get_obj d) s = (case s of S_get m dt r \<Rightarrow> True | S_done \<Rightarrow> True | _ \<Rightarrow> False)"
| "obj_overridden (Consumer_obj d) s = (case s of S_name tag \<Rightarrow> True | _ \<Rightarrow> False)"
| "obj_overridden _ s = False"

text \<open>The default of every overload calls the one without arguments.\<close>

fun obj_reportSuccess :: "deferred_obj \<Rightarrow> success_args \<Rightarrow> user_call list" where
  "obj_reportSuccess (Plain d) s = Deferred_reportSuccess d"
| "obj_reportSuccess (Queue_obj d) s =
     (case s of S_queue n m c \<Rightarrow> DeferredQueue_reportSuccess n m c d | _ \<Rightarrow> Deferred_reportSuccess d)"
| "obj_reportSuccess (Delete_obj d) s =
     (case s of S_count m \<Rightarrow> DeferredDelete_reportSuccess m d | _ \<Rightarrow> Deferred_reportSuccess d)"
| "obj_reportSuccess (Confirm_obj d) s = Deferred_reportSuccess d"
| "obj_reportSuccess (Cancel_obj d) s = Deferred_reportSuccess d"
| "obj_reportSuccess (Get_obj d) s = Deferred_reportSuccess d"
| "obj_reportSuccess (Consumer_obj d) s = Deferred_reportSuccess d"

record channel =
  ch_connection :: bool
  ch_readyCallback :: "callback option"
  ch_errorCallback :: "callback option"
  ch_publisher :: "addr option"
  ch_confirm :: "addr option"
  ch_consumers :: "octets \<rightharpoonup> addr"
  ch_oldest :: "addr option"
  ch_newest :: "addr option"
  ch_id :: u16
  ch_state :: channel_state
  ch_queue :: "(bool \<times> octets) list"
  ch_synchronous :: bool
  ch_receiver :: "addr option"
  ch_heap :: "addr \<Rightarrow> deferred_obj"

type_synonym user = "user_call list \<Rightarrow> channel \<Rightarrow> channel option"
type_synonym lib_report = "addr \<Rightarrow> success_args \<Rightarrow> channel \<Rightarrow> channel option \<times> user_call list"

definition detach :: "channel \<Rightarrow> channel" where
  "detach ch = ch\<lparr>ch_connection := False\<rparr>"

definition onReady :: "callback \<Rightarrow> channel \<Rightarrow> channel \<times> user_call list" where
  "onReady cb ch =
     (ch\<lparr>ch_readyCallback := Some cb\<rparr>, if ch_state ch = Ch_ready then [Success_call cb] else [])"

definition ch_usable :: "channel \<Rightarrow> bool" where
  "ch_usable ch \<longleftrightarrow> ch_state ch = Ch_connected \<or> ch_state ch = Ch_ready"

definition ch_waiting :: "channel \<Rightarrow> bool" where
  "ch_waiting ch \<longleftrightarrow> ch_synchronous ch \<or> ch_queue ch \<noteq> []"

definition leave_synchronous :: "channel \<Rightarrow> channel" where
  "leave_synchronous ch = (if ch_synchronous ch \<and> ch_queue ch = [] then ch\<lparr>ch_synchronous := False\<rparr> else ch)"

definition ch_reportReady :: "user \<Rightarrow> (channel \<Rightarrow> channel) \<Rightarrow> channel \<Rightarrow> channel option \<times> user_call list" where
  "ch_reportReady user onSynchronized ch =
     (let ch1 = (if ch_state ch = Ch_connected then ch\<lparr>ch_state := Ch_ready\<rparr> else ch);
          ch2 = leave_synchronous ch1;
          (calls, after) =
            (case ch_readyCallback ch2 of
               None \<Rightarrow> ([], Some ch2)
             | Some cb \<Rightarrow> ([Success_call cb], user [Success_call cb] ch2))
      in (map_option onSynchronized after, calls))"

text \<open>A report to the object at an address.\<close>

definition report_obj :: "user \<Rightarrow> lib_report \<Rightarrow> addr \<Rightarrow> success_args \<Rightarrow> channel \<Rightarrow> channel option \<times> user_call list" where
  "report_obj user lib a s ch =
     (if obj_overridden (ch_heap ch a) s then lib a s ch
      else let calls = obj_reportSuccess (ch_heap ch a) s in (user calls ch, calls))"

definition ch_reportSuccess ::
  "user \<Rightarrow> lib_report \<Rightarrow> success_args \<Rightarrow> channel \<Rightarrow> bool \<times> channel option \<times> user_call list" where
  "ch_reportSuccess user lib s ch =
     (case ch_oldest ch of
        None \<Rightarrow> (True, Some ch, [])
      | Some cb \<Rightarrow>
          (case report_obj user lib cb s (leave_synchronous ch) of
             (None, calls) \<Rightarrow> (False, None, calls)
           | (Some ch2, calls) \<Rightarrow>
               let nxt = obj_next (ch_heap ch2 cb);
                   ch3 = ch2\<lparr>ch_oldest := nxt\<rparr>
               in (True, Some (if nxt = None then ch3\<lparr>ch_newest := None\<rparr> else ch3), calls)))"

definition ch_reportClosed ::
  "user \<Rightarrow> lib_report \<Rightarrow> (channel \<Rightarrow> channel option) \<Rightarrow> channel \<Rightarrow>
   bool \<times> channel option \<times> user_call list" where
  "ch_reportClosed user lib reportError ch =
     (case ch_reportSuccess user lib S_done (ch\<lparr>ch_state := Ch_closed\<rparr>) of
        (result, None, calls) \<Rightarrow> (result, None, calls)
      | (result, Some ch', calls) \<Rightarrow> (result, reportError ch', calls))"

definition install_consumer :: "octets \<Rightarrow> addr \<Rightarrow> channel \<Rightarrow> channel" where
  "install_consumer tag a ch = ch\<lparr>ch_consumers := (ch_consumers ch)(tag \<mapsto> a)\<rparr>"

definition install_receiver :: "addr option \<Rightarrow> channel \<Rightarrow> channel" where
  "install_receiver a ch = ch\<lparr>ch_receiver := a\<rparr>"

definition uninstall :: "octets \<Rightarrow> channel \<Rightarrow> channel" where
  "uninstall tag ch = ch\<lparr>ch_consumers := (ch_consumers ch)(tag := None)\<rparr>"

subsection \<open>The list of pending operations\<close>

fun chain :: "(addr \<Rightarrow> deferred_obj) \<Rightarrow> addr option \<Rightarrow> addr list \<Rightarrow> bool" where
  "chain h p [] = (p = None)"
| "chain h p (a # as) = (p = Some a \<and> chain h (obj_next (h a)) as)"

definition pending :: "channel \<Rightarrow> addr list \<Rightarrow> bool" where
  "pending ch as \<longleftrightarrow>
     chain (ch_heap ch) (ch_oldest ch) as \<and> ch_newest ch = (if as = [] then None else Some (last as))"

definition same_pending :: "channel \<Rightarrow> channel \<Rightarrow> bool" where
  "same_pending ch ch' \<longleftrightarrow>
     ch_heap ch' = ch_heap ch \<and> ch_oldest ch' = ch_oldest ch \<and> ch_newest ch' = ch_newest ch"

lemma leave_synchronous_pending [simp]:
  "ch_heap (leave_synchronous ch) = ch_heap ch" "ch_oldest (leave_synchronous ch) = ch_oldest ch"
  "ch_newest (leave_synchronous ch) = ch_newest ch"
  by (simp_all add: leave_synchronous_def)

lemma reportSuccess_pops:
  assumes "ch_oldest ch = Some a"
    and "report_obj user lib a s (leave_synchronous ch) = (Some ch2, calls)"
    and "pending ch2 (a # as)"
  obtains ch3 where "ch_reportSuccess user lib s ch = (True, Some ch3, calls)"
    and "pending ch3 as"
    and "ch3 = ch2\<lparr>ch_oldest := ch_oldest ch3, ch_newest := ch_newest ch3\<rparr>"
proof -
  let ?n = "obj_next (ch_heap ch2 a)"
  have c: "chain (ch_heap ch2) ?n as" "ch_newest ch2 = Some (last (a # as))"
    using assms(3) by (simp_all add: pending_def)
  let ?ch3 = "if ?n = None then (ch2\<lparr>ch_oldest := ?n\<rparr>)\<lparr>ch_newest := None\<rparr> else ch2\<lparr>ch_oldest := ?n\<rparr>"
  have n: "?n = None \<longleftrightarrow> as = []" using c(1) by (cases as) auto
  have "ch_reportSuccess user lib s ch = (True, Some ?ch3, calls)"
    using assms(1,2) by (simp add: ch_reportSuccess_def Let_def)
  moreover have "pending ?ch3 as" using c n by (auto simp: pending_def)
  ultimately show ?thesis by (rule that) simp
qed

text \<open>Linking a new object behind the newest one, as the library does with \<open>Deferred::add\<close>.\<close>

fun obj_add :: "addr \<Rightarrow> deferred_obj \<Rightarrow> deferred_obj" where
  "obj_add a (Plain d) = Plain (Deferred_add a d)"
| "obj_add a (Queue_obj d) = Queue_obj (Deferred_add a d)"
| "obj_add a (Delete_obj d) = Delete_obj (Deferred_add a d)"
| "obj_add a (Confirm_obj d) = Confirm_obj (Deferred_add a d)"
| "obj_add a (Cancel_obj d) = Cancel_obj (Deferred_add a d)"
| "obj_add a (Get_obj d) = Get_obj (Deferred_add a d)"
| "obj_add a (Consumer_obj d) = Consumer_obj (Deferred_add a d)"

lemma obj_next_add [simp]: "obj_next (obj_add a d) = Some a"
  by (cases d) (simp_all add: Deferred_add_def)

lemma chain_cong: "(\<And>a. a \<in> set as \<Longrightarrow> h' a = h a) \<Longrightarrow> chain h' p as = chain h p as"
  by (induction as arbitrary: p) auto

lemma chain_add:
  assumes "chain h p as" "as \<noteq> []" "distinct as" "b \<notin> set as" "obj_next (h b) = None"
  shows "chain (h(last as := obj_add b (h (last as)))) p (as @ [b])"
  using assms
proof (induction as arbitrary: p)
  case Nil
  then show ?case by simp
next
  case (Cons a as)
  show ?case
  proof (cases "as = []")
    case True
    with Cons.prems show ?thesis by auto
  next
    case False
    then have "last as \<noteq> a" using Cons.prems(3) by auto
    with Cons False show ?thesis by auto
  qed
qed

text \<open>
  Successive successes, for an application and library functions that leave the list alone; \<open>lcalls\<close>
  are the calls the library functions make for an object.
\<close>

fun report_all ::
  "user \<Rightarrow> lib_report \<Rightarrow> success_args list \<Rightarrow> channel \<Rightarrow> channel option \<times> user_call list" where
  "report_all user lib [] ch = (Some ch, [])"
| "report_all user lib (s # ss) ch =
     (case ch_reportSuccess user lib s ch of
        (ok, None, calls) \<Rightarrow> (None, calls)
      | (ok, Some ch', calls) \<Rightarrow>
          (case report_all user lib ss ch' of (r, calls') \<Rightarrow> (r, calls @ calls')))"

definition calls_of ::
  "(deferred_obj \<Rightarrow> success_args \<Rightarrow> user_call list) \<Rightarrow> deferred_obj \<Rightarrow> success_args \<Rightarrow> user_call list" where
  "calls_of lcalls d s = (if obj_overridden d s then lcalls d s else obj_reportSuccess d s)"

definition list_neutral ::
  "user \<Rightarrow> lib_report \<Rightarrow> (deferred_obj \<Rightarrow> success_args \<Rightarrow> user_call list) \<Rightarrow> bool" where
  "list_neutral user lib lcalls \<longleftrightarrow>
     (\<forall>calls c. \<exists>c'. user calls c = Some c' \<and> same_pending c c') \<and>
     (\<forall>a s c. \<exists>c'. lib a s c = (Some c', lcalls (ch_heap c a) s) \<and> same_pending c c')"

lemma report_obj_neutral:
  assumes "list_neutral user lib lcalls"
  obtains c' where "report_obj user lib a s c = (Some c', calls_of lcalls (ch_heap c a) s)"
    and "same_pending c c'"
  using assms unfolding list_neutral_def report_obj_def calls_of_def Let_def by (metis (full_types))

lemma report_all_empty:
  assumes "ch_oldest ch = None"
  shows "report_all user lib ss ch = (Some ch, [])"
  using assms by (induction ss) (simp_all add: ch_reportSuccess_def)

lemma report_all_order:
  assumes "list_neutral user lib lcalls" and "pending ch as"
  shows "\<exists>ch'. report_all user lib ss ch =
      (Some ch', concat (map2 (\<lambda>a s. calls_of lcalls (ch_heap ch a) s) as ss)) \<and>
    pending ch' (drop (length ss) as)"
  using assms(2)
proof (induction ss arbitrary: ch as)
  case Nil
  then show ?case by simp
next
  case (Cons s ss)
  show ?case
  proof (cases as)
    case Nil
    with Cons.prems have "ch_oldest ch = None" by (simp add: pending_def)
    with Nil Cons.prems show ?thesis using report_all_empty [of ch user lib "s # ss"] by simp
  next
    case a: (Cons a as')
    let ?calls = "calls_of lcalls (ch_heap ch a) s"
    obtain c' where c': "report_obj user lib a s (leave_synchronous ch) = (Some c', ?calls)"
        "same_pending (leave_synchronous ch) c'"
      using report_obj_neutral [OF assms(1), of a s "leave_synchronous ch"] by auto
    have o: "ch_oldest ch = Some a" using Cons.prems a by (simp add: pending_def)
    have p: "pending c' (a # as')" using Cons.prems a c'(2) by (simp add: pending_def same_pending_def)
    obtain ch3 where ch3: "ch_reportSuccess user lib s ch = (True, Some ch3, ?calls)" "pending ch3 as'"
        "ch3 = c'\<lparr>ch_oldest := ch_oldest ch3, ch_newest := ch_newest ch3\<rparr>"
      by (rule reportSuccess_pops [where user = user and lib = lib and s = s, OF o c'(1) p])
    have "ch_heap ch3 = ch_heap c'" by (subst ch3(3)) simp
    then have h: "ch_heap ch3 = ch_heap ch" using c'(2) by (simp add: same_pending_def)
    obtain ch' where "report_all user lib ss ch3 =
        (Some ch', concat (map2 (\<lambda>a s. calls_of lcalls (ch_heap ch3 a) s) as' ss))"
        "pending ch' (drop (length ss) as')"
      using Cons.IH [OF ch3(2)] by blast
    with ch3(1) h a show ?thesis by simp
  qed
qed

subsection \<open>Properties\<close>

text \<open>
  C30. Answers are matched to operations in order: with callbacks that leave the list of pending
  operations alone, the \<open>n\<close>-th success that arrives is reported to the \<open>n\<close>-th pending operation, once,
  and further answers are ignored.
\<close>

theorem answers_in_order:
  assumes "list_neutral user lib lcalls" and "pending ch as"
  shows "snd (report_all user lib ss ch) =
      concat (map2 (\<lambda>a s. calls_of lcalls (ch_heap ch a) s) as ss) \<and>
    (\<exists>ch'. fst (report_all user lib ss ch) = Some ch' \<and> pending ch' (drop (length ss) as))"
  using report_all_order [OF assms, of ss] by auto

definition example_channel :: channel where
  "example_channel =
     \<lparr>ch_connection = True, ch_readyCallback = None, ch_errorCallback = None, ch_publisher = None,
      ch_confirm = None, ch_consumers = Map.empty, ch_oldest = Some 1, ch_newest = Some 2, ch_id = 1,
      ch_state = Ch_ready, ch_queue = [], ch_synchronous = True, ch_receiver = None,
      ch_heap = (\<lambda>a. if a = 1 then Queue_obj ((new_DeferredQueue False)\<lparr>dq_queueCallback := Some 10, df_next := Some 2\<rparr>)
                     else Plain ((new_Deferred False)\<lparr>df_successCallback := Some 20\<rparr>))\<rparr>"

lemma example_channel_pending: "pending example_channel [1, 2]"
  by (simp add: pending_def example_channel_def new_Deferred_def)

definition silent_lib :: lib_report where
  "silent_lib a s c = (Some c, [])"

theorem answers_in_order_witness:
  "snd (report_all (\<lambda>calls c. Some c) silent_lib [S_queue [5] 0 1, S_done, S_done] example_channel) =
     [Queue_call 10 [5] 0 1, Success_call 20]"
proof -
  have u: "list_neutral (\<lambda>calls c. Some c) silent_lib (\<lambda>d s. [])"
    by (simp add: list_neutral_def same_pending_def silent_lib_def)
  show ?thesis
    using answers_in_order [OF u example_channel_pending, of "[S_queue [5] 0 1, S_done, S_done]"]
    by (simp add: example_channel_def calls_of_def DeferredQueue_reportSuccess_def Deferred_reportSuccess_def)
qed

text \<open>
  An operation that a callback starts is not lost: if the success callback of the only pending
  operation links a new one behind it, the new one is the pending operation afterwards.
\<close>

theorem operation_started_in_callback:
  assumes "pending ch [a]" and "b \<noteq> a" and "obj_next (ch_heap ch b) = None"
    and "\<not> obj_overridden (ch_heap ch a) s"
    and "\<And>calls c. user calls c =
      Some (c\<lparr>ch_heap := (ch_heap c)(a := obj_add b (ch_heap c a)), ch_newest := Some b\<rparr>)"
  shows "\<exists>ch'. ch_reportSuccess user lib s ch = (True, Some ch', obj_reportSuccess (ch_heap ch a) s) \<and>
    pending ch' [b]"
proof -
  have o: "ch_oldest ch = Some a" using assms(1) by (simp add: pending_def)
  let ?c = "leave_synchronous ch"
  let ?c' = "?c\<lparr>ch_heap := (ch_heap ?c)(a := obj_add b (ch_heap ?c a)), ch_newest := Some b\<rparr>"
  have r: "report_obj user lib a s ?c = (Some ?c', obj_reportSuccess (ch_heap ch a) s)"
    using assms(4,5) by (simp add: report_obj_def)
  show ?thesis
    by (rule reportSuccess_pops [where user = user and lib = lib and s = s and as = "[b]", OF o r])
      (use o assms(2,3) in \<open>auto simp: pending_def\<close>)
qed

theorem operation_started_in_callback_witness:
  "\<exists>ch'. ch_reportSuccess
      (\<lambda>calls c. Some (c\<lparr>ch_heap := (ch_heap c)(2 := obj_add 3 (ch_heap c 2)), ch_newest := Some 3\<rparr>))
      silent_lib S_done (example_channel\<lparr>ch_oldest := Some 2\<rparr>) = (True, Some ch', [Success_call 20]) \<and>
    pending ch' [3]"
proof -
  let ?ch = "example_channel\<lparr>ch_oldest := Some 2\<rparr>"
  have p: "pending ?ch [2]" "(3 :: nat) \<noteq> 2" "obj_next (ch_heap ?ch 3) = None"
      "\<not> obj_overridden (ch_heap ?ch 2) S_done"
    by (simp_all add: pending_def example_channel_def new_Deferred_def)
  have c: "obj_reportSuccess (ch_heap ?ch 2) S_done = [Success_call 20]"
    by (simp add: example_channel_def Deferred_reportSuccess_def)
  show ?thesis
    using operation_started_in_callback [OF p, where lib = silent_lib
        and user = "\<lambda>calls c. Some (c\<lparr>ch_heap := (ch_heap c)(2 := obj_add 3 (ch_heap c 2)), ch_newest := Some 3\<rparr>)"]
    unfolding c by simp
qed

end
