(* ===== verification/Amqp_Fields.thy ===== *)
theory Amqp_Fields
  imports Amqp_Wire "HOL-Library.List_Lexorder"
begin

section \<open>AMQP: fields, arrays and tables\<close>

text \<open>
  \<open>include/amqpcpp/\<close>: \<open>field.h\<close>, \<open>array.h\<close>, \<open>table.h\<close>, \<open>fieldproxy.h\<close> and the virtual functions of the
  concrete fields. A field is one value of the datatype below (the floating point fields are left
  out); a virtual function is a function by cases on it. An array is a vector of fields; a table is
  an ordered map from names to fields, modelled as its list of entries in order. The wire form of
  arrays and tables and the lookup of a missing entry are implemented in the prebuilt library: the
  two functions \<open>fill\<close> and \<open>size\<close> take theirs as an argument.
\<close>

datatype field =
    F_Octet "8 word"
  | F_UOctet u8
  | F_Short "16 word"
  | F_UShort u16
  | F_Long "32 word"
  | F_ULong u32
  | F_LongLong "64 word"
  | F_ULongLong u64
  | F_Timestamp u64
  | F_Boolean byte
  | F_Decimal decimal_field
  | F_ShortString octets
  | F_LongString octets
  | F_Array "field list"
  | F_Table "(octets \<times> field) list"

type_synonym table = "(octets \<times> field) list"

fun typeID :: "field \<Rightarrow> char" where
  "typeID (F_Octet v) = CHR ''b''"
| "typeID (F_UOctet v) = CHR ''B''"
| "typeID (F_Short v) = CHR ''U''"
| "typeID (F_UShort v) = CHR ''u''"
| "typeID (F_Long v) = CHR ''I''"
| "typeID (F_ULong v) = CHR ''i''"
| "typeID (F_LongLong v) = CHR ''L''"
| "typeID (F_ULongLong v) = CHR ''l''"
| "typeID (F_Timestamp v) = CHR ''T''"
| "typeID (F_Boolean b) = CHR ''t''"
| "typeID (F_Decimal d) = CHR ''D''"
| "typeID (F_ShortString s) = CHR ''s''"
| "typeID (F_LongString s) = CHR ''S''"
| "typeID (F_Array fs) = CHR ''A''"
| "typeID (F_Table t) = CHR ''F''"

definition isInteger :: "field \<Rightarrow> bool" where
  "isInteger f \<longleftrightarrow>
     (case f of F_Octet v \<Rightarrow> True | F_UOctet v \<Rightarrow> True | F_Short v \<Rightarrow> True | F_UShort v \<Rightarrow> True
      | F_Long v \<Rightarrow> True | F_ULong v \<Rightarrow> True | F_LongLong v \<Rightarrow> True | F_ULongLong v \<Rightarrow> True
      | F_Timestamp v \<Rightarrow> True | _ \<Rightarrow> False)"

definition isDecimal :: "field \<Rightarrow> bool" where
  "isDecimal f \<longleftrightarrow> (case f of F_Decimal d \<Rightarrow> True | _ \<Rightarrow> False)"

definition isArray :: "field \<Rightarrow> bool" where
  "isArray f \<longleftrightarrow> (case f of F_Array fs \<Rightarrow> True | _ \<Rightarrow> False)"

definition isTable :: "field \<Rightarrow> bool" where
  "isTable f \<longleftrightarrow> (case f of F_Table t \<Rightarrow> True | _ \<Rightarrow> False)"

definition isBoolean :: "field \<Rightarrow> bool" where
  "isBoolean f \<longleftrightarrow> (case f of F_Boolean b \<Rightarrow> True | _ \<Rightarrow> False)"

definition isString :: "field \<Rightarrow> bool" where
  "isString f \<longleftrightarrow> (case f of F_ShortString s \<Rightarrow> True | F_LongString s \<Rightarrow> True | _ \<Rightarrow> False)"

text \<open>
  The cast of a field to an integer type: the numeric fields convert their value, every other field
  has the default of the base class, 0.
\<close>

fun field_to_int :: "field \<Rightarrow> 'b::len word" where
  "field_to_int (F_Octet v) = Numeric_cast True v"
| "field_to_int (F_UOctet v) = Numeric_cast False v"
| "field_to_int (F_Short v) = Numeric_cast True v"
| "field_to_int (F_UShort v) = Numeric_cast False v"
| "field_to_int (F_Long v) = Numeric_cast True v"
| "field_to_int (F_ULong v) = Numeric_cast False v"
| "field_to_int (F_LongLong v) = Numeric_cast True v"
| "field_to_int (F_ULongLong v) = Numeric_cast False v"
| "field_to_int (F_Timestamp v) = Numeric_cast False v"
| "field_to_int (F_Boolean b) = 0"
| "field_to_int (F_Decimal d) = 0"
| "field_to_int (F_ShortString s) = 0"
| "field_to_int (F_LongString s) = 0"
| "field_to_int (F_Array fs) = 0"
| "field_to_int (F_Table t) = 0"

fun Field_fill :: "(field \<Rightarrow> octets) \<Rightarrow> field \<Rightarrow> octets" where
  "Field_fill lib (F_Octet v) = Numeric_fill v"
| "Field_fill lib (F_UOctet v) = Numeric_fill v"
| "Field_fill lib (F_Short v) = Numeric_fill v"
| "Field_fill lib (F_UShort v) = Numeric_fill v"
| "Field_fill lib (F_Long v) = Numeric_fill v"
| "Field_fill lib (F_ULong v) = Numeric_fill v"
| "Field_fill lib (F_LongLong v) = Numeric_fill v"
| "Field_fill lib (F_ULongLong v) = Numeric_fill v"
| "Field_fill lib (F_Timestamp v) = Numeric_fill v"
| "Field_fill lib (F_Boolean b) = add_word b []"
| "Field_fill lib (F_Decimal d) = Decimal_fill d"
| "Field_fill lib (F_ShortString s) = ShortString_fill s"
| "Field_fill lib (F_LongString s) = LongString_fill s"
| "Field_fill lib (F_Array fs) = lib (F_Array fs)"
| "Field_fill lib (F_Table t) = lib (F_Table t)"

fun Field_size :: "(field \<Rightarrow> nat) \<Rightarrow> field \<Rightarrow> nat" where
  "Field_size lib (F_Octet v) = Numeric_size v"
| "Field_size lib (F_UOctet v) = Numeric_size v"
| "Field_size lib (F_Short v) = Numeric_size v"
| "Field_size lib (F_UShort v) = Numeric_size v"
| "Field_size lib (F_Long v) = Numeric_size v"
| "Field_size lib (F_ULong v) = Numeric_size v"
| "Field_size lib (F_LongLong v) = Numeric_size v"
| "Field_size lib (F_ULongLong v) = Numeric_size v"
| "Field_size lib (F_Timestamp v) = Numeric_size v"
| "Field_size lib (F_Boolean b) = 1"
| "Field_size lib (F_Decimal d) = Decimal_size d"
| "Field_size lib (F_ShortString s) = ShortString_size s"
| "Field_size lib (F_LongString s) = LongString_size s"
| "Field_size lib (F_Array fs) = lib (F_Array fs)"
| "Field_size lib (F_Table t) = lib (F_Table t)"

lemma Field_size_fill:
  assumes "\<And>g. lib_size g = length (lib_fill g)"
  shows "Field_size lib_size f = length (Field_fill lib_fill f)"
  by (cases f)
    (simp_all add: assms Numeric_size_def Numeric_fill_def add_word_def length_be_of_word
      Decimal_size_def Decimal_fill_def ShortString_size_def ShortString_fill_def LongString_size_def
      LongString_fill_def add_block_def)

subsection \<open>Array\<close>

text \<open>
  \<open>set\<close> returns the array by value: the result is the array after the call and the copy that is
  returned, on which a chained call would work.
\<close>

definition Array_set :: "u8 \<Rightarrow> field \<Rightarrow> field list \<Rightarrow> field list \<times> field list" where
  "Array_set index v fs =
     (let fs' = (if length fs \<le> unat index then fs @ [v] else fs[unat index := v])
      in (fs', fs'))"

text \<open>A chain of calls \<open>a.set(...).set(...)\<close>: what \<open>a\<close> holds afterwards and what the chain yields.\<close>

fun set_chain :: "(u8 \<times> field) list \<Rightarrow> field list \<Rightarrow> field list \<times> field list" where
  "set_chain [] fs = (fs, fs)"
| "set_chain ((i, v) # cs) fs =
     (case Array_set i v fs of (fs', tmp) \<Rightarrow> (fs', snd (set_chain cs tmp)))"

subsection \<open>Table\<close>

text \<open>The map assignment \<open>_fields[name] = ...\<close> on the ordered entries.\<close>

fun map_assign :: "'k::linorder \<Rightarrow> 'v \<Rightarrow> ('k \<times> 'v) list \<Rightarrow> ('k \<times> 'v) list" where
  "map_assign k v [] = [(k, v)]"
| "map_assign k v ((j, w) # es) =
     (if k < j then (k, v) # (j, w) # es
      else if k = j then (k, v) # es
      else (j, w) # map_assign k v es)"

definition Table_set :: "octets \<Rightarrow> field \<Rightarrow> table \<Rightarrow> table" where
  "Table_set name v t = map_assign name v t"

definition Table_contains :: "octets \<Rightarrow> table \<Rightarrow> bool" where
  "Table_contains name t \<longleftrightarrow> name \<in> set (map fst t)"

text \<open>The overloads of \<open>Table::set\<close> and of the assignment to a \<open>FieldProxy\<close>: a C++ value by its type.\<close>

datatype cpp_value =
    C_bool bool
  | C_uint8 u8
  | C_int8 "8 word"
  | C_uint16 u16
  | C_int16 "16 word"
  | C_uint32 u32
  | C_int32 "32 word"
  | C_uint64 u64
  | C_int64 "64 word"
  | C_decimal decimal_field
  | C_string octets
  | C_array "field list"
  | C_table table

fun field_of :: "cpp_value \<Rightarrow> field" where
  "field_of (C_bool b) = F_Boolean (BooleanSet b False False False False False False False)"
| "field_of (C_uint8 v) = F_UOctet v"
| "field_of (C_int8 v) = F_Octet v"
| "field_of (C_uint16 v) = F_UShort v"
| "field_of (C_int16 v) = F_Short v"
| "field_of (C_uint32 v) = F_ULong v"
| "field_of (C_int32 v) = F_Long v"
| "field_of (C_uint64 v) = F_ULongLong v"
| "field_of (C_int64 v) = F_LongLong v"
| "field_of (C_decimal d) = F_Decimal d"
| "field_of (C_string s) = F_LongString s"
| "field_of (C_array fs) = F_Array fs"
| "field_of (C_table t) = F_Table t"

definition Table_set_value :: "octets \<Rightarrow> cpp_value \<Rightarrow> table \<Rightarrow> table" where
  "Table_set_value name v t = Table_set name (field_of v) t"

definition table_proxy_assign :: "octets \<Rightarrow> cpp_value \<Rightarrow> table \<Rightarrow> table" where
  "table_proxy_assign name v t = Table_set name (field_of v) t"

definition array_proxy_assign :: "u8 \<Rightarrow> cpp_value \<Rightarrow> field list \<Rightarrow> field list" where
  "array_proxy_assign index v fs = fst (Array_set index (field_of v) fs)"

text \<open>A table as its map: the entries are in strictly increasing order of their names.\<close>

definition table_ok :: "('k::linorder \<times> 'v) list \<Rightarrow> bool" where
  "table_ok t \<longleftrightarrow> sorted_wrt (<) (map fst t)"

lemma map_assign_keys: "fst ` set (map_assign k v es) = insert k (fst ` set es)"
  by (induction k v es rule: map_assign.induct) (simp_all add: insert_commute)

lemma map_assign_ok: "table_ok es \<Longrightarrow> table_ok (map_assign k v es)"
proof (induction es)
  case Nil
  then show ?case by (simp add: table_ok_def)
next
  case (Cons e es)
  obtain j w where e: "e = (j, w)" by (cases e)
  have "\<forall>x \<in> fst ` set (map_assign k v es). j < x" if "j < k"
    using Cons.prems that e by (auto simp: map_assign_keys table_ok_def)
  with Cons e show ?case by (auto simp: table_ok_def image_iff)
qed

lemma map_assign_map_of: "table_ok es \<Longrightarrow> map_of (map_assign k v es) = (map_of es)(k \<mapsto> v)"
proof (induction es)
  case Nil
  then show ?case by simp
next
  case (Cons e es)
  obtain j w where e: "e = (j, w)" by (cases e)
  have ok: "table_ok es" using Cons.prems e by (simp add: table_ok_def)
  show ?case using Cons.IH [OF ok] e by (auto simp: fun_eq_iff)
qed

text \<open>
  A table built by assignments is the finite map of the last assignment to each name, in increasing
  order of the names whatever the order of the assignments.
\<close>

theorem table_is_last_assignment:
  "map_of (fold (\<lambda>(n, v). Table_set_value n v) as []) = map_of (rev (map (apsnd field_of) as)) \<and>
   sorted_wrt (<) (map fst (fold (\<lambda>(n, v). Table_set_value n v) as []))"
proof -
  have "table_ok (fold (\<lambda>(n, v). Table_set_value n v) as t) \<and>
      map_of (fold (\<lambda>(n, v). Table_set_value n v) as t) = map_of t ++ map_of (rev (map (apsnd field_of) as))"
    if "table_ok t" for t
    using that
  proof (induction as arbitrary: t)
    case Nil
    then show ?case by simp
  next
    case (Cons a as)
    obtain n v where a: "a = (n, v)" by (cases a)
    let ?t = "Table_set_value n v t"
    have ok: "table_ok ?t"
      using map_assign_ok [OF Cons.prems] by (simp add: Table_set_value_def Table_set_def)
    have m: "map_of ?t = (map_of t)(n \<mapsto> field_of v)"
      using map_assign_map_of [OF Cons.prems] by (simp add: Table_set_value_def Table_set_def)
    show ?case
      using Cons.IH [OF ok] m a by (auto simp: fun_eq_iff map_add_def split: option.split)
  qed
  from this [of "[]"] show ?thesis by (simp add: table_ok_def)
qed

text \<open>
  Assigning to an element of an array keeps every other element; an index behind the end appends
  the value at the end, wherever the index points, so reading the index back finds the value only
  if the index was the length.
\<close>

theorem array_set_element:
  "let fs' = array_proxy_assign i v fs
   in (unat i < length fs \<longrightarrow>
        fs' ! unat i = field_of v \<and> length fs' = length fs \<and> (\<forall>j < length fs. j \<noteq> unat i \<longrightarrow> fs' ! j = fs ! j)) \<and>
      (length fs \<le> unat i \<longrightarrow> fs' = fs @ [field_of v] \<and> (unat i < length fs' \<longleftrightarrow> unat i = length fs))"
  by (auto simp: array_proxy_assign_def Array_set_def Let_def)

text \<open>
  Chained calls of \<open>set\<close> are lost: every call after the first works on a temporary copy, which
  gets all the values, while the array itself gets only the first.
\<close>

theorem chained_sets_are_lost:
  "set_chain cs fs =
     ((case cs of [] \<Rightarrow> fs | (i, v) # _ \<Rightarrow> fst (Array_set i v fs)),
      foldl (\<lambda>fs (i, v). fst (Array_set i v fs)) fs cs)"
  by (induction cs arbitrary: fs) (auto simp: Array_set_def Let_def split: list.split)

end
