(* ===== verification/Amqp_Metadata.thy ===== *)
theory Amqp_Metadata
  imports Amqp_Wire
begin

section \<open>AMQP: the meta data of a message\<close>

text \<open>
  \<open>include/amqpcpp/metadata.h\<close>. Fourteen optional properties, two sets of booleans that tell which
  are present, and the wire form: the two sets, then the present properties in a fixed order. The
  header table (\<open>Table\<close>, whose wire form is implemented in the prebuilt library) is a parameter
  \<open>table_ops\<close> with values of type \<open>'t\<close>; \<open>table_laws\<close> says that it is read back from what it fills
  in, for the tables that are \<open>tbl_ok\<close>, and that its size is the number of octets.
\<close>

record ('f, 't) table_ops =
  tbl_empty :: 't
  tbl_fill :: "'t \<Rightarrow> octets"
  tbl_size :: "'t \<Rightarrow> u32"
  tbl_decode :: "'f \<Rightarrow> ('t \<times> 'f) option"
  tbl_ok :: "'t \<Rightarrow> bool"

definition table_laws :: "'f frame_reader \<Rightarrow> ('f, 't) table_ops \<Rightarrow> bool" where
  "table_laws R T \<longleftrightarrow>
     (\<forall>t. tbl_ok T t \<longrightarrow> reads (unread R) (tbl_decode T) t (tbl_fill T t)) \<and>
     (\<forall>t. tbl_size T t = of_nat (length (tbl_fill T t)))"

record 't metadata =
  md_bools1 :: byte
  md_bools2 :: byte
  md_contentType :: octets
  md_contentEncoding :: octets
  md_headers :: 't
  md_deliveryMode :: u8
  md_priority :: u8
  md_correlationID :: octets
  md_replyTo :: octets
  md_expiration :: octets
  md_messageID :: octets
  md_timestamp :: u64
  md_typeName :: octets
  md_userID :: octets
  md_appID :: octets
  md_clusterID :: octets

definition new_MetaData :: "('f, 't) table_ops \<Rightarrow> 't metadata" where
  "new_MetaData T =
     \<lparr>md_bools1 = BooleanSet False False False False False False False False,
      md_bools2 = BooleanSet False False False False False False False False,
      md_contentType = [],
      md_contentEncoding = [],
      md_headers = tbl_empty T,
      md_deliveryMode = 0,
      md_priority = 0,
      md_correlationID = [],
      md_replyTo = [],
      md_expiration = [],
      md_messageID = [],
      md_timestamp = 0,
      md_typeName = [],
      md_userID = [],
      md_appID = [],
      md_clusterID = []\<rparr>"

subsection \<open>Presence, setters\<close>

definition hasExpiration :: "'t metadata \<Rightarrow> bool" where
  [wire_simps]: "hasExpiration m = bs_get 0 (md_bools1 m)"

definition hasReplyTo :: "'t metadata \<Rightarrow> bool" where
  [wire_simps]: "hasReplyTo m = bs_get 1 (md_bools1 m)"

definition hasCorrelationID :: "'t metadata \<Rightarrow> bool" where
  [wire_simps]: "hasCorrelationID m = bs_get 2 (md_bools1 m)"

definition hasPriority :: "'t metadata \<Rightarrow> bool" where
  [wire_simps]: "hasPriority m = bs_get 3 (md_bools1 m)"

definition hasDeliveryMode :: "'t metadata \<Rightarrow> bool" where
  [wire_simps]: "hasDeliveryMode m = bs_get 4 (md_bools1 m)"

definition hasHeaders :: "'t metadata \<Rightarrow> bool" where
  [wire_simps]: "hasHeaders m = bs_get 5 (md_bools1 m)"

definition hasContentEncoding :: "'t metadata \<Rightarrow> bool" where
  [wire_simps]: "hasContentEncoding m = bs_get 6 (md_bools1 m)"

definition hasContentType :: "'t metadata \<Rightarrow> bool" where
  [wire_simps]: "hasContentType m = bs_get 7 (md_bools1 m)"

definition hasClusterID :: "'t metadata \<Rightarrow> bool" where
  [wire_simps]: "hasClusterID m = bs_get 2 (md_bools2 m)"

definition hasAppID :: "'t metadata \<Rightarrow> bool" where
  [wire_simps]: "hasAppID m = bs_get 3 (md_bools2 m)"

definition hasUserID :: "'t metadata \<Rightarrow> bool" where
  [wire_simps]: "hasUserID m = bs_get 4 (md_bools2 m)"

definition hasTypeName :: "'t metadata \<Rightarrow> bool" where
  [wire_simps]: "hasTypeName m = bs_get 5 (md_bools2 m)"

definition hasTimestamp :: "'t metadata \<Rightarrow> bool" where
  [wire_simps]: "hasTimestamp m = bs_get 6 (md_bools2 m)"

definition hasMessageID :: "'t metadata \<Rightarrow> bool" where
  [wire_simps]: "hasMessageID m = bs_get 7 (md_bools2 m)"

definition setExpiration :: "octets \<Rightarrow> 't metadata \<Rightarrow> 't metadata" where
  [wire_simps]: "setExpiration v m = m\<lparr>md_expiration := v, md_bools1 := bs_set 0 True (md_bools1 m)\<rparr>"

definition setReplyTo :: "octets \<Rightarrow> 't metadata \<Rightarrow> 't metadata" where
  [wire_simps]: "setReplyTo v m = m\<lparr>md_replyTo := v, md_bools1 := bs_set 1 True (md_bools1 m)\<rparr>"

definition setCorrelationID :: "octets \<Rightarrow> 't metadata \<Rightarrow> 't metadata" where
  [wire_simps]: "setCorrelationID v m = m\<lparr>md_correlationID := v, md_bools1 := bs_set 2 True (md_bools1 m)\<rparr>"

definition setPriority :: "u8 \<Rightarrow> 't metadata \<Rightarrow> 't metadata" where
  [wire_simps]: "setPriority v m = m\<lparr>md_priority := v, md_bools1 := bs_set 3 True (md_bools1 m)\<rparr>"

definition setDeliveryMode :: "u8 \<Rightarrow> 't metadata \<Rightarrow> 't metadata" where
  [wire_simps]: "setDeliveryMode v m = m\<lparr>md_deliveryMode := v, md_bools1 := bs_set 4 True (md_bools1 m)\<rparr>"

definition setHeaders :: "'t \<Rightarrow> 't metadata \<Rightarrow> 't metadata" where
  [wire_simps]: "setHeaders v m = m\<lparr>md_headers := v, md_bools1 := bs_set 5 True (md_bools1 m)\<rparr>"

definition setContentEncoding :: "octets \<Rightarrow> 't metadata \<Rightarrow> 't metadata" where
  [wire_simps]: "setContentEncoding v m = m\<lparr>md_contentEncoding := v, md_bools1 := bs_set 6 True (md_bools1 m)\<rparr>"

definition setContentType :: "octets \<Rightarrow> 't metadata \<Rightarrow> 't metadata" where
  [wire_simps]: "setContentType v m = m\<lparr>md_contentType := v, md_bools1 := bs_set 7 True (md_bools1 m)\<rparr>"

definition setClusterID :: "octets \<Rightarrow> 't metadata \<Rightarrow> 't metadata" where
  [wire_simps]: "setClusterID v m = m\<lparr>md_clusterID := v, md_bools2 := bs_set 2 True (md_bools2 m)\<rparr>"

definition setAppID :: "octets \<Rightarrow> 't metadata \<Rightarrow> 't metadata" where
  [wire_simps]: "setAppID v m = m\<lparr>md_appID := v, md_bools2 := bs_set 3 True (md_bools2 m)\<rparr>"

definition setUserID :: "octets \<Rightarrow> 't metadata \<Rightarrow> 't metadata" where
  [wire_simps]: "setUserID v m = m\<lparr>md_userID := v, md_bools2 := bs_set 4 True (md_bools2 m)\<rparr>"

definition setTypeName :: "octets \<Rightarrow> 't metadata \<Rightarrow> 't metadata" where
  [wire_simps]: "setTypeName v m = m\<lparr>md_typeName := v, md_bools2 := bs_set 5 True (md_bools2 m)\<rparr>"

definition setTimestamp :: "u64 \<Rightarrow> 't metadata \<Rightarrow> 't metadata" where
  [wire_simps]: "setTimestamp v m = m\<lparr>md_timestamp := v, md_bools2 := bs_set 6 True (md_bools2 m)\<rparr>"

definition setMessageID :: "octets \<Rightarrow> 't metadata \<Rightarrow> 't metadata" where
  [wire_simps]: "setMessageID v m = m\<lparr>md_messageID := v, md_bools2 := bs_set 7 True (md_bools2 m)\<rparr>"

text \<open>\<open>set\<close> copies all fields.\<close>

definition MetaData_set :: "'t metadata \<Rightarrow> 't metadata \<Rightarrow> 't metadata" where
  "MetaData_set data m =
     m\<lparr>md_bools1 := md_bools1 data, md_bools2 := md_bools2 data,
       md_contentType := md_contentType data,
       md_contentEncoding := md_contentEncoding data,
       md_headers := md_headers data,
       md_deliveryMode := md_deliveryMode data,
       md_priority := md_priority data,
       md_correlationID := md_correlationID data,
       md_replyTo := md_replyTo data,
       md_expiration := md_expiration data,
       md_messageID := md_messageID data,
       md_timestamp := md_timestamp data,
       md_typeName := md_typeName data,
       md_userID := md_userID data,
       md_appID := md_appID data,
       md_clusterID := md_clusterID data\<rparr>"

definition persistent :: "'t metadata \<Rightarrow> bool" where
  "persistent m \<longleftrightarrow> hasDeliveryMode m \<and> md_deliveryMode m = 2"

definition setPersistent :: "bool \<Rightarrow> 't metadata \<Rightarrow> 't metadata" where
  "setPersistent v m =
     (if v then setDeliveryMode 2 m
      else m\<lparr>md_deliveryMode := 0, md_bools1 := bs_set 4 False (md_bools1 m)\<rparr>)"

subsection \<open>The wire form\<close>

definition MetaData_size :: "('f, 't) table_ops \<Rightarrow> 't metadata \<Rightarrow> u32" where
  "MetaData_size T m =
     2
     + (if hasExpiration m then of_nat (ShortString_size (md_expiration m)) else 0)
     + (if hasReplyTo m then of_nat (ShortString_size (md_replyTo m)) else 0)
     + (if hasCorrelationID m then of_nat (ShortString_size (md_correlationID m)) else 0)
     + (if hasPriority m then of_nat (Numeric_size (md_priority m)) else 0)
     + (if hasDeliveryMode m then of_nat (Numeric_size (md_deliveryMode m)) else 0)
     + (if hasHeaders m then tbl_size T (md_headers m) else 0)
     + (if hasContentEncoding m then of_nat (ShortString_size (md_contentEncoding m)) else 0)
     + (if hasContentType m then of_nat (ShortString_size (md_contentType m)) else 0)
     + (if hasClusterID m then of_nat (ShortString_size (md_clusterID m)) else 0)
     + (if hasAppID m then of_nat (ShortString_size (md_appID m)) else 0)
     + (if hasUserID m then of_nat (ShortString_size (md_userID m)) else 0)
     + (if hasTypeName m then of_nat (ShortString_size (md_typeName m)) else 0)
     + (if hasTimestamp m then of_nat (Numeric_size (md_timestamp m)) else 0)
     + (if hasMessageID m then of_nat (ShortString_size (md_messageID m)) else 0)"

definition MetaData_fill :: "('f, 't) table_ops \<Rightarrow> 't metadata \<Rightarrow> octets" where
  "MetaData_fill T m =
     Numeric_fill (md_bools1 m) @ Numeric_fill (md_bools2 m)
     @ (if hasContentType m then ShortString_fill (md_contentType m) else [])
     @ (if hasContentEncoding m then ShortString_fill (md_contentEncoding m) else [])
     @ (if hasHeaders m then tbl_fill T (md_headers m) else [])
     @ (if hasDeliveryMode m then Numeric_fill (md_deliveryMode m) else [])
     @ (if hasPriority m then Numeric_fill (md_priority m) else [])
     @ (if hasCorrelationID m then ShortString_fill (md_correlationID m) else [])
     @ (if hasReplyTo m then ShortString_fill (md_replyTo m) else [])
     @ (if hasExpiration m then ShortString_fill (md_expiration m) else [])
     @ (if hasMessageID m then ShortString_fill (md_messageID m) else [])
     @ (if hasTimestamp m then Numeric_fill (md_timestamp m) else [])
     @ (if hasTypeName m then ShortString_fill (md_typeName m) else [])
     @ (if hasUserID m then ShortString_fill (md_userID m) else [])
     @ (if hasAppID m then ShortString_fill (md_appID m) else [])
     @ (if hasClusterID m then ShortString_fill (md_clusterID m) else [])"

text \<open>
  The constructor that reads a frame. The presence tests of the code read the two sets of booleans,
  which are read first.
\<close>

definition MetaData_decode ::
  "'f frame_reader \<Rightarrow> ('f, 't) table_ops \<Rightarrow> 'f \<Rightarrow> ('t metadata \<times> 'f) option" where
  "MetaData_decode R T =
     rd_bind (nextUint8 R) (\<lambda>b1. rd_bind (nextUint8 R) (\<lambda>b2.
     rd_bind (rd_if (bs_get 7 b1) (ShortString_decode R) ([])) (\<lambda>contentType_v.
     rd_bind (rd_if (bs_get 6 b1) (ShortString_decode R) ([])) (\<lambda>contentEncoding_v.
     rd_bind (rd_if (bs_get 5 b1) (tbl_decode T) (tbl_empty T)) (\<lambda>headers_v.
     rd_bind (rd_if (bs_get 4 b1) (nextUint8 R) (0)) (\<lambda>deliveryMode_v.
     rd_bind (rd_if (bs_get 3 b1) (nextUint8 R) (0)) (\<lambda>priority_v.
     rd_bind (rd_if (bs_get 2 b1) (ShortString_decode R) ([])) (\<lambda>correlationID_v.
     rd_bind (rd_if (bs_get 1 b1) (ShortString_decode R) ([])) (\<lambda>replyTo_v.
     rd_bind (rd_if (bs_get 0 b1) (ShortString_decode R) ([])) (\<lambda>expiration_v.
     rd_bind (rd_if (bs_get 7 b2) (ShortString_decode R) ([])) (\<lambda>messageID_v.
     rd_bind (rd_if (bs_get 6 b2) (nextUint64 R) (0)) (\<lambda>timestamp_v.
     rd_bind (rd_if (bs_get 5 b2) (ShortString_decode R) ([])) (\<lambda>typeName_v.
     rd_bind (rd_if (bs_get 4 b2) (ShortString_decode R) ([])) (\<lambda>userID_v.
     rd_bind (rd_if (bs_get 3 b2) (ShortString_decode R) ([])) (\<lambda>appID_v.
     rd_bind (rd_if (bs_get 2 b2) (ShortString_decode R) ([])) (\<lambda>clusterID_v.
     rd_return
       \<lparr>md_bools1 = b1, md_bools2 = b2,
        md_contentType = contentType_v,
        md_contentEncoding = contentEncoding_v,
        md_headers = headers_v,
        md_deliveryMode = deliveryMode_v,
        md_priority = priority_v,
        md_correlationID = correlationID_v,
        md_replyTo = replyTo_v,
        md_expiration = expiration_v,
        md_messageID = messageID_v,
        md_timestamp = timestamp_v,
        md_typeName = typeName_v,
        md_userID = userID_v,
        md_appID = appID_v,
        md_clusterID = clusterID_v\<rparr>))))))))))))))))"

subsection \<open>Well-formed meta data\<close>

text \<open>A property that is present fits its field; one that is absent has its initial value.\<close>

definition present_ok :: "bool \<Rightarrow> ('a \<Rightarrow> bool) \<Rightarrow> 'a \<Rightarrow> 'a \<Rightarrow> bool" where
  "present_ok c ok old v \<longleftrightarrow> (if c then ok v else v = old)"

lemma present_okI [intro]:
  "ok v \<Longrightarrow> present_ok True ok old v"
  "present_ok False ok old old"
  by (simp_all add: present_ok_def)

definition md_ok :: "('f, 't) table_ops \<Rightarrow> 't metadata \<Rightarrow> bool" where
  "md_ok T m \<longleftrightarrow>
     present_ok (hasContentType m) short_ok [] (md_contentType m) \<and>
     present_ok (hasContentEncoding m) short_ok [] (md_contentEncoding m) \<and>
     present_ok (hasHeaders m) (tbl_ok T) (tbl_empty T) (md_headers m) \<and>
     present_ok (hasDeliveryMode m) (\<lambda>_. True) 0 (md_deliveryMode m) \<and>
     present_ok (hasPriority m) (\<lambda>_. True) 0 (md_priority m) \<and>
     present_ok (hasCorrelationID m) short_ok [] (md_correlationID m) \<and>
     present_ok (hasReplyTo m) short_ok [] (md_replyTo m) \<and>
     present_ok (hasExpiration m) short_ok [] (md_expiration m) \<and>
     present_ok (hasMessageID m) short_ok [] (md_messageID m) \<and>
     present_ok (hasTimestamp m) (\<lambda>_. True) 0 (md_timestamp m) \<and>
     present_ok (hasTypeName m) short_ok [] (md_typeName m) \<and>
     present_ok (hasUserID m) short_ok [] (md_userID m) \<and>
     present_ok (hasAppID m) short_ok [] (md_appID m) \<and>
     present_ok (hasClusterID m) short_ok [] (md_clusterID m)"

lemma reads_present:
  assumes "present_ok c ok old v" and "ok v \<Longrightarrow> reads left dec v bs"
  shows "reads left (rd_if c dec old) v (if c then bs else [])"
  using assms by (intro reads_if) (auto simp: present_ok_def split: if_splits)

lemma reads_property:
  assumes "present_ok c ok old v" and "\<And>x. ok x \<Longrightarrow> reads left dec x (fill x)"
    and "reads left (k v) y cs"
  shows "reads left (rd_bind (rd_if c dec old) k) y ((if c then fill v else []) @ cs)"
proof -
  have "reads left (rd_if c dec old) v (if c then fill v else [])"
    using assms(1,2) by (rule reads_present)
  then show ?thesis using assms(3) by (rule reads_bind)
qed

lemma MetaData_reads:
  assumes R: "reader_laws R" and T: "table_laws R T" and ok: "md_ok T m"
  shows "reads (unread R) (MetaData_decode R T) m (MetaData_fill T m)"
proof -
  have str: "\<And>x. short_ok x \<Longrightarrow> reads (unread R) (ShortString_decode R) x (ShortString_fill x)"
    using ShortString_reads [OF R] .
  have tbl: "\<And>t. tbl_ok T t \<Longrightarrow> reads (unread R) (tbl_decode T) t (tbl_fill T t)"
    using T by (simp add: table_laws_def)
  have oct: "\<And>w. True \<Longrightarrow> reads (unread R) (nextUint8 R) w (Numeric_fill w)"
    by (rule uoctet.decode_fill [OF R])
  have u64: "\<And>w. True \<Longrightarrow> reads (unread R) (nextUint64 R) w (Numeric_fill w)"
    by (rule ulonglong.decode_fill [OF R])
  note property = reads_property [OF _ str] reads_property [OF _ tbl]
    reads_property [where ok = "\<lambda>_. True", OF _ oct] reads_property [where ok = "\<lambda>_. True", OF _ u64]
  have "reads (unread R) (MetaData_decode R T) m (MetaData_fill T m @ [])"
    unfolding MetaData_decode_def MetaData_fill_def wire_simps append.assoc
    by (intro reads_bind [OF uoctet.decode_fill [OF R]] property)
      (use ok in \<open>simp_all add: md_ok_def wire_simps\<close>, cases m, simp add: reads_return)
  then show ?thesis by simp
qed

lemma MetaData_size_fill:
  assumes T: "table_laws R T"
  shows "MetaData_size T m = of_nat (length (MetaData_fill T m))"
proof -
  have t: "tbl_size T t = of_nat (length (tbl_fill T t))" for t using T by (simp add: table_laws_def)
  have string_length: "length (ShortString_fill s) = ShortString_size s" for s
    by (simp add: ShortString_size_def ShortString_fill_def Numeric_size_def Numeric_fill_def
        add_block_def add_word_def)
  have octet_length: "length (Numeric_fill w) = Numeric_size w" "Numeric_size w = 1"
      "length (Numeric_fill x) = Numeric_size x"
    for w :: u8 and x :: u64
    by (simp_all add: Numeric_size_def Numeric_fill_def add_word_def)
  have length_present: "length (if c then bs else []) = (if c then length bs else 0)"
      "(of_nat (if c then n else 0) :: u32) = (if c then of_nat n else 0)" for c bs n
    by simp_all
  show ?thesis
    unfolding MetaData_size_def MetaData_fill_def
    by (simp add: t length_present string_length octet_length ac_simps split del: if_split cong: if_cong)
qed

text \<open>Meta data that an application builds: the empty one, and what the setters make of it.\<close>

inductive built :: "('f, 't) table_ops \<Rightarrow> 't metadata \<Rightarrow> bool" for T where
  built_new: "built T (new_MetaData T)"
| built_Expiration: "built T m \<Longrightarrow> short_ok v \<Longrightarrow> built T (setExpiration v m)"
| built_ReplyTo: "built T m \<Longrightarrow> short_ok v \<Longrightarrow> built T (setReplyTo v m)"
| built_CorrelationID: "built T m \<Longrightarrow> short_ok v \<Longrightarrow> built T (setCorrelationID v m)"
| built_Priority: "built T m \<Longrightarrow> built T (setPriority v m)"
| built_DeliveryMode: "built T m \<Longrightarrow> built T (setDeliveryMode v m)"
| built_Headers: "built T m \<Longrightarrow> tbl_ok T t \<Longrightarrow> built T (setHeaders t m)"
| built_ContentEncoding: "built T m \<Longrightarrow> short_ok v \<Longrightarrow> built T (setContentEncoding v m)"
| built_ContentType: "built T m \<Longrightarrow> short_ok v \<Longrightarrow> built T (setContentType v m)"
| built_ClusterID: "built T m \<Longrightarrow> short_ok v \<Longrightarrow> built T (setClusterID v m)"
| built_AppID: "built T m \<Longrightarrow> short_ok v \<Longrightarrow> built T (setAppID v m)"
| built_UserID: "built T m \<Longrightarrow> short_ok v \<Longrightarrow> built T (setUserID v m)"
| built_TypeName: "built T m \<Longrightarrow> short_ok v \<Longrightarrow> built T (setTypeName v m)"
| built_Timestamp: "built T m \<Longrightarrow> built T (setTimestamp v m)"
| built_MessageID: "built T m \<Longrightarrow> short_ok v \<Longrightarrow> built T (setMessageID v m)"
| built_persistent: "built T m \<Longrightarrow> built T (setPersistent p m)"

lemma md_ok_new: "md_ok T (new_MetaData T)"
proof -
  have "bs_get i (BooleanSet False False False False False False False False) = False" for i
    unfolding BooleanSet_def by (simp add: bs_get_set) (simp add: bs_get_def)
  then show ?thesis by (simp add: md_ok_def new_MetaData_def wire_simps present_ok_def)
qed

lemma built_ok: "built T m \<Longrightarrow> md_ok T m"
proof (induction rule: built.induct)
  case built_new
  then show ?case by (rule md_ok_new)
qed (simp_all add: md_ok_def wire_simps bs_get_set present_ok_def setPersistent_def)

subsection \<open>Properties\<close>

text \<open>
  C18. Round trip of the meta data: whatever an application builds with the setters (strings of
  at most 255 octets, a table the reader understands) is read back from what it fills in, field by
  field and with the same properties present, and nothing more is consumed.
\<close>

theorem metadata_roundtrip:
  assumes "reader_laws R" and "table_laws R T" and "built T m" and "unread R f = MetaData_fill T m @ r"
  shows "\<exists>f'. MetaData_decode R T f = Some (m, f') \<and> unread R f' = r"
  using MetaData_reads [OF assms(1,2) built_ok [OF assms(3)]] assms(4) by (simp add: reads_def)

definition unit_table :: "(octets, unit) table_ops" where
  "unit_table =
     \<lparr>tbl_empty = (), tbl_fill = (\<lambda>t. be_of_word (0 :: u32)), tbl_size = (\<lambda>t. 4),
      tbl_decode = rd_bind (nextUint32 list_reader) (\<lambda>n. rd_return ()), tbl_ok = (\<lambda>t. True)\<rparr>"

lemma unit_table_laws: "table_laws list_reader unit_table"
proof -
  have "reads (unread list_reader) (rd_bind (nextUint32 list_reader) (\<lambda>n. rd_return ())) t
      (be_of_word (0 :: u32) @ [])" for t
    by (rule reads_bind [OF reads_words(3) [OF list_reader_laws]]) (simp add: reads_return)
  then show ?thesis by (simp add: table_laws_def unit_table_def)
qed

definition example_meta :: "unit metadata" where
  "example_meta = setTimestamp 5 (setReplyTo [65, 66] (setPersistent True (new_MetaData unit_table)))"

lemma example_meta_built: "built unit_table example_meta"
  unfolding example_meta_def by (intro built.intros) (simp add: short_ok_def)

theorem metadata_roundtrip_witness:
  "\<exists>f'. MetaData_decode list_reader unit_table (MetaData_fill unit_table example_meta @ [9]) =
     Some (example_meta, f') \<and> unread list_reader f' = [9]"
  by (rule metadata_roundtrip [OF list_reader_laws unit_table_laws example_meta_built])
    (simp add: list_reader_def)

text \<open>
  The announced size of the meta data is the number of octets it fills in, modulo
  \<open>2 ^ 32\<close>, for every content, even one that is not well-formed.
\<close>

theorem metadata_size_is_fill_length:
  assumes "table_laws R T"
  shows "MetaData_size T m = of_nat (length (MetaData_fill T m))"
  by (rule MetaData_size_fill [OF assms])

theorem metadata_size_is_fill_length_witness:
  "MetaData_size unit_table example_meta = of_nat (length (MetaData_fill unit_table example_meta))"
  by (rule metadata_size_is_fill_length [OF unit_table_laws])

end
