(* ===== verification/Amqp_Message.thy ===== *)
theory Amqp_Message
  imports Amqp_Metadata
begin

section \<open>AMQP: envelopes and the assembly of a message from its frames\<close>

text \<open>
  \<open>include/amqpcpp/envelope.h\<close> and \<open>message.h\<close>. The body of an envelope is a pointer: null, into a
  buffer the message does not own (\<open>Borrowed\<close>: the octets readable there), or to the block the
  message allocated (\<open>Owned\<close>: the whole block, the part not yet written included; this is the case in
  which \<open>_mutableBody\<close> is not null). \<open>size_t\<close> has 64 bits, so the size check of \<open>setBodySize\<close> never
  throws. \<open>heap\<close> is the content \<open>malloc\<close> hands out.
\<close>

datatype body = No_body | Borrowed octets | Owned octets

record 't envelope = "'t metadata" +
  env_body :: body
  env_bodySize :: u64

record 't message = "'t envelope" +
  ms_exchange :: octets
  ms_routingkey :: octets
  ms_filled :: u64

definition new_Envelope :: "('f, 't) table_ops \<Rightarrow> body \<Rightarrow> u64 \<Rightarrow> 't envelope" where
  "new_Envelope T bod n = metadata.extend (new_MetaData T) \<lparr>env_body = bod, env_bodySize = n\<rparr>"

definition new_Message :: "('f, 't) table_ops \<Rightarrow> octets \<Rightarrow> octets \<Rightarrow> 't message" where
  "new_Message T exchange routingkey =
     envelope.extend (new_Envelope T No_body 0)
       \<lparr>ms_exchange = exchange, ms_routingkey = routingkey, ms_filled = 0\<rparr>"

definition setBodySize :: "u64 \<Rightarrow> 't message \<Rightarrow> 't message" where
  "setBodySize n m = m\<lparr>env_bodySize := n\<rparr>"

definition overwrite :: "nat \<Rightarrow> octets \<Rightarrow> octets \<Rightarrow> octets" where
  "overwrite pos data blk = take pos blk @ data @ drop (pos + length data) blk"

text \<open>\<open>append\<close>: the data is a buffer of at least \<open>n\<close> octets. The result is the returned flag.\<close>

definition Message_append :: "(nat \<Rightarrow> octets) \<Rightarrow> octets \<Rightarrow> u64 \<Rightarrow> 't message \<Rightarrow> bool \<times> 't message" where
  "Message_append heap buffer n m =
     (let m' =
        (case env_body m of
           Owned blk \<Rightarrow>
             let k = min n (env_bodySize m - ms_filled m)
             in m\<lparr>env_body := Owned (overwrite (unat (ms_filled m)) (take (unat k) buffer) blk),
                  ms_filled := ms_filled m + k\<rparr>
         | _ \<Rightarrow>
             if env_bodySize m \<le> n then m\<lparr>env_body := Borrowed buffer\<rparr>
             else
               let k = min n (env_bodySize m)
               in m\<lparr>env_body := Owned (overwrite 0 (take (unat k) buffer) (heap (unat (env_bodySize m)))),
                    ms_filled := k\<rparr>)
      in (env_bodySize m' \<le> ms_filled m', m'))"

text \<open>The accessors of a message, and the block its destructor frees.\<close>

definition Message_exchange :: "'t message \<Rightarrow> octets" where
  "Message_exchange m = ms_exchange m"

definition Message_routingkey :: "'t message \<Rightarrow> octets" where
  "Message_routingkey m = ms_routingkey m"

definition Message_destroy :: "'t message \<Rightarrow> octets option" where
  "Message_destroy m = (case env_body m of Owned blk \<Rightarrow> Some blk | _ \<Rightarrow> None)"

text \<open>\<open>body()\<close> and \<open>bodySize()\<close> as the client reads them: the first \<open>bodySize\<close> octets.\<close>

definition Envelope_body :: "('t, 'a) envelope_scheme \<Rightarrow> octets" where
  "Envelope_body m =
     (case env_body m of
        No_body \<Rightarrow> []
      | Borrowed bs \<Rightarrow> take (unat (env_bodySize m)) bs
      | Owned blk \<Rightarrow> take (unat (env_bodySize m)) blk)"

text \<open>The body frames of one message, each passed with its own size; the flag of the last call.\<close>

fun append_frames :: "(nat \<Rightarrow> octets) \<Rightarrow> octets list \<Rightarrow> 't message \<Rightarrow> bool list \<times> 't message" where
  "append_frames heap [] m = ([], m)"
| "append_frames heap (fr # frs) m =
     (let (done, m') = Message_append heap fr (of_nat (length fr)) m;
          (dones, m'') = append_frames heap frs m'
      in (done # dones, m''))"

subsection \<open>Assembly\<close>

text \<open>A message of \<open>n\<close> octets that owns its block and has received \<open>bs\<close>.\<close>

definition assembling :: "nat \<Rightarrow> octets \<Rightarrow> 't message \<Rightarrow> bool" where
  "assembling n bs m \<longleftrightarrow>
     unat (env_bodySize m) = n \<and> unat (ms_filled m) = min n (length bs) \<and>
     (\<exists>blk. env_body m = Owned blk \<and> length blk = n \<and> take (min n (length bs)) blk = take n bs)"

lemma length_overwrite: "pos + length data \<le> length blk \<Longrightarrow> length (overwrite pos data blk) = length blk"
  by (simp add: overwrite_def)

lemma take_overwrite:
  "pos + length data \<le> length blk \<Longrightarrow> take (pos + length data) (overwrite pos data blk) = take pos blk @ data"
  by (simp add: overwrite_def)

lemma frame_size: "length fr < 2 ^ 64 \<Longrightarrow> unat (of_nat (length fr) :: u64) = length fr"
  by (simp add: unat_of_nat)

lemma append_owned:
  assumes a: "assembling n bs m" and fr: "length fr < 2 ^ 64"
  obtains m' where "Message_append heap fr (of_nat (length fr)) m = (n \<le> length (bs @ fr), m')"
    and "assembling n (bs @ fr) m'"
proof -
  obtain blk where blk: "env_body m = Owned blk" "length blk = n"
      "take (min n (length bs)) blk = take n bs"
    and sz: "unat (env_bodySize m) = n" "unat (ms_filled m) = min n (length bs)"
    using a by (auto simp: assembling_def)
  let ?k = "min (of_nat (length fr)) (env_bodySize m - ms_filled m)"
  let ?f = "min n (length bs)"
  have le: "ms_filled m \<le> env_bodySize m" using sz by (simp add: word_le_nat_alt)
  then have d: "unat (env_bodySize m - ms_filled m) = n - ?f" using sz by (simp add: unat_sub)
  have k: "unat ?k = min (length fr) (n - ?f)"
    using d frame_size [OF fr] by (auto simp: min_def word_le_nat_alt)
  have fk: "unat (ms_filled m + ?k) = min n (length (bs @ fr))"
  proof -
    have "unat (ms_filled m) + unat ?k \<le> n" using sz(2) k by simp
    moreover have "unat (env_bodySize m) < 2 ^ 64" using unsigned_less [of "env_bodySize m"] by simp
    then have "n < 2 ^ 64" using sz(1) by simp
    ultimately have "unat (ms_filled m + ?k) = unat (ms_filled m) + unat ?k"
      by (intro unat_add_lem [THEN iffD1]) simp
    moreover have "min n b + min l (n - min n b) = min n (b + l)" for b l :: nat by linarith
    ultimately show ?thesis using sz(2) k by simp
  qed
  let ?blk = "overwrite ?f (take (unat ?k) fr) blk"
  let ?m = "m\<lparr>env_body := Owned ?blk, ms_filled := ms_filled m + ?k\<rparr>"
  have fit: "?f + length (take (unat ?k) fr) \<le> length blk" using k blk(2) by simp
  have "min n (length (bs @ fr)) = ?f + length (take (unat ?k) fr)" using k by auto
  then have t: "take (min n (length (bs @ fr))) ?blk = take ?f blk @ take (unat ?k) fr"
    using take_overwrite [OF fit] by simp
  have "take ?f blk @ take (unat ?k) fr = take n (bs @ fr)"
    using blk(3) k by (cases "length bs \<le> n") (auto simp: min_def)
  with t have "assembling n (bs @ fr) ?m"
    using fk sz(1) length_overwrite [OF fit] blk(2) by (simp add: assembling_def)
  moreover have "Message_append heap fr (of_nat (length fr)) m = (n \<le> length (bs @ fr), ?m)"
    using blk(1) fk sz by (simp add: Message_append_def Let_def word_le_nat_alt)
  ultimately show ?thesis by (rule that [rotated])
qed

lemma append_frames_owned:
  assumes "assembling n bs m" and "\<forall>fr \<in> set frs. length fr < 2 ^ 64"
  shows "assembling n (bs @ concat frs) (snd (append_frames heap frs m)) \<and>
    fst (append_frames heap frs m) =
      map (\<lambda>k. n \<le> length (bs @ concat (take (Suc k) frs))) [0..<length frs]"
  using assms
proof (induction frs arbitrary: bs m)
  case Nil
  then show ?case by simp
next
  case (Cons fr frs)
  obtain m' where m': "Message_append heap fr (of_nat (length fr)) m = (n \<le> length (bs @ fr), m')"
      "assembling n (bs @ fr) m'"
    using append_owned [OF Cons.prems(1), of fr] Cons.prems(2) by auto
  have "[0..<length (fr # frs)] = 0 # map Suc [0..<length frs]"
    by (simp add: upt_conv_Cons map_Suc_upt del: upt_Suc)
  then show ?case
    using m' Cons.IH [OF m'(2)] Cons.prems(2) by (simp add: split_def)
qed

lemma append_first:
  assumes "env_body m = No_body" and "unat (env_bodySize m) = n" and "length fr < n"
    and "length (heap n) = n"
  obtains m' where "Message_append heap fr (of_nat (length fr)) m = (False, m')"
    and "assembling n fr m'"
proof -
  have "unat (env_bodySize m) < 2 ^ 64" using unsigned_less [of "env_bodySize m"] by simp
  then have "n < 2 ^ 64" using assms(2) by simp
  then have fr: "unat (of_nat (length fr) :: u64) = length fr"
    using assms(3) by (intro frame_size) simp
  have lt: "\<not> env_bodySize m \<le> of_nat (length fr)"
    using assms(2,3) fr by (simp add: word_le_nat_alt)
  then have mn: "min (of_nat (length fr)) (env_bodySize m) = of_nat (length fr)"
    by (intro min_absorb1) (meson le_cases)
  let ?m = "m\<lparr>env_body := Owned (overwrite 0 fr (heap n)), ms_filled := of_nat (length fr)\<rparr>"
  have "Message_append heap fr (of_nat (length fr)) m = (False, ?m)"
    using assms(1,2) lt mn fr by (simp add: Message_append_def Let_def)
  moreover have "assembling n fr ?m"
    using assms(2-4) fr by (simp add: assembling_def overwrite_def)
  ultimately show ?thesis by (rule that)
qed

subsection \<open>Properties\<close>

text \<open>
  C29. Assembly of a message that comes in several frames: whatever its announced size and however the
  octets are cut into frames, the body is the first \<open>bodySize\<close> octets received, nothing is written
  outside the block, and \<open>append\<close> returns true exactly from the frame on that completes the body.
\<close>

theorem message_assembly:
  assumes "unat n \<le> length (concat (fr # frs))"
    and "length fr < unat n" and "\<forall>f \<in> set frs. length f < 2 ^ 64"
    and "\<And>k. length (heap k) = k"
  shows "let (dones, m) = append_frames heap (fr # frs) (setBodySize n (new_Message T ex rk))
    in Envelope_body m = take (unat n) (concat (fr # frs)) \<and>
       dones = map (\<lambda>k. unat n \<le> length (concat (take (Suc k) (fr # frs)))) [0..<length (fr # frs)]"
proof -
  let ?m0 = "setBodySize n (new_Message T ex rk)"
  have m0: "env_body ?m0 = No_body" "unat (env_bodySize ?m0) = unat n"
    by (simp_all add: setBodySize_def new_Message_def new_Envelope_def envelope.defs metadata.defs)
  obtain m1 where m1: "Message_append heap fr (of_nat (length fr)) ?m0 = (False, m1)" "assembling (unat n) fr m1"
    using append_first [OF m0 assms(2), of heap] assms(4) by blast
  note r = append_frames_owned [OF m1(2) assms(3), of heap]
  have "assembling (unat n) (concat (fr # frs)) (snd (append_frames heap frs m1))" using r by simp
  then have b: "Envelope_body (snd (append_frames heap frs m1)) = take (unat n) (concat (fr # frs))"
    using assms(1) by (auto simp: assembling_def Envelope_body_def min_def split: if_splits)
  have "[0..<length (fr # frs)] = 0 # map Suc [0..<length frs]"
    by (simp add: upt_conv_Cons map_Suc_upt del: upt_Suc)
  then show ?thesis
    using m1(1) r b assms(2) by (simp add: split_def)
qed

definition zero_heap :: "nat \<Rightarrow> octets" where
  "zero_heap k = replicate k 0"

theorem message_assembly_witness:
  "Envelope_body (snd (append_frames zero_heap [[1, 2], [3], [4, 5]] (setBodySize 4 (new_Message unit_table [] [])))) =
     [1, 2, 3, 4]"
proof -
  have h: "unat (4 :: u64) \<le> length (concat [[1, 2], [3 :: byte], [4, 5]])" "length [1 :: byte, 2] < unat (4 :: u64)"
      "\<forall>f \<in> set [[3 :: byte], [4, 5]]. length f < 2 ^ 64" "\<And>k. length (zero_heap k) = k"
    by (simp_all add: zero_heap_def)
  show ?thesis
    using message_assembly [OF h, of unit_table "[]" "[]"] by (simp add: split_def Let_def)
qed

text \<open>
  A message that comes in one frame is complete, and its body readable, after the call, but
  \<open>append\<close> returns false for it unless the body is empty, against what its comment promises.
\<close>

theorem single_frame_message:
  assumes "unat n \<le> length fr" and "length fr < 2 ^ 64"
  shows "let (done, m) = Message_append heap fr (of_nat (length fr)) (setBodySize n (new_Message T ex rk))
    in Envelope_body m = take (unat n) fr \<and> (done \<longleftrightarrow> n = 0)"
proof -
  have "n \<le> of_nat (length fr)" using assms frame_size [OF assms(2)] by (simp add: word_le_nat_alt)
  then show ?thesis
    by (simp add: Message_append_def setBodySize_def new_Message_def new_Envelope_def envelope.defs
        metadata.defs Envelope_body_def Let_def)
qed

theorem single_frame_message_witness:
  "\<not> fst (Message_append zero_heap [7, 8] 2 (setBodySize 2 (new_Message unit_table [] [])))"
proof -
  have h: "unat (2 :: u64) \<le> length [7 :: byte, 8]" "length [7 :: byte, 8] < 2 ^ 64" by simp_all
  show ?thesis
    using single_frame_message [OF h, of zero_heap unit_table "[]" "[]"] by (simp add: split_def Let_def)
qed

end
