(* ===== verification/Amqp_Address.thy ===== *)
theory Amqp_Address
  imports Streams "HOL-Library.Char_ord" "HOL-Library.List_Lexorder" "HOL-Library.Product_Lexorder"
begin

section \<open>AMQP: logins and server addresses\<close>

text \<open>
  \<open>include/amqpcpp/\<close>: \<open>login.h\<close>, \<open>address.h\<close>, \<open>addresses.h\<close>. The control channel parses the
  connection string of the command line with \<open>Address\<close>. An address is parsed from a pointer and a
  size: \<open>mem\<close> is the memory from the pointer on, of which the scheme test (\<open>strncmp\<close>) may read more
  than \<open>size\<close> characters, while everything after it is limited to \<open>size\<close>. A size smaller than the
  scheme makes \<open>memchr\<close> search a negative length: a fault.
\<close>

definition NUL :: char where
  "NUL = CHR 0x00"

subsection \<open>Login\<close>

datatype login = Login (login_user: string) (login_password: string)

definition default_Login :: login where
  "default_Login = Login ''guest'' ''guest''"

definition Login_set :: "login \<Rightarrow> bool" where
  "Login_set l \<longleftrightarrow> login_user l \<noteq> [] \<or> login_password l \<noteq> []"

definition Login_unset :: "login \<Rightarrow> bool" where
  "Login_unset l \<longleftrightarrow> login_user l = [] \<and> login_password l = []"

definition saslPlain :: "login \<Rightarrow> string" where
  "saslPlain l = (([NUL] @ login_user l) @ [NUL]) @ login_password l"

definition Login_eq :: "login \<Rightarrow> login \<Rightarrow> bool" where
  "Login_eq a b \<longleftrightarrow> login_user a = login_user b \<and> login_password a = login_password b"

definition Login_less :: "login \<Rightarrow> login \<Rightarrow> bool" where
  "Login_less a b =
     (if login_user a \<noteq> login_user b then login_user a < login_user b
      else login_password a < login_password b)"

definition Login_output :: "login \<Rightarrow> string" where
  "Login_output l = login_user l @ '':'' @ login_password l"

lemma Login_eq_iff: "Login_eq a b \<longleftrightarrow> a = b"
  by (cases a; cases b) (simp add: Login_eq_def)

lemma Login_less_pair:
  "Login_less a b \<longleftrightarrow> (login_user a, login_password a) < (login_user b, login_password b)"
  by (auto simp: Login_less_def)

lemma Login_unset_iff: "Login_unset l \<longleftrightarrow> \<not> Login_set l"
  by (simp add: Login_unset_def Login_set_def)

text \<open>The order of the code is a linear order, so logins are an instance of the class.\<close>

instantiation login :: linorder
begin

definition less_login :: "login \<Rightarrow> login \<Rightarrow> bool" where
  "less_login a b \<longleftrightarrow> Login_less a b"

definition less_eq_login :: "login \<Rightarrow> login \<Rightarrow> bool" where
  "less_eq_login a b \<longleftrightarrow> a = b \<or> Login_less a b"

instance
proof
  fix a b c :: login
  show "a < b \<longleftrightarrow> a \<le> b \<and> \<not> b \<le> a"
    by (auto simp: less_login_def less_eq_login_def Login_less_pair)
  show "a \<le> a" by (simp add: less_eq_login_def)
  show "a \<le> b \<Longrightarrow> b \<le> c \<Longrightarrow> a \<le> c"
    by (auto simp: less_eq_login_def Login_less_pair)
  show "a \<le> b \<Longrightarrow> b \<le> a \<Longrightarrow> a = b"
    by (auto simp: less_eq_login_def Login_less_pair)
  show "a \<le> b \<or> b \<le> a"
    by (cases a; cases b) (auto simp: less_eq_login_def Login_less_pair)
qed

end

subsection \<open>Address\<close>

record address =
  ad_secure :: bool
  ad_login :: login
  ad_hostname :: string
  ad_port :: u16
  ad_vhost :: string

datatype address_error = Bad_scheme | Search_out_of_range | No_addresses

definition new_Address :: "string \<Rightarrow> u16 \<Rightarrow> login \<Rightarrow> string \<Rightarrow> bool \<Rightarrow> address" where
  "new_Address hst prt lgn vhst secure =
     \<lparr>ad_secure = secure, ad_login = lgn, ad_hostname = hst, ad_port = prt, ad_vhost = vhst\<rparr>"

definition defaultport :: "bool \<Rightarrow> u16" where
  "defaultport secure = (if secure then 5671 else 5672)"

definition Address_secure :: "address \<Rightarrow> bool" where
  "Address_secure a = ad_secure a"

definition Address_login :: "address \<Rightarrow> login" where
  "Address_login a = ad_login a"

definition Address_hostname :: "address \<Rightarrow> string" where
  "Address_hostname a = ad_hostname a"

definition Address_port :: "address \<Rightarrow> u16" where
  "Address_port a = ad_port a"

definition Address_vhost :: "address \<Rightarrow> string" where
  "Address_vhost a = ad_vhost a"

definition memchr :: "char \<Rightarrow> string \<Rightarrow> nat option" where
  "memchr c s =
     (let k = length (takeWhile (\<lambda>x. x \<noteq> c) s) in if k < length s then Some k else None)"

definition parse_login :: "string \<Rightarrow> login" where
  "parse_login s =
     (case memchr (CHR '':'') s of
        None \<Rightarrow> Login s []
      | Some k \<Rightarrow> Login (take k s) (drop (Suc k) s))"

definition parse_location :: "bool \<Rightarrow> login \<Rightarrow> string \<Rightarrow> address" where
  "parse_location secure lgn data =
     (let slash = memchr (CHR ''/'') data;
          vhst = (case slash of
             None \<Rightarrow> ''/''
           | Some k \<Rightarrow> if length data - k > 1 then drop (Suc k) data else ''/'');
          colon = memchr (CHR '':'') data
      in case colon of
           Some c \<Rightarrow>
             (case slash of
                None \<Rightarrow> new_Address (take c data) (ucast (atoi (drop (Suc c) data))) lgn vhst secure
              | Some k \<Rightarrow>
                  if c < k
                  then new_Address (take c data) (ucast (atoi (take (k - c - 1) (drop (Suc c) data)))) lgn vhst secure
                  else new_Address (take k data) (defaultport secure) lgn vhst secure)
         | None \<Rightarrow>
             new_Address (case slash of None \<Rightarrow> data | Some k \<Rightarrow> take k data) (defaultport secure) lgn vhst secure)"

definition parse_Address :: "string \<Rightarrow> nat \<Rightarrow> address_error + address" where
  "parse_Address mem sz =
     (let secure = (take 8 mem = ''amqps://'')
      in if \<not> secure \<and> take 7 mem \<noteq> ''amqp://'' then Inl Bad_scheme
         else
           let n = (if secure then 8 else 7)
           in if sz < n then Inl Search_out_of_range
              else
                let data = drop n (take sz mem)
                in case memchr (CHR ''@'') data of
                     None \<Rightarrow> Inr (parse_location secure default_Login data)
                   | Some k \<Rightarrow> Inr (parse_location secure (parse_login (take k data)) (drop (Suc k) data)))"

definition Address_of_string :: "string \<Rightarrow> address_error + address" where
  "Address_of_string s = parse_Address s (length s)"

text \<open>The cast to a string, and the stream output, which treats login and port differently.\<close>

definition Address_string :: "address \<Rightarrow> string" where
  "Address_string a =
     (if ad_secure a then ''amqps://'' else ''amqp://'') @
     login_user (ad_login a) @ '':'' @ login_password (ad_login a) @ ''@'' @ ad_hostname a @
     (if ad_port a \<noteq> 5672 then '':'' @ show_nat (unat (ad_port a)) else []) @
     ''/'' @ (if ad_vhost a \<noteq> ''/'' then ad_vhost a else [])"

definition Address_output :: "address \<Rightarrow> string" where
  "Address_output a =
     (if ad_secure a then ''amqps://'' else ''amqp://'') @
     (if Login_set (ad_login a) then Login_output (ad_login a) @ ''@'' else []) @ ad_hostname a @
     (if ad_port a \<noteq> defaultport (ad_secure a) then '':'' @ show_nat (unat (ad_port a)) else []) @
     ''/'' @ (if ad_vhost a \<noteq> ''/'' then ad_vhost a else [])"

text \<open>\<open>strcasecmp\<close> on C strings: lower case in the C locale, compared as unsigned characters.\<close>

definition c_string :: "string \<Rightarrow> string" where
  "c_string s = takeWhile (\<lambda>c. c \<noteq> NUL) s"

definition to_lower :: "char \<Rightarrow> char" where
  "to_lower c = (if 65 \<le> (of_char c :: nat) \<and> (of_char c :: nat) \<le> 90 then char_of ((of_char c :: nat) + 32) else c)"

fun compare_lower :: "string \<Rightarrow> string \<Rightarrow> int" where
  "compare_lower [] [] = 0"
| "compare_lower [] (d # ds) = - int (of_char (to_lower d))"
| "compare_lower (c # cs) [] = int (of_char (to_lower c))"
| "compare_lower (c # cs) (d # ds) =
     (if to_lower c = to_lower d then compare_lower cs ds
      else int (of_char (to_lower c)) - int (of_char (to_lower d)))"

definition strcasecmp :: "string \<Rightarrow> string \<Rightarrow> int" where
  "strcasecmp a b = compare_lower (c_string a) (c_string b)"

definition Address_eq :: "address \<Rightarrow> address \<Rightarrow> bool" where
  "Address_eq a b =
     (if ad_secure a \<noteq> ad_secure b then False
      else if \<not> Login_eq (ad_login a) (ad_login b) then False
      else if strcasecmp (ad_hostname a) (ad_hostname b) \<noteq> 0 then False
      else if ad_port a \<noteq> ad_port b then False
      else ad_vhost a = ad_vhost b)"

definition Address_less :: "address \<Rightarrow> address \<Rightarrow> bool" where
  "Address_less a b =
     (if ad_secure a \<noteq> ad_secure b then \<not> ad_secure a
      else if \<not> Login_eq (ad_login a) (ad_login b) then Login_less (ad_login a) (ad_login b)
      else
        let result = strcasecmp (ad_hostname a) (ad_hostname b)
        in if result \<noteq> 0 then result < 0
           else if ad_port a \<noteq> ad_port b then ad_port a < ad_port b
           else ad_vhost a < ad_vhost b)"

subsection \<open>Addresses\<close>

text \<open>
  The loop over a comma separated list. The size of an address is computed as the distance to the
  comma minus one, in a \<open>size_t\<close>, and the buffer advances by that size plus one.
\<close>

lemma memchr_bound: "memchr c s = Some k \<Longrightarrow> k < length s \<and> s ! k = c"
proof -
  assume "memchr c s = Some k"
  then have k: "k = length (takeWhile (\<lambda>x. x \<noteq> c) s)" "k < length s"
    by (auto simp: memchr_def Let_def split: if_splits)
  then have "s ! k = c" using nth_length_takeWhile [of "\<lambda>x. x \<noteq> c" s] by simp
  with k show ?thesis by simp
qed

lemma parse_Address_comma: "parse_Address (CHR '','' # mem) n = Inl Bad_scheme"
  by (simp add: parse_Address_def)

lemma memchr_first: "memchr c s = Some 0 \<longleftrightarrow> (\<exists>r. s = c # r)"
  by (cases s) (auto simp: memchr_def Let_def)

function addresses_loop :: "string \<Rightarrow> u64 \<Rightarrow> address list \<Rightarrow> address_error + address list \<times> string \<times> u64" where
  "addresses_loop buffer sz acc =
     (case memchr (CHR '','') (take (unat sz) buffer) of
        None \<Rightarrow> Inr (acc, buffer, sz)
      | Some k \<Rightarrow>
          let addresssize = of_nat k - 1 :: u64
          in case parse_Address buffer (unat addresssize) of
               Inl e \<Rightarrow> Inl e
             | Inr a \<Rightarrow>
                 addresses_loop (drop (unat (addresssize + 1)) buffer) (sz - (addresssize + 1)) (acc @ [a]))"
  by pat_completeness auto
termination
proof (relation "measure (\<lambda>(buffer, sz, acc). unat sz)", goal_cases)
  case 1
  then show ?case by simp
next
  case (2 buffer sz acc k addresssize a)
  have k: "k < unat sz" "k < length buffer" "buffer ! k = CHR '',''"
    using memchr_bound [OF 2(1)] by auto
  have "k \<noteq> 0"
  proof
    assume "k = 0"
    with k obtain r where "buffer = CHR '','' # r" by (cases buffer) auto
    with 2(3) show False by (simp add: parse_Address_comma)
  qed
  have "unat sz < 2 ^ 64" using unsigned_less [of sz] by simp
  then have "k < 2 ^ 64" using k(1) by linarith
  then have u: "unat (of_nat k :: u64) = k" by (simp add: unat_of_nat)
  then have "of_nat k \<le> sz" "of_nat k \<noteq> (0 :: u64)"
    using k(1) \<open>k \<noteq> 0\<close> by (auto simp: word_le_nat_alt)
  then have "unat (sz - of_nat k) < unat sz"
    using u k(1) \<open>k \<noteq> 0\<close> by (simp add: unat_sub)
  with 2(2) show ?case by simp
qed

declare addresses_loop.simps [simp del]

definition parse_Addresses :: "string \<Rightarrow> u64 \<Rightarrow> address_error + address list" where
  "parse_Addresses buffer sz =
     (case addresses_loop buffer sz [] of
        Inl e \<Rightarrow> Inl e
      | Inr (as, buffer', sz') \<Rightarrow>
          (case (if 0 < sz' then map_sum (\<lambda>e. e) (\<lambda>a. as @ [a]) (parse_Address buffer' (unat sz')) else Inr as) of
             Inl e \<Rightarrow> Inl e
           | Inr as' \<Rightarrow> if as' \<noteq> [] then Inr as' else Inl No_addresses))"

subsection \<open>Printing and parsing\<close>

lemma memchr_append:
  assumes "c \<notin> set xs"
  shows "memchr c (xs @ c # ys) = Some (length xs)"
proof -
  have "takeWhile (\<lambda>x. x \<noteq> c) (xs @ c # ys) = xs"
    using assms by (intro takeWhile_append_stop) auto
  then show ?thesis by (simp add: memchr_def)
qed

text \<open>The parts of an address that the separators do not cut.\<close>

definition address_ok :: "address \<Rightarrow> bool" where
  "address_ok a \<longleftrightarrow>
     (\<forall>c \<in> set (login_user (ad_login a)). c \<noteq> CHR '':'' \<and> c \<noteq> CHR ''@'') \<and>
     (\<forall>c \<in> set (login_password (ad_login a)). c \<noteq> CHR ''@'') \<and>
     (\<forall>c \<in> set (ad_hostname a). c \<noteq> CHR '':'' \<and> c \<noteq> CHR ''/'') \<and>
     ad_vhost a \<noteq> []"

lemma parse_login_printed:
  "\<forall>c \<in> set u. c \<noteq> CHR '':'' \<Longrightarrow> parse_login (u @ CHR '':'' # p) = Login u p"
proof -
  assume "\<forall>c \<in> set u. c \<noteq> CHR '':''"
  then have "CHR '':'' \<notin> set u" by blast
  then show ?thesis by (simp add: parse_login_def memchr_append)
qed

text \<open>The location of a printed address, with a printed port and without one.\<close>

definition vhost_part :: "string \<Rightarrow> string" where
  "vhost_part v = (if v \<noteq> ''/'' then v else [])"

lemma vhost_parsed:
  assumes "v \<noteq> []" and "CHR ''/'' \<notin> set pre"
  shows "memchr (CHR ''/'') (pre @ CHR ''/'' # vhost_part v) = Some (length pre)"
    and "(if length (pre @ CHR ''/'' # vhost_part v) - length pre > 1
          then drop (Suc (length pre)) (pre @ CHR ''/'' # vhost_part v) else ''/'') = v"
  using assms by (auto simp: memchr_append vhost_part_def)

lemma parse_location_port:
  assumes h: "\<forall>c \<in> set h. c \<noteq> CHR '':'' \<and> c \<noteq> CHR ''/''" and v: "v \<noteq> []"
  shows "parse_location secure lgn (h @ CHR '':'' # show_nat (unat (p :: u16)) @ CHR ''/'' # vhost_part v) =
    new_Address h p lgn v secure"
proof -
  let ?pre = "h @ CHR '':'' # show_nat (unat p)"
  have "CHR ''/'' \<notin> set (show_nat (unat p))"
    using show_nat_digits [of "unat p"] by (auto simp: isdigit_def)
  then have pre: "CHR ''/'' \<notin> set ?pre" using h by auto
  note vh = vhost_parsed [OF v pre]
  have c: "memchr (CHR '':'') (?pre @ CHR ''/'' # vhost_part v) = Some (length h)"
    using memchr_append [of "CHR '':''" h] h by simp blast
  have "unat p < 2 ^ 16" using unsigned_less [of p] by simp
  then have "atoi (show_nat (unat p)) = of_nat (unat p)" by (intro atoi_show_nat) simp
  moreover have "ucast (of_nat (unat p) :: c_int) = p"
    by transfer (simp add: take_bit_eq_mod)
  ultimately have port: "ucast (atoi (show_nat (unat p))) = p" by simp
  have "parse_location secure lgn (?pre @ CHR ''/'' # vhost_part v) = new_Address h p lgn v secure"
    unfolding parse_location_def Let_def vh(1) c option.case vh(2)
    using port by simp
  then show ?thesis by simp
qed

lemma parse_location_no_port:
  assumes h: "\<forall>c \<in> set h. c \<noteq> CHR '':'' \<and> c \<noteq> CHR ''/''" and v: "v \<noteq> []"
  shows "parse_location secure lgn (h @ CHR ''/'' # vhost_part v) =
    new_Address h (defaultport secure) lgn v secure"
proof -
  have pre: "CHR ''/'' \<notin> set h" using h by auto
  note vh = vhost_parsed [OF v pre]
  show ?thesis
  proof (cases "memchr (CHR '':'') (h @ CHR ''/'' # vhost_part v)")
    case None
    show ?thesis unfolding parse_location_def Let_def vh(1) None option.case vh(2) by simp
  next
    case (Some k)
    have "\<not> k < length h"
    proof
      assume "k < length h"
      then have "(h @ CHR ''/'' # vhost_part v) ! k \<in> set h" by (simp add: nth_append)
      with memchr_bound [OF Some] h show False by auto
    qed
    then show ?thesis unfolding parse_location_def Let_def vh(1) Some option.case vh(2) by simp
  qed
qed

lemma parse_printed:
  assumes "\<forall>c \<in> set u. c \<noteq> CHR '':'' \<and> c \<noteq> CHR ''@''" and "\<forall>c \<in> set p. c \<noteq> CHR ''@''"
  shows "Address_of_string ((if secure then ''amqps://'' else ''amqp://'') @ u @ '':'' @ p @ ''@'' @ loc) =
    Inr (parse_location secure (Login u p) loc)"
proof -
  have at: "CHR ''@'' \<notin> set (u @ CHR '':'' # p)" using assms by auto
  have m: "memchr (CHR ''@'') ((u @ CHR '':'' # p) @ CHR ''@'' # loc) = Some (length (u @ CHR '':'' # p))"
    by (rule memchr_append [OF at])
  have l: "parse_login (u @ CHR '':'' # p) = Login u p" using assms by (intro parse_login_printed) auto
  show ?thesis
    using m l by (simp add: Address_of_string_def parse_Address_def Let_def)
qed


text \<open>
  The exception is real: a secure address with port 5672 is printed without its port, so the
  parsed address has port 5671 instead.
\<close>

theorem secure_port_5672_is_lost:
  assumes "address_ok a" and "ad_secure a" and "ad_port a = 5672"
  shows "Address_of_string (Address_string a) = Inr (a\<lparr>ad_port := 5671\<rparr>)"
proof -
  let ?l = "Login (login_user (ad_login a)) (login_password (ad_login a))"
  have h: "\<forall>c \<in> set (ad_hostname a). c \<noteq> CHR '':'' \<and> c \<noteq> CHR ''/''" and v: "ad_vhost a \<noteq> []"
    using assms(1) by (simp_all add: address_ok_def)
  let ?loc = "ad_hostname a @ ''/'' @ vhost_part (ad_vhost a)"
  have "Address_of_string (Address_string a) = Inr (parse_location (ad_secure a) ?l ?loc)"
    using parse_printed [of "login_user (ad_login a)" "login_password (ad_login a)" "ad_secure a" ?loc] assms
    by (simp add: Address_string_def address_ok_def vhost_part_def)
  then show ?thesis
    using parse_location_no_port [OF h v, of "ad_secure a" ?l] assms(2)
    by (simp add: defaultport_def new_Address_def)
qed

definition example_address :: address where
  "example_address = new_Address ''rabbit'' 5672 (Login ''u'' ''p:q'') ''v:h@x'' False"

lemma example_address_ok: "address_ok example_address" "address_ok (example_address\<lparr>ad_secure := True\<rparr>)"
  by (simp_all add: example_address_def new_Address_def address_ok_def)


theorem secure_port_5672_is_lost_witness:
  "Address_of_string (Address_string (example_address\<lparr>ad_secure := True\<rparr>)) =
     Inr (example_address\<lparr>ad_secure := True, ad_port := 5671\<rparr>)"
  using secure_port_5672_is_lost [OF example_address_ok(2)] by (simp add: example_address_def new_Address_def)

subsection \<open>The order of addresses\<close>

definition address_key :: "address \<Rightarrow> bool \<times> (string \<times> string) \<times> string \<times> u16 \<times> string" where
  "address_key a =
     (ad_secure a, (login_user (ad_login a), login_password (ad_login a)),
      map to_lower (c_string (ad_hostname a)), ad_port a, ad_vhost a)"

lemma to_lower_pos:
  assumes "c \<noteq> NUL"
  shows "0 < (of_char (to_lower c) :: nat)"
proof -
  have n: "(of_char c :: nat) \<noteq> 0"
  proof
    assume "(of_char c :: nat) = 0"
    also have "(0 :: nat) = of_char NUL" by (simp add: NUL_def)
    finally have "c = NUL" by (simp only: of_char_eq_iff)
    with assms show False by simp
  qed
  show ?thesis
  proof (cases "65 \<le> (of_char c :: nat) \<and> (of_char c :: nat) \<le> 90")
    case True
    then have "((of_char c :: nat) + 32) mod 256 = of_char c + 32" by simp
    with True show ?thesis by (simp add: to_lower_def of_char_of)
  next
    case False
    with n show ?thesis by (auto simp: to_lower_def)
  qed
qed

lemma compare_lower_order:
  assumes "\<forall>c \<in> set a. c \<noteq> NUL" and "\<forall>c \<in> set b. c \<noteq> NUL"
  shows "(compare_lower a b = 0 \<longleftrightarrow> map to_lower a = map to_lower b) \<and>
    (compare_lower a b < 0 \<longleftrightarrow> map to_lower a < map to_lower b)"
  using assms
proof (induction a b rule: compare_lower.induct)
  case (2 d ds)
  then show ?case using to_lower_pos [of d] by simp
next
  case (3 c cs)
  then show ?case using to_lower_pos [of c] by simp
next
  case (4 c cs d ds)
  have "(of_char (to_lower c) :: nat) = of_char (to_lower d) \<longleftrightarrow> to_lower c = to_lower d"
    by (rule of_char_eq_iff)
  with 4 show ?case by (auto simp: less_char_def)
qed simp

lemma c_string_NUL: "\<forall>c \<in> set (c_string s). c \<noteq> NUL"
  by (auto simp: c_string_def dest: set_takeWhileD)

lemma strcasecmp_order:
  "strcasecmp a b = 0 \<longleftrightarrow> map to_lower (c_string a) = map to_lower (c_string b)"
  "strcasecmp a b < 0 \<longleftrightarrow> map to_lower (c_string a) < map to_lower (c_string b)"
  using compare_lower_order [OF c_string_NUL c_string_NUL] by (simp_all add: strcasecmp_def)

lemma Address_less_key: "Address_less a b \<longleftrightarrow> address_key a < address_key b"
proof -
  have r: "strcasecmp (ad_hostname a) (ad_hostname b) \<noteq> 0 \<Longrightarrow>
      map to_lower (c_string (ad_hostname a)) \<noteq> map to_lower (c_string (ad_hostname b))"
    by (simp add: strcasecmp_order)
  show ?thesis
    by (auto simp: Address_less_def address_key_def Let_def Login_eq_def Login_less_def strcasecmp_order)
qed

lemma Address_eq_key: "Address_eq a b \<longleftrightarrow> address_key a = address_key b"
  by (auto simp: Address_eq_def address_key_def Login_eq_def strcasecmp_order)

text \<open>
  The comparison of addresses is a strict order whose incomparable pairs are the equal ones
  (host names compared without regard to case), so addresses can be sorted and searched with it.
\<close>

theorem address_order:
  "\<not> Address_less a a \<and>
   \<not> (Address_less a b \<and> Address_less b c \<and> \<not> Address_less a c) \<and>
   (Address_eq a b \<longleftrightarrow> \<not> Address_less a b \<and> \<not> Address_less b a)"
proof -
  have "\<not> x < x \<and> \<not> (x < y \<and> y < z \<and> \<not> x < z) \<and> (x = y \<longleftrightarrow> \<not> x < y \<and> \<not> y < x)"
    for x y z :: "'k::linorder"
    by auto
  then show ?thesis unfolding Address_less_key Address_eq_key .
qed

subsection \<open>Lists of addresses\<close>

text \<open>
  A comma separated list is never accepted: the size passed for the first address leaves out
  its last character, the buffer is then set to the comma itself instead of after it, and the next
  address is parsed from the comma, which is an error.
\<close>

theorem address_list_is_rejected:
  assumes "CHR '','' \<in> set (take (unat n) buffer)"
  shows "\<exists>e. parse_Addresses buffer n = Inl e"
proof -
  obtain k where k: "memchr (CHR '','') (take (unat n) buffer) = Some k"
    using memchr_append split_list_first [OF assms] by metis
  show ?thesis
  proof (cases "parse_Address buffer (unat (of_nat k - 1 :: u64))")
    case (Inl e)
    then show ?thesis
      using k by (simp add: parse_Addresses_def addresses_loop.simps [of buffer n])
  next
    case (Inr a)
    have b: "k < unat n" "k < length buffer" "buffer ! k = CHR '',''" using memchr_bound [OF k] by auto
    have "unat n < 2 ^ 64" using unsigned_less [of n] by simp
    then have "k < 2 ^ 64" using b(1) by linarith
    then have u: "unat (of_nat k :: u64) = k" by (simp add: unat_of_nat)
    let ?buf = "drop k buffer" and ?n = "n - of_nat k"
    have "of_nat k \<le> n" using b(1) u by (simp add: word_le_nat_alt)
    then have n: "unat ?n = unat n - k" using u by (simp add: unat_sub)
    obtain r where r: "?buf = CHR '','' # r" using b by (metis Cons_nth_drop_Suc)
    have "addresses_loop ?buf ?n [a] = Inl Bad_scheme"
    proof -
      have "memchr (CHR '','') (take (unat ?n) ?buf) = Some 0"
        using b(1) n r by (simp add: memchr_first take_Cons')
      then show ?thesis
        using r by (subst addresses_loop.simps) (simp add: parse_Address_comma)
    qed
    then show ?thesis
      using k Inr u by (simp add: parse_Addresses_def addresses_loop.simps [of buffer n])
  qed
qed

theorem address_list_is_rejected_witness:
  "\<exists>e. parse_Addresses ''amqp://a/,amqp://b/'' 19 = Inl e"
  by (rule address_list_is_rejected) code_simp

text \<open>
  The credentials that are sent are unambiguous: two logins whose user names hold no zero
  octet have the same SASL PLAIN text only if they are the same login.
\<close>

theorem saslPlain_injective:
  assumes "NUL \<notin> set (login_user a)" and "NUL \<notin> set (login_user b)"
    and "saslPlain a = saslPlain b"
  shows "a = b"
proof -
  have t: "takeWhile (\<lambda>c. c \<noteq> NUL) (login_user l @ NUL # login_password l) = login_user l"
    if "NUL \<notin> set (login_user l)" for l
    using that by (intro takeWhile_append_stop) auto
  have "login_user a @ NUL # login_password a = login_user b @ NUL # login_password b"
    using assms(3) by (simp add: saslPlain_def)
  then show ?thesis using t [OF assms(1)] t [OF assms(2)] by (cases a; cases b) auto
qed

theorem saslPlain_injective_witness:
  "saslPlain (Login ''a'' ''bc'') \<noteq> saslPlain (Login ''ab'' ''c'')"
proof
  assume e: "saslPlain (Login ''a'' ''bc'') = saslPlain (Login ''ab'' ''c'')"
  have "Login ''a'' ''bc'' = Login ''ab'' ''c''"
    by (rule saslPlain_injective [OF _ _ e]) (simp_all add: NUL_def)
  then show False by simp
qed

end
