(* ===== verification/Amqp_Connection.thy ===== *)
theory Amqp_Connection
  imports Amqp_Address Amqp_Wire
begin

section \<open>AMQP: connection state, monitors and the libevent handler\<close>

text \<open>
  \<open>include/amqpcpp/\<close>: the operations of \<open>connectionimpl.h\<close> that are implemented in the header,
  \<open>watchable.h\<close> and \<open>monitor.h\<close>, \<open>stack_ptr.h\<close>, and \<open>libevent.h\<close>, the handler that the control channel
  gives its connection.
\<close>

subsection \<open>ConnectionImpl\<close>

datatype connection_state = Cs_protocol | Cs_handshake | Cs_connected | Cs_closing | Cs_closed

record connection_impl =
  ci_state :: connection_state
  ci_closed :: bool
  ci_channels :: "u16 \<rightharpoonup> addr"
  ci_nextFreeChannel :: u16
  ci_maxChannels :: u16
  ci_maxFrame :: u32
  ci_expected :: u32
  ci_login :: login
  ci_vhost :: string
  ci_queue :: "octets list"

text \<open>The members as their initialisers set them.\<close>

definition initial_ConnectionImpl :: "login \<Rightarrow> string \<Rightarrow> connection_impl" where
  "initial_ConnectionImpl lgn vhst =
     \<lparr>ci_state = Cs_protocol, ci_closed = False, ci_channels = Map.empty, ci_nextFreeChannel = 1,
      ci_maxChannels = 0, ci_maxFrame = 4096, ci_expected = 7, ci_login = lgn, ci_vhost = vhst,
      ci_queue = []\<rparr>"

datatype handler_call = Call_onProperties | Call_onClosed | Call_onNegotiate u16 | Call_onHeartbeat

definition protocolOk :: "connection_impl \<Rightarrow> bool" where
  "protocolOk c \<longleftrightarrow> ci_state c = Cs_handshake \<or> ci_state c = Cs_connected"

text \<open>\<open>user\<close> is what the handler does to the connection; \<open>None\<close> if it destroys it.\<close>

definition setProtocolOk ::
  "(connection_impl \<Rightarrow> connection_impl option) \<Rightarrow> connection_impl \<Rightarrow> connection_impl option" where
  "setProtocolOk user c =
     (case user c of
        None \<Rightarrow> None
      | Some c' \<Rightarrow> Some (if ci_state c' = Cs_protocol then c'\<lparr>ci_state := Cs_handshake\<rparr> else c'))"

definition ci_ready :: "connection_impl \<Rightarrow> bool" where
  "ci_ready c \<longleftrightarrow> ci_state c = Cs_connected"

definition ci_is_closing :: "connection_impl \<Rightarrow> bool" where
  "ci_is_closing c \<longleftrightarrow> ci_state c = Cs_closing"

definition ci_is_closed :: "connection_impl \<Rightarrow> bool" where
  "ci_is_closed c \<longleftrightarrow> ci_state c = Cs_closed"

definition ci_usable :: "connection_impl \<Rightarrow> bool" where
  "ci_usable c \<longleftrightarrow>
     (ci_state c = Cs_protocol \<or> ci_state c = Cs_handshake \<or> ci_state c = Cs_connected) \<and> \<not> ci_closed c"

definition setCapacity :: "u16 \<Rightarrow> u32 \<Rightarrow> connection_impl \<Rightarrow> connection_impl" where
  "setCapacity channels sz c = c\<lparr>ci_maxChannels := channels, ci_maxFrame := sz\<rparr>"

definition maxPayload :: "connection_impl \<Rightarrow> u32" where
  "maxPayload c = ci_maxFrame c - 8"

text \<open>\<open>channel\<close> takes an \<open>int\<close>, which the lookup converts to the 16-bit key type.\<close>

definition ci_channel :: "c_int \<Rightarrow> connection_impl \<Rightarrow> addr option" where
  "ci_channel number c = ci_channels c (ucast number)"

definition ci_get_login :: "connection_impl \<Rightarrow> login" where
  "ci_get_login c = ci_login c"

definition ci_get_vhost :: "connection_impl \<Rightarrow> string" where
  "ci_get_vhost c = ci_vhost c"

definition ci_get_maxFrame :: "connection_impl \<Rightarrow> u32" where
  "ci_get_maxFrame c = ci_maxFrame c"

definition ci_get_expected :: "connection_impl \<Rightarrow> u32" where
  "ci_get_expected c = ci_expected c"

definition ci_channel_count :: "connection_impl \<Rightarrow> nat" where
  "ci_channel_count c = card (dom (ci_channels c))"

definition ci_reportHeartbeat :: "connection_impl \<Rightarrow> handler_call list" where
  "ci_reportHeartbeat c = [Call_onHeartbeat]"

definition ci_reportClosed :: "connection_impl \<Rightarrow> connection_impl \<times> handler_call list" where
  "ci_reportClosed c = (c\<lparr>ci_state := Cs_closed\<rparr>, [Call_onClosed])"

definition setHeartbeat :: "(u16 \<Rightarrow> u16) \<Rightarrow> u16 \<Rightarrow> connection_impl \<Rightarrow> u16 \<times> handler_call list" where
  "setHeartbeat negotiate hb c = (negotiate hb, [Call_onNegotiate hb])"

text \<open>
  The payload a frame may carry: 8 octets less than the frame size, unless the capacity was set to
  less than 8 octets, as with the size 0 that a server proposes for "no limit": then the
  subtraction wraps and almost \<open>2 ^ 32\<close> octets are allowed.
\<close>

theorem maxPayload_bounds:
  "(8 \<le> unat sz \<longrightarrow> unat (maxPayload (setCapacity n sz c)) + 8 = unat sz) \<and>
   (unat sz < 8 \<longrightarrow> unat (maxPayload (setCapacity n sz c)) = 2 ^ 32 - 8 + unat sz)"
proof -
  have "unat (sz - 8) + 8 = unat sz" if "8 \<le> unat sz"
    using that by (simp add: unat_sub word_le_nat_alt)
  moreover have "unat (sz - 8) = 2 ^ 32 - 8 + unat sz" if "unat sz < 8"
    using that unat_sub_if' [of sz 8] by simp
  ultimately show ?thesis by (simp add: maxPayload_def setCapacity_def)
qed

subsection \<open>Watchable and Monitor\<close>

text \<open>
  Watchable objects keep the list of the monitors that watch them. A monitor is named by a number;
  \<open>w_target\<close> is its \<open>_watchable\<close> pointer (\<open>None\<close> is the null pointer).
\<close>

record watch_state =
  w_monitors :: "addr \<Rightarrow> nat list"
  w_target :: "nat \<Rightarrow> addr option"

definition Watchable_add :: "addr \<Rightarrow> nat \<Rightarrow> watch_state \<Rightarrow> watch_state" where
  "Watchable_add w m s = s\<lparr>w_monitors := (w_monitors s)(w := w_monitors s w @ [m])\<rparr>"

definition Watchable_remove :: "addr \<Rightarrow> nat \<Rightarrow> watch_state \<Rightarrow> watch_state" where
  "Watchable_remove w m s = s\<lparr>w_monitors := (w_monitors s)(w := filter (\<lambda>x. x \<noteq> m) (w_monitors s w))\<rparr>"

definition Monitor_new :: "nat \<Rightarrow> addr \<Rightarrow> watch_state \<Rightarrow> watch_state" where
  "Monitor_new m w s = Watchable_add w m (s\<lparr>w_target := (w_target s)(m := Some w)\<rparr>)"

definition Monitor_copy :: "nat \<Rightarrow> nat \<Rightarrow> watch_state \<Rightarrow> watch_state" where
  "Monitor_copy m orig s =
     (let s' = s\<lparr>w_target := (w_target s)(m := w_target s orig)\<rparr>
      in case w_target s' m of None \<Rightarrow> s' | Some w \<Rightarrow> Watchable_add w m s')"

definition Monitor_assign :: "nat \<Rightarrow> nat \<Rightarrow> watch_state \<Rightarrow> watch_state" where
  "Monitor_assign m orig s =
     (let s1 = (case w_target s m of None \<Rightarrow> s | Some w \<Rightarrow> Watchable_remove w m s);
          s2 = s1\<lparr>w_target := (w_target s1)(m := w_target s1 orig)\<rparr>
      in case w_target s2 m of None \<Rightarrow> s2 | Some w \<Rightarrow> Watchable_add w m s2)"

definition Monitor_destroy :: "nat \<Rightarrow> watch_state \<Rightarrow> watch_state" where
  "Monitor_destroy m s =
     (let s1 = (case w_target s m of None \<Rightarrow> s | Some w \<Rightarrow> Watchable_remove w m s)
      in s1\<lparr>w_target := (w_target s1)(m := None)\<rparr>)"

definition Monitor_invalidate :: "nat \<Rightarrow> watch_state \<Rightarrow> watch_state" where
  "Monitor_invalidate m s = s\<lparr>w_target := (w_target s)(m := None)\<rparr>"

definition Monitor_valid :: "nat \<Rightarrow> watch_state \<Rightarrow> bool" where
  "Monitor_valid m s \<longleftrightarrow> w_target s m \<noteq> None"

text \<open>Every monitor is listed exactly once, with the object it points at, and nowhere else.\<close>

definition watch_ok :: "watch_state \<Rightarrow> bool" where
  "watch_ok s \<longleftrightarrow>
     (\<forall>w. distinct (w_monitors s w)) \<and> (\<forall>w m. m \<in> set (w_monitors s w) \<longleftrightarrow> w_target s m = Some w)"

datatype monitor_op = New nat addr | Copy nat nat | Assign nat nat | Destroy nat

text \<open>A constructor runs on memory that holds no monitor: its number has no target yet.\<close>

fun monitor_step :: "watch_state \<Rightarrow> monitor_op \<Rightarrow> watch_state" where
  "monitor_step s (New m w) = (if w_target s m = None then Monitor_new m w s else s)"
| "monitor_step s (Copy m orig) = (if w_target s m = None then Monitor_copy m orig s else s)"
| "monitor_step s (Assign m orig) = Monitor_assign m orig s"
| "monitor_step s (Destroy m) = Monitor_destroy m s"

lemma watch_ok_remove:
  assumes "watch_ok s" and "w_target s m = Some w"
  shows "watch_ok ((Watchable_remove w m s)\<lparr>w_target := (w_target s)(m := None)\<rparr>)"
  using assms by (auto simp: watch_ok_def Watchable_remove_def)

lemma watch_ok_add:
  assumes "watch_ok s" and "w_target s m = None"
  shows "watch_ok (Watchable_add w m (s\<lparr>w_target := (w_target s)(m := Some w)\<rparr>))"
proof -
  have "m \<notin> set (w_monitors s v)" for v using assms by (auto simp: watch_ok_def)
  then show ?thesis using assms by (auto simp: watch_ok_def Watchable_add_def)
qed

lemma Watchable_target [simp]:
  "w_target (Watchable_add w m s) = w_target s" "w_target (Watchable_remove w m s) = w_target s"
  by (simp_all add: Watchable_add_def Watchable_remove_def)

lemma Monitor_destroy_ok: "watch_ok s \<Longrightarrow> watch_ok (Monitor_destroy m s)"
proof (cases "w_target s m")
  case None
  then have "s\<lparr>w_target := (w_target s)(m := None)\<rparr> = s"
    by (metis fun_upd_triv watch_state.surjective watch_state.update_convs(2))
  with None show "watch_ok s \<Longrightarrow> ?thesis" by (simp add: Monitor_destroy_def)
next
  case (Some w)
  with watch_ok_remove [of s m w] show "watch_ok s \<Longrightarrow> ?thesis" by (simp add: Monitor_destroy_def)
qed

lemma Monitor_assign_destroy:
  "Monitor_assign m orig s =
     (case (if orig = m then w_target s m else w_target s orig) of
        None \<Rightarrow> Monitor_destroy m s
      | Some w \<Rightarrow> Watchable_add w m ((Monitor_destroy m s)\<lparr>w_target := (w_target (Monitor_destroy m s))(m := Some w)\<rparr>))"
  by (auto simp: Monitor_assign_def Monitor_destroy_def Let_def split: option.split)

lemma monitor_step_ok:
  assumes "watch_ok s"
  shows "watch_ok (monitor_step s e)"
proof (cases e)
  case (New m w)
  with assms watch_ok_add [of s m w] show ?thesis by (simp add: Monitor_new_def)
next
  case (Copy m orig)
  show ?thesis
  proof (cases "w_target s orig")
    case None
    then have "w_target s m = None \<Longrightarrow> s\<lparr>w_target := (w_target s)(m := None)\<rparr> = s"
      by (metis fun_upd_triv watch_state.surjective watch_state.update_convs(2))
    with None Copy assms show ?thesis by (simp add: Monitor_copy_def)
  next
    case (Some w)
    with Copy assms watch_ok_add [of s m w] show ?thesis by (simp add: Monitor_copy_def)
  qed
next
  case (Assign m orig)
  have d: "watch_ok (Monitor_destroy m s)" "w_target (Monitor_destroy m s) m = None"
    using Monitor_destroy_ok [OF assms, of m] by (simp_all add: Monitor_destroy_def Let_def)
  show ?thesis
    using Assign d watch_ok_add [OF d]
    by (auto simp: Monitor_assign_destroy split: option.split)
next
  case (Destroy m)
  with Monitor_destroy_ok [OF assms] show ?thesis by simp
qed

text \<open>
  C32. Monitors and the objects they watch agree after any sequence of constructions, copies,
  assignments (self-assignment included) and destructions: an object lists exactly the monitors
  that point at it, each once, so its destruction can invalidate all of them and only them.
\<close>

theorem monitors_agree:
  "watch_ok (foldl monitor_step \<lparr>w_monitors = (\<lambda>w. []), w_target = (\<lambda>m. None)\<rparr> ops)"
proof -
  have "watch_ok s \<Longrightarrow> watch_ok (foldl monitor_step s ops)" for s
    by (induction ops arbitrary: s) (simp_all add: monitor_step_ok)
  then show ?thesis by (simp add: watch_ok_def)
qed

subsection \<open>stack_ptr\<close>

text \<open>
  Storage for one object: what is in it when it is initialised, and the objects that were destroyed.
\<close>

record 'a stack_ptr =
  sp_object :: "'a option"
  sp_destroyed :: "'a list"

definition new_stack_ptr :: "'a stack_ptr" where
  "new_stack_ptr = \<lparr>sp_object = None, sp_destroyed = []\<rparr>"

definition sp_reset :: "'a stack_ptr \<Rightarrow> 'a stack_ptr" where
  "sp_reset p =
     (case sp_object p of
        None \<Rightarrow> p
      | Some x \<Rightarrow> p\<lparr>sp_destroyed := sp_destroyed p @ [x], sp_object := None\<rparr>)"

definition sp_construct :: "'a \<Rightarrow> 'a stack_ptr \<Rightarrow> 'a stack_ptr" where
  "sp_construct x p = (sp_reset p)\<lparr>sp_object := Some x\<rparr>"

definition sp_get :: "'a stack_ptr \<Rightarrow> 'a option" where
  "sp_get p = sp_object p"

definition sp_destructor :: "'a stack_ptr \<Rightarrow> 'a stack_ptr" where
  "sp_destructor p = sp_reset p"

text \<open>\<open>None\<close> is a reset, \<open>Some x\<close> the construction of \<open>x\<close>.\<close>

definition sp_op :: "'a stack_ptr \<Rightarrow> 'a option \<Rightarrow> 'a stack_ptr" where
  "sp_op p e = (case e of None \<Rightarrow> sp_reset p | Some x \<Rightarrow> sp_construct x p)"

lemma sp_ops:
  "sp_destroyed (sp_reset (foldl sp_op p es)) =
     sp_destroyed p @ (case sp_object p of None \<Rightarrow> [] | Some x \<Rightarrow> [x]) @ List.map_filter (\<lambda>e. e) es"
  by (induction es arbitrary: p)
    (auto simp: sp_op_def sp_reset_def sp_construct_def List.map_filter_def split: option.splits)

text \<open>
  Every object constructed in a \<open>stack_ptr\<close> is destroyed exactly once and in the order of
  construction, whatever the sequence of constructions and resets before its end.
\<close>

theorem stack_ptr_destroys_once:
  "sp_destroyed (sp_destructor (foldl sp_op new_stack_ptr es)) = List.map_filter (\<lambda>e. e) es"
  by (simp add: sp_destructor_def sp_ops new_stack_ptr_def)

subsection \<open>Watching descriptors\<close>

text \<open>
  What every event loop adapter promises for \<open>monitor\<close>: the descriptor is watched for the flags it
  was called with, not at all for the flags 0, and other descriptors are not concerned. \<open>enc\<close> is how
  the adapter stores flags, \<open>ok\<close> what its state satisfies.
\<close>

fun last_flags :: "c_int \<Rightarrow> (addr \<times> c_int \<times> c_int) list \<Rightarrow> c_int \<Rightarrow> c_int" where
  "last_flags fd [] old = old"
| "last_flags fd ((conn, fd', flags) # cs) old = last_flags fd cs (if fd' = fd then flags else old)"

locale fd_monitor =
  fixes mon :: "addr \<Rightarrow> c_int \<Rightarrow> c_int \<Rightarrow> 's \<Rightarrow> 's"
    and watched :: "c_int \<Rightarrow> 's \<Rightarrow> 'e option"
    and enc :: "c_int \<Rightarrow> 'e"
    and ok :: "'s \<Rightarrow> bool"
  assumes watched_mon: "ok s \<Longrightarrow>
      watched fd (mon conn fd' flags s) =
        (if fd = fd' then (if flags = 0 then None else Some (enc flags)) else watched fd s)"
    and ok_mon: "ok s \<Longrightarrow> ok (mon conn fd' flags s)"
begin

lemma follows_last_flags:
  assumes "ok s" and "watched fd s = (if old = 0 then None else Some (enc old))"
  shows "watched fd (fold (\<lambda>(conn, fd, flags). mon conn fd flags) cs s) =
      (let flags = last_flags fd cs old in if flags = 0 then None else Some (enc flags)) \<and>
    ok (fold (\<lambda>(conn, fd, flags). mon conn fd flags) cs s)"
  using assms
proof (induction cs arbitrary: s old)
  case Nil
  then show ?case by simp
next
  case (Cons c cs)
  obtain conn fd' flags where c: "c = (conn, fd', flags)" by (cases c)
  have "watched fd (mon conn fd' flags s) =
      (if (if fd' = fd then flags else old) = 0 then None else Some (enc (if fd' = fd then flags else old)))"
    using Cons.prems watched_mon by auto
  from Cons.IH [OF ok_mon [OF Cons.prems(1)] this] show ?case by (simp add: c)
qed

end

subsection \<open>LibEventHandler\<close>

text \<open>
  The watchers of file descriptors and the heartbeat timers. An event that was allocated is in
  \<open>lh_live\<close> until it is freed; deleting or freeing it after that is a fault. \<open>rd\<close> and \<open>wr\<close> are the
  constants \<open>AMQP::readable\<close> and \<open>AMQP::writable\<close> of the prebuilt library.
\<close>

datatype handler_fault = Use_after_free

record event_flags =
  ef_persist :: bool
  ef_read :: bool
  ef_write :: bool

record timer =
  tm_connection :: addr
  tm_sec :: nat
  tm_usec :: nat

record libevent_handler =
  lh_watchers :: "c_int \<rightharpoonup> addr \<times> event_flags"
  lh_timer_events :: "addr \<rightharpoonup> nat"
  lh_live :: "nat \<rightharpoonup> timer"
  lh_next :: nat

definition new_LibEventHandler :: libevent_handler where
  "new_LibEventHandler =
     \<lparr>lh_watchers = Map.empty, lh_timer_events = Map.empty, lh_live = Map.empty, lh_next = 0\<rparr>"

definition event_flags_of :: "c_int \<Rightarrow> c_int \<Rightarrow> c_int \<Rightarrow> event_flags" where
  "event_flags_of rd wr events =
     \<lparr>ef_persist = True, ef_read = (and events rd \<noteq> 0), ef_write = (and events wr \<noteq> 0)\<rparr>"

text \<open>The callback of a watcher: the AMQP flags for the events that happened.\<close>

definition Watcher_callback :: "c_int \<Rightarrow> c_int \<Rightarrow> event_flags \<Rightarrow> c_int" where
  "Watcher_callback rd wr what =
     (let f1 = (if ef_read what then or 0 rd else 0)
      in if ef_write what then or f1 wr else f1)"

definition monitor :: "c_int \<Rightarrow> c_int \<Rightarrow> addr \<Rightarrow> c_int \<Rightarrow> c_int \<Rightarrow> libevent_handler \<Rightarrow> libevent_handler" where
  "monitor rd wr conn fd flags h =
     (case lh_watchers h fd of
        None \<Rightarrow>
          if flags = 0 then h
          else h\<lparr>lh_watchers := (lh_watchers h)(fd \<mapsto> (conn, event_flags_of rd wr flags))\<rparr>
      | Some (conn0, fl) \<Rightarrow>
          if flags = 0 then h\<lparr>lh_watchers := (lh_watchers h)(fd := None)\<rparr>
          else h\<lparr>lh_watchers := (lh_watchers h)(fd \<mapsto> (conn0, event_flags_of rd wr flags))\<rparr>)"

definition setTimer :: "addr \<Rightarrow> u16 \<Rightarrow> libevent_handler \<Rightarrow> libevent_handler" where
  "setTimer conn interval h =
     (let sec = unat interval div 2;
          usec = (if sec \<noteq> 0 then 0 else 500000);
          ev = lh_next h
      in h\<lparr>lh_next := Suc ev, lh_timer_events := (lh_timer_events h)(conn \<mapsto> ev),
           lh_live := (lh_live h)(ev \<mapsto> \<lparr>tm_connection = conn, tm_sec = sec, tm_usec = usec\<rparr>)\<rparr>)"

definition lh_onNegotiate :: "addr \<Rightarrow> u16 \<Rightarrow> libevent_handler \<Rightarrow> u16 \<times> libevent_handler" where
  "lh_onNegotiate conn interval h = (interval, setTimer conn interval h)"

definition lh_onLost :: "addr \<Rightarrow> libevent_handler \<Rightarrow> handler_fault + libevent_handler" where
  "lh_onLost conn h =
     (case lh_timer_events h conn of
        None \<Rightarrow> Inr h
      | Some ev \<Rightarrow>
          if lh_live h ev = None then Inl Use_after_free
          else Inr (h\<lparr>lh_live := (lh_live h)(ev := None)\<rparr>))"

text \<open>The period of the timer of a connection, in microseconds.\<close>

definition timer_period :: "addr \<Rightarrow> libevent_handler \<Rightarrow> nat option" where
  "timer_period conn h =
     (case lh_timer_events h conn of
        None \<Rightarrow> None
      | Some ev \<Rightarrow> map_option (\<lambda>t. 1000000 * tm_sec t + tm_usec t) (lh_live h ev))"

definition flags_watched :: "c_int \<Rightarrow> libevent_handler \<Rightarrow> event_flags option" where
  "flags_watched fd h = map_option snd (lh_watchers h fd)"

interpretation le: fd_monitor "monitor rd wr" flags_watched "event_flags_of rd wr" "\<lambda>h. True" for rd wr
  by unfold_locales (auto simp: flags_watched_def monitor_def split: option.splits)

text \<open>
  What a descriptor is watched for is what the last call for it asked for: a descriptor has a
  watcher exactly when its last flags were not 0, and the watcher has these flags.
\<close>

theorem monitor_follows_last_flags:
  "flags_watched fd (fold (\<lambda>(conn, fd, flags). monitor rd wr conn fd flags) cs new_LibEventHandler) =
     (let flags = last_flags fd cs 0 in if flags = 0 then None else Some (event_flags_of rd wr flags))"
proof -
  have "flags_watched fd new_LibEventHandler = None" by (simp add: flags_watched_def new_LibEventHandler_def)
  then show ?thesis
    using le.follows_last_flags [where s = new_LibEventHandler and old = 0] by simp
qed

text \<open>
  Heartbeats: with a negotiated interval of \<open>n\<close> seconds, \<open>n\<close> positive, the timer runs at least twice
  per interval; with the interval 0, by which heartbeats are switched off, a timer is started all
  the same and runs every half second.
\<close>

theorem heartbeat_period:
  "\<exists>us. timer_period conn (snd (lh_onNegotiate conn interval h)) = Some us \<and> 0 < us \<and>
     (interval \<noteq> 0 \<longrightarrow> 2 * us \<le> 1000000 * unat interval) \<and> (interval = 0 \<longrightarrow> us = 500000)"
proof -
  let ?s = "unat interval div 2"
  have p: "timer_period conn (snd (lh_onNegotiate conn interval h)) =
      Some (1000000 * ?s + (if ?s \<noteq> 0 then 0 else 500000))"
    by (simp add: timer_period_def lh_onNegotiate_def setTimer_def Let_def)
  have "interval \<noteq> 0 \<Longrightarrow> 0 < unat interval" using unat_gt_0 [of interval] by simp
  then have "interval \<noteq> 0 \<Longrightarrow> 2 * (1000000 * ?s + (if ?s \<noteq> 0 then 0 else 500000)) \<le> 1000000 * unat interval"
    by (cases "?s = 0") auto
  with p show ?thesis by auto
qed

theorem heartbeat_period_witness:
  "\<exists>us. timer_period 7 (snd (lh_onNegotiate 7 60 new_LibEventHandler)) = Some us \<and> 0 < us \<and> us \<le> 30000000"
proof -
  have "(60 :: u16) \<noteq> 0" by simp
  with heartbeat_period [of 7 60 new_LibEventHandler] show ?thesis by auto
qed

text \<open>
  The timer entry of a lost connection is freed but not removed: when a connection at the same
  address is lost again without having negotiated in between, the freed event is deleted and freed
  a second time.
\<close>

theorem lost_twice_frees_twice:
  assumes "lh_onLost conn (snd (lh_onNegotiate conn interval h)) = Inr h'"
  shows "lh_onLost conn h' = Inl Use_after_free"
  using assms by (auto simp: lh_onLost_def lh_onNegotiate_def setTimer_def Let_def)

theorem lost_twice_frees_twice_witness:
  "\<exists>h'. lh_onLost 7 (snd (lh_onNegotiate 7 60 new_LibEventHandler)) = Inr h' \<and>
     lh_onLost 7 h' = Inl Use_after_free"
proof -
  obtain h' where h': "lh_onLost 7 (snd (lh_onNegotiate 7 60 new_LibEventHandler)) = Inr h'"
    by (simp add: lh_onLost_def lh_onNegotiate_def setTimer_def Let_def)
  with lost_twice_frees_twice [OF h'] show ?thesis by blast
qed

end
