(* ===== verification/Amqp_Facade.thy ===== *)
theory Amqp_Facade
  imports Amqp_Fields Amqp_Message Amqp_Deferred Amqp_Connection
begin

section \<open>AMQP: the channel and connection an application holds\<close>

text \<open>
  \<open>include/amqpcpp/channel.h\<close>, \<open>connection.h\<close>, \<open>exchangetype.h\<close> and \<open>linux_tcp/tcpchannel.h\<close>. A channel
  object is a pointer to its implementation (\<open>None\<close> after it was moved from); an operation is the
  call it makes on the implementation, or the fault of a null pointer. The calls are the elements of
  \<open>channel_request\<close>, with the parameters that \<open>channelimpl.h\<close> gives them. The overloads of an operation
  are the constructors of a type of argument lists; an argument with a default is an option.
\<close>

datatype exchange_type = Fanout | Direct | Topic | Headers_type | Consistent_hash

datatype 't channel_request =
    Rq_onReady callback
  | Rq_onError callback
  | Rq_pause
  | Rq_resume
  | Rq_usable
  | Rq_confirmSelect
  | Rq_startTransaction
  | Rq_commitTransaction
  | Rq_rollbackTransaction
  | Rq_declareExchange (rq_name: octets) (rq_type: exchange_type) (rq_flags: c_int) (rq_arguments: table)
  | Rq_bindExchange (rq_source: octets) (rq_target: octets) (rq_key: octets) (rq_arguments: table)
  | Rq_unbindExchange (rq_source: octets) (rq_target: octets) (rq_key: octets) (rq_arguments: table)
  | Rq_removeExchange (rq_name: octets) (rq_flags: c_int)
  | Rq_declareQueue (rq_name: octets) (rq_flags: c_int) (rq_arguments: table)
  | Rq_bindQueue (rq_exchange: octets) (rq_queue: octets) (rq_key: octets) (rq_arguments: table)
  | Rq_unbindQueue (rq_exchange: octets) (rq_queue: octets) (rq_key: octets) (rq_arguments: table)
  | Rq_purgeQueue (rq_name: octets)
  | Rq_removeQueue (rq_name: octets) (rq_flags: c_int)
  | Rq_publish (rq_exchange: octets) (rq_key: octets) (rq_envelope: "'t envelope") (rq_flags: c_int)
  | Rq_setQos u16 bool
  | Rq_consume (rq_queue: octets) (rq_tag: octets) (rq_flags: c_int) (rq_arguments: table)
  | Rq_cancel (rq_tag: octets)
  | Rq_get (rq_queue: octets) (rq_flags: c_int)
  | Rq_ack u64 (rq_flags: c_int)
  | Rq_reject u64 (rq_flags: c_int)
  | Rq_recover (rq_flags: c_int)
  | Rq_close
  | Rq_id

datatype facade_fault = Null_implementation | Unterminated_string | Not_an_object

type_synonym channel_handle = "addr option"
type_synonym 't facade_call = "facade_fault + addr \<times> 't channel_request"

definition forward :: "'t channel_request \<Rightarrow> channel_handle \<Rightarrow> 't facade_call" where
  "forward r ch = (case ch of None \<Rightarrow> Inl Null_implementation | Some impl \<Rightarrow> Inr (impl, r))"

text \<open>The value of an argument that may be left out.\<close>

definition or_default :: "'a \<Rightarrow> 'a option \<Rightarrow> 'a" where
  "or_default d x = (case x of None \<Rightarrow> d | Some y \<Rightarrow> y)"

lemma or_default_simps [simp]: "or_default d None = d" "or_default d (Some y) = y"
  by (simp_all add: or_default_def)

subsection \<open>Construction, move and destruction\<close>

text \<open>The constructor attaches a new implementation, or throws (\<open>None\<close>).\<close>

definition Channel_new :: "addr option \<Rightarrow> channel_handle option" where
  "Channel_new attached = map_option Some attached"

definition Channel_move :: "channel_handle \<Rightarrow> channel_handle \<times> channel_handle" where
  "Channel_move that = (that, None)"

definition Channel_destroy :: "channel_handle \<Rightarrow> 't facade_call" where
  "Channel_destroy ch = forward Rq_close ch"

subsection \<open>Operations with one form\<close>

definition Channel_onReady :: "callback \<Rightarrow> channel_handle \<Rightarrow> 't facade_call" where
  "Channel_onReady cb = forward (Rq_onReady cb)"

definition Channel_onError :: "callback \<Rightarrow> channel_handle \<Rightarrow> 't facade_call" where
  "Channel_onError cb = forward (Rq_onError cb)"

definition Channel_pause :: "channel_handle \<Rightarrow> 't facade_call" where
  "Channel_pause = forward Rq_pause"

definition Channel_resume :: "channel_handle \<Rightarrow> 't facade_call" where
  "Channel_resume = forward Rq_resume"

definition Channel_usable :: "channel_handle \<Rightarrow> 't facade_call" where
  "Channel_usable = forward Rq_usable"

definition Channel_connected :: "channel_handle \<Rightarrow> 't facade_call" where
  "Channel_connected = Channel_usable"

definition Channel_confirmSelect :: "channel_handle \<Rightarrow> 't facade_call" where
  "Channel_confirmSelect = forward Rq_confirmSelect"

definition Channel_startTransaction :: "channel_handle \<Rightarrow> 't facade_call" where
  "Channel_startTransaction = forward Rq_startTransaction"

definition Channel_commitTransaction :: "channel_handle \<Rightarrow> 't facade_call" where
  "Channel_commitTransaction = forward Rq_commitTransaction"

definition Channel_rollbackTransaction :: "channel_handle \<Rightarrow> 't facade_call" where
  "Channel_rollbackTransaction = forward Rq_rollbackTransaction"

definition Channel_removeExchange :: "octets \<Rightarrow> c_int option \<Rightarrow> channel_handle \<Rightarrow> 't facade_call" where
  "Channel_removeExchange name flags = forward (Rq_removeExchange name (or_default 0 flags))"

definition Channel_purgeQueue :: "octets \<Rightarrow> channel_handle \<Rightarrow> 't facade_call" where
  "Channel_purgeQueue name = forward (Rq_purgeQueue name)"

definition Channel_removeQueue :: "octets \<Rightarrow> c_int option \<Rightarrow> channel_handle \<Rightarrow> 't facade_call" where
  "Channel_removeQueue name flags = forward (Rq_removeQueue name (or_default 0 flags))"

definition Channel_setQos :: "u16 \<Rightarrow> bool option \<Rightarrow> channel_handle \<Rightarrow> 't facade_call" where
  "Channel_setQos prefetchCount global = forward (Rq_setQos prefetchCount (or_default False global))"

definition Channel_cancel :: "octets \<Rightarrow> channel_handle \<Rightarrow> 't facade_call" where
  "Channel_cancel tag = forward (Rq_cancel tag)"

definition Channel_get :: "octets \<Rightarrow> c_int option \<Rightarrow> channel_handle \<Rightarrow> 't facade_call" where
  "Channel_get queue flags = forward (Rq_get queue (or_default 0 flags))"

definition Channel_ack :: "u64 \<Rightarrow> c_int option \<Rightarrow> channel_handle \<Rightarrow> 't facade_call" where
  "Channel_ack deliveryTag flags = forward (Rq_ack deliveryTag (or_default 0 flags))"

definition Channel_reject :: "u64 \<Rightarrow> c_int option \<Rightarrow> channel_handle \<Rightarrow> 't facade_call" where
  "Channel_reject deliveryTag flags = forward (Rq_reject deliveryTag (or_default 0 flags))"

definition Channel_recover :: "c_int option \<Rightarrow> channel_handle \<Rightarrow> 't facade_call" where
  "Channel_recover flags = forward (Rq_recover (or_default 0 flags))"

definition Channel_close :: "channel_handle \<Rightarrow> 't facade_call" where
  "Channel_close = forward Rq_close"

definition Channel_id :: "channel_handle \<Rightarrow> 't facade_call" where
  "Channel_id = forward Rq_id"

subsection \<open>Overloaded operations\<close>

datatype exchange_args =
    Ex_full octets exchange_type c_int table
  | Ex_noflags octets exchange_type table
  | Ex_notable octets "exchange_type option" "c_int option"
  | Ex_unnamed exchange_type c_int table
  | Ex_unnamed_noflags exchange_type table
  | Ex_unnamed_notable "exchange_type option" "c_int option"

fun Channel_declareExchange :: "exchange_args \<Rightarrow> channel_handle \<Rightarrow> 't facade_call" where
  "Channel_declareExchange (Ex_full name typ flags arguments) ch =
     forward (Rq_declareExchange name typ flags arguments) ch"
| "Channel_declareExchange (Ex_noflags name typ arguments) ch =
     forward (Rq_declareExchange name typ 0 arguments) ch"
| "Channel_declareExchange (Ex_notable name typ flags) ch =
     forward (Rq_declareExchange name (or_default Fanout typ) (or_default 0 flags) []) ch"
| "Channel_declareExchange (Ex_unnamed typ flags arguments) ch =
     forward (Rq_declareExchange [] typ flags arguments) ch"
| "Channel_declareExchange (Ex_unnamed_noflags typ arguments) ch =
     forward (Rq_declareExchange [] typ 0 arguments) ch"
| "Channel_declareExchange (Ex_unnamed_notable typ flags) ch =
     forward (Rq_declareExchange [] (or_default Fanout typ) (or_default 0 flags) []) ch"

text \<open>The last argument of the four binding operations may be left out; the default is an empty table.\<close>

definition Channel_bindExchange ::
  "octets \<Rightarrow> octets \<Rightarrow> octets \<Rightarrow> table option \<Rightarrow> channel_handle \<Rightarrow> 't facade_call" where
  "Channel_bindExchange source target routingkey arguments =
     forward (Rq_bindExchange source target routingkey (or_default [] arguments))"

definition Channel_unbindExchange ::
  "octets \<Rightarrow> octets \<Rightarrow> octets \<Rightarrow> table option \<Rightarrow> channel_handle \<Rightarrow> 't facade_call" where
  "Channel_unbindExchange target source routingkey arguments =
     forward (Rq_unbindExchange target source routingkey (or_default [] arguments))"

definition Channel_bindQueue ::
  "octets \<Rightarrow> octets \<Rightarrow> octets \<Rightarrow> table option \<Rightarrow> channel_handle \<Rightarrow> 't facade_call" where
  "Channel_bindQueue exchange queue routingkey arguments =
     forward (Rq_bindQueue exchange queue routingkey (or_default [] arguments))"

definition Channel_unbindQueue ::
  "octets \<Rightarrow> octets \<Rightarrow> octets \<Rightarrow> table option \<Rightarrow> channel_handle \<Rightarrow> 't facade_call" where
  "Channel_unbindQueue exchange queue routingkey arguments =
     forward (Rq_unbindQueue exchange queue routingkey (or_default [] arguments))"

datatype queue_args =
    Qu_full octets c_int table
  | Qu_noflags octets table
  | Qu_notable octets "c_int option"
  | Qu_unnamed c_int table
  | Qu_unnamed_noflags table
  | Qu_unnamed_notable "c_int option"

fun Channel_declareQueue :: "queue_args \<Rightarrow> channel_handle \<Rightarrow> 't facade_call" where
  "Channel_declareQueue (Qu_full name flags arguments) ch = forward (Rq_declareQueue name flags arguments) ch"
| "Channel_declareQueue (Qu_noflags name arguments) ch = forward (Rq_declareQueue name 0 arguments) ch"
| "Channel_declareQueue (Qu_notable name flags) ch = forward (Rq_declareQueue name (or_default 0 flags) []) ch"
| "Channel_declareQueue (Qu_unnamed flags arguments) ch = forward (Rq_declareQueue [] flags arguments) ch"
| "Channel_declareQueue (Qu_unnamed_noflags arguments) ch = forward (Rq_declareQueue [] 0 arguments) ch"
| "Channel_declareQueue (Qu_unnamed_notable flags) ch = forward (Rq_declareQueue [] (or_default 0 flags) []) ch"

datatype consume_args =
    Co_full octets octets c_int table
  | Co_notable octets octets "c_int option"
  | Co_noflags octets octets table
  | Co_untagged octets c_int table
  | Co_untagged_notable octets "c_int option"
  | Co_untagged_noflags octets table

fun Channel_consume :: "consume_args \<Rightarrow> channel_handle \<Rightarrow> 't facade_call" where
  "Channel_consume (Co_full queue tag flags arguments) ch = forward (Rq_consume queue tag flags arguments) ch"
| "Channel_consume (Co_notable queue tag flags) ch = forward (Rq_consume queue tag (or_default 0 flags) []) ch"
| "Channel_consume (Co_noflags queue tag arguments) ch = forward (Rq_consume queue tag 0 arguments) ch"
| "Channel_consume (Co_untagged queue flags arguments) ch = forward (Rq_consume queue [] flags arguments) ch"
| "Channel_consume (Co_untagged_notable queue flags) ch = forward (Rq_consume queue [] (or_default 0 flags) []) ch"
| "Channel_consume (Co_untagged_noflags queue arguments) ch = forward (Rq_consume queue [] 0 arguments) ch"

text \<open>
  The message of a publish: an envelope, a string, a pointer with a size, or a pointer to a string
  that ends at its first zero octet. A pointer is the list of the octets readable from it.
\<close>

datatype 't publish_args =
    Pu_envelope "'t envelope" "c_int option"
  | Pu_string octets "c_int option"
  | Pu_sized octets u64 "c_int option"
  | Pu_chars octets "c_int option"

fun strlen :: "octets \<Rightarrow> nat option" where
  "strlen [] = None"
| "strlen (b # bs) = (if b = 0 then Some 0 else map_option Suc (strlen bs))"

fun Channel_publish ::
  "('f, 't) table_ops \<Rightarrow> octets \<Rightarrow> octets \<Rightarrow> 't publish_args \<Rightarrow> channel_handle \<Rightarrow> 't facade_call" where
  "Channel_publish T exchange key (Pu_envelope env flags) ch =
     forward (Rq_publish exchange key env (or_default 0 flags)) ch"
| "Channel_publish T exchange key (Pu_string msg flags) ch =
     forward (Rq_publish exchange key (new_Envelope T (Borrowed msg) (of_nat (length msg))) (or_default 0 flags)) ch"
| "Channel_publish T exchange key (Pu_sized msg n flags) ch =
     forward (Rq_publish exchange key (new_Envelope T (Borrowed msg) n) (or_default 0 flags)) ch"
| "Channel_publish T exchange key (Pu_chars msg flags) ch =
     (case ch of
        None \<Rightarrow> Inl Null_implementation
      | Some impl \<Rightarrow>
          (case strlen msg of
             None \<Rightarrow> Inl Unterminated_string
           | Some n \<Rightarrow>
               Inr (impl, Rq_publish exchange key (new_Envelope T (Borrowed msg) (of_nat n)) (or_default 0 flags))))"

text \<open>
  Which overload the language picks for the arguments after the routing key, by their types
  (\<open>None\<close>: the call does not compile). An \<open>int\<close> after a pointer is an exact match for the flags and
  only a conversion for the size.
\<close>

datatype 't publish_arg =
    Arg_envelope "'t envelope"
  | Arg_string octets
  | Arg_chars octets
  | Arg_size u64
  | Arg_int c_int

fun arg_as_int :: "'t publish_arg \<Rightarrow> c_int option" where
  "arg_as_int (Arg_int f) = Some f"
| "arg_as_int (Arg_size n) = Some (ucast n)"
| "arg_as_int _ = None"

fun arg_as_size :: "'t publish_arg \<Rightarrow> u64 option" where
  "arg_as_size (Arg_int f) = Some (scast f)"
| "arg_as_size (Arg_size n) = Some n"
| "arg_as_size _ = None"

fun publish_one :: "'t publish_arg \<Rightarrow> 't publish_args option" where
  "publish_one (Arg_envelope e) = Some (Pu_envelope e None)"
| "publish_one (Arg_string s) = Some (Pu_string s None)"
| "publish_one (Arg_chars m) = Some (Pu_chars m None)"
| "publish_one _ = None"

fun publish_two :: "'t publish_arg \<Rightarrow> 't publish_arg \<Rightarrow> 't publish_args option" where
  "publish_two (Arg_envelope e) x = map_option (\<lambda>f. Pu_envelope e (Some f)) (arg_as_int x)"
| "publish_two (Arg_string s) x = map_option (\<lambda>f. Pu_string s (Some f)) (arg_as_int x)"
| "publish_two (Arg_chars m) x =
     (case x of
        Arg_int f \<Rightarrow> Some (Pu_chars m (Some f))
      | Arg_size n \<Rightarrow> Some (Pu_sized m n None)
      | _ \<Rightarrow> None)"
| "publish_two _ x = None"

fun publish_three :: "'t publish_arg \<Rightarrow> 't publish_arg \<Rightarrow> 't publish_arg \<Rightarrow> 't publish_args option" where
  "publish_three (Arg_chars m) x y =
     (case (arg_as_size x, arg_as_int y) of
        (Some n, Some f) \<Rightarrow> Some (Pu_sized m n (Some f))
      | _ \<Rightarrow> None)"
| "publish_three _ x y = None"

definition publish_overload :: "'t publish_arg list \<Rightarrow> 't publish_args option" where
  "publish_overload args =
     (case args of
        [m] \<Rightarrow> publish_one m
      | [m, x] \<Rightarrow> publish_two m x
      | [m, x, y] \<Rightarrow> publish_three m x y
      | _ \<Rightarrow> None)"

subsection \<open>Connection\<close>

text \<open>
  A connection holds its implementation by value. The operations that the prebuilt library
  implements (\<open>parse\<close>, \<open>fail\<close>, \<open>close\<close>, \<open>heartbeat\<close>, \<open>waiting\<close>) are arguments.
\<close>

datatype connection_args = Cn_full login string | Cn_login login | Cn_vhost string | Cn_default

fun Connection_new :: "connection_args \<Rightarrow> connection_impl" where
  "Connection_new (Cn_full lgn vhst) = initial_ConnectionImpl lgn vhst"
| "Connection_new (Cn_login lgn) = initial_ConnectionImpl lgn ''/''"
| "Connection_new (Cn_vhost vhst) = initial_ConnectionImpl default_Login vhst"
| "Connection_new Cn_default = initial_ConnectionImpl default_Login ''/''"

definition Connection_parse_chars ::
  "(byte_buffer \<Rightarrow> connection_impl \<Rightarrow> 'r) \<Rightarrow> octets \<Rightarrow> nat \<Rightarrow> connection_impl \<Rightarrow> 'r" where
  "Connection_parse_chars lib_parse buffer n c = lib_parse (ByteBuffer buffer n) c"

definition Connection_parse ::
  "(byte_buffer \<Rightarrow> connection_impl \<Rightarrow> 'r) \<Rightarrow> byte_buffer \<Rightarrow> connection_impl \<Rightarrow> 'r" where
  "Connection_parse lib_parse buffer c = lib_parse buffer c"

definition Connection_fail :: "(string \<Rightarrow> connection_impl \<Rightarrow> 'r) \<Rightarrow> string \<Rightarrow> connection_impl \<Rightarrow> 'r" where
  "Connection_fail lib_fail msg c = lib_fail msg c"

definition Connection_close :: "(connection_impl \<Rightarrow> 'r) \<Rightarrow> connection_impl \<Rightarrow> 'r" where
  "Connection_close lib_close c = lib_close c"

definition Connection_heartbeat :: "(connection_impl \<Rightarrow> 'r) \<Rightarrow> connection_impl \<Rightarrow> 'r" where
  "Connection_heartbeat lib_heartbeat c = lib_heartbeat c"

definition Connection_waiting :: "(connection_impl \<Rightarrow> bool) \<Rightarrow> connection_impl \<Rightarrow> bool" where
  "Connection_waiting lib_waiting c = lib_waiting c"

definition Connection_login :: "connection_impl \<Rightarrow> login" where
  "Connection_login c = ci_get_login c"

definition Connection_vhost :: "connection_impl \<Rightarrow> string" where
  "Connection_vhost c = ci_get_vhost c"

definition Connection_maxFrame :: "connection_impl \<Rightarrow> u32" where
  "Connection_maxFrame c = ci_get_maxFrame c"

definition Connection_expected :: "connection_impl \<Rightarrow> u32" where
  "Connection_expected c = ci_get_expected c"

definition Connection_ready :: "connection_impl \<Rightarrow> bool" where
  "Connection_ready c = ci_ready c"

definition Connection_usable :: "connection_impl \<Rightarrow> bool" where
  "Connection_usable c = ci_usable c"

definition Connection_channels :: "connection_impl \<Rightarrow> nat" where
  "Connection_channels c = ci_channel_count c"

subsection \<open>The life of channel objects\<close>

text \<open>
  The channel objects of a program by their addresses. \<open>Use\<close> is any operation; a step on an address
  that holds no object (or a construction on one that does) is not a program.
\<close>

datatype 't channel_op =
    Construct addr addr
  | Move_construct addr addr
  | Use addr "'t channel_request"
  | Destruct addr

type_synonym channel_objects = "addr \<rightharpoonup> channel_handle"

fun channel_op_step ::
  "channel_objects \<Rightarrow> 't channel_op \<Rightarrow> facade_fault + channel_objects" where
  "channel_op_step m (Construct a impl) =
     (if m a = None then Inr (m(a := Channel_new (Some impl))) else Inl Not_an_object)"
| "channel_op_step m (Move_construct b a) =
     (case m a of
        None \<Rightarrow> Inl Not_an_object
      | Some ch \<Rightarrow>
          if m b = None then (case Channel_move ch of (new, old) \<Rightarrow> Inr (m(b \<mapsto> new, a \<mapsto> old)))
          else Inl Not_an_object)"
| "channel_op_step m (Use a r) =
     (case m a of
        None \<Rightarrow> Inl Not_an_object
      | Some ch \<Rightarrow> (case forward r ch of Inl f \<Rightarrow> Inl f | Inr c \<Rightarrow> Inr m))"
| "channel_op_step m (Destruct a) =
     (case m a of
        None \<Rightarrow> Inl Not_an_object
      | Some ch \<Rightarrow>
          (case (Channel_destroy ch :: 't facade_call) of Inl f \<Rightarrow> Inl f | Inr c \<Rightarrow> Inr (m(a := None))))"

fun channel_ops :: "channel_objects \<Rightarrow> 't channel_op list \<Rightarrow> facade_fault + channel_objects" where
  "channel_ops m [] = Inr m"
| "channel_ops m (e # es) =
     (case channel_op_step m e of Inl f \<Rightarrow> Inl f | Inr m' \<Rightarrow> channel_ops m' es)"

text \<open>A complete program: every object is constructed once, used only then, and destroyed once.\<close>

fun scoped :: "addr set \<Rightarrow> 't channel_op list \<Rightarrow> bool" where
  "scoped live [] \<longleftrightarrow> live = {}"
| "scoped live (Construct a impl # es) \<longleftrightarrow> a \<notin> live \<and> scoped (insert a live) es"
| "scoped live (Move_construct b a # es) \<longleftrightarrow> a \<in> live \<and> b \<notin> live \<and> scoped (insert b live) es"
| "scoped live (Use a r # es) \<longleftrightarrow> a \<in> live \<and> scoped live es"
| "scoped live (Destruct a # es) \<longleftrightarrow> a \<in> live \<and> scoped (live - {a}) es"

fun is_move :: "'t channel_op \<Rightarrow> bool" where
  "is_move (Move_construct b a) = True"
| "is_move _ = False"

lemma forward_simps [simp]:
  "forward r None = Inl Null_implementation" "forward r (Some impl) = Inr (impl, r)"
  by (simp_all add: forward_def)

lemma channel_ops_null:
  assumes "scoped (dom m) ops"
  shows "if (\<exists>a. m a = Some None) \<or> (\<exists>e \<in> set ops. is_move e)
    then channel_ops m ops = Inl Null_implementation else channel_ops m ops = Inr Map.empty"
  using assms
proof (induction ops arbitrary: m)
  case Nil
  then show ?case by auto
next
  case (Cons e ops)
  show ?case
  proof (cases e)
    case (Construct a impl)
    have a: "m a = None" using Cons.prems Construct by (simp add: domIff)
    then have "(\<exists>x. (m(a \<mapsto> Some impl)) x = Some None) \<longleftrightarrow> (\<exists>x. m x = Some None)"
      by auto (metis option.distinct(1))
    then show ?thesis
      using Cons.IH [of "m(a \<mapsto> Some impl)"] Cons.prems Construct a
      by (simp add: Channel_new_def del: fun_upd_apply)
  next
    case (Move_construct b a)
    then obtain ch where a: "m a = Some ch" "m b = None" using Cons.prems by (auto simp: domIff)
    then have "a \<noteq> b" by auto
    let ?m = "m(b \<mapsto> ch, a \<mapsto> None)"
    have "scoped (dom ?m) ops" 
      using Cons.prems Move_construct a \<open>a \<noteq> b\<close> by (simp add: insert_commute insert_absorb domI)
    moreover have "?m a = Some None" by simp
    ultimately have "channel_ops ?m ops = Inl Null_implementation" using Cons.IH [of ?m] by (metis (full_types))
    then show ?thesis using Move_construct a by (simp add: Channel_move_def)
  next
    case (Use a r)
    then obtain ch where a: "m a = Some ch" using Cons.prems by auto
    then show ?thesis using Cons Use by (cases ch) auto
  next
    case (Destruct a)
    then obtain ch where a: "m a = Some ch" using Cons.prems by auto
    show ?thesis
    proof (cases ch)
      case None
      with a Destruct show ?thesis by (auto simp: Channel_destroy_def)
    next
      case (Some impl)
      then have "(\<exists>x. (m(a := None)) x = Some None) \<longleftrightarrow> (\<exists>x. m x = Some None)"
        using a by auto (metis option.distinct(1) option.inject)
      with Some Cons.IH [of "m(a := None)"] Cons.prems Destruct a show ?thesis
        by (simp add: Channel_destroy_def del: fun_upd_apply)
    qed
  qed
qed

lemma strlen_terminated: "strlen (msg @ [0]) = Some (length (takeWhile (\<lambda>b. b \<noteq> 0) msg))"
  by (induction msg) simp_all

lemma Envelope_body_Borrowed:
  "Envelope_body (new_Envelope T (Borrowed bs) n) = take (unat n) bs"
  by (simp add: Envelope_body_def new_Envelope_def envelope.defs metadata.defs)

subsection \<open>Properties\<close>

text \<open>
  A moved channel is not usable: in a program that constructs, uses and destroys its channel objects
  as the language demands, the null pointer is dereferenced if there is a move, at the latest by the
  destructor of the object that was moved from, and never otherwise.
\<close>

theorem moved_channel_faults:
  assumes "scoped {} ops"
  shows "if \<exists>e \<in> set ops. is_move e then channel_ops Map.empty ops = Inl Null_implementation
    else channel_ops Map.empty ops = Inr Map.empty"
  using channel_ops_null [of Map.empty ops] assms by auto

theorem moved_channel_faults_witness:
  "channel_ops Map.empty
      [Construct 7 70, Move_construct 8 7, Use 8 (Rq_cancel []), Destruct 8, Destruct 7 :: unit channel_op] =
    Inl Null_implementation"
proof -
  have s: "scoped {} [Construct 7 70, Move_construct 8 7, Use 8 (Rq_cancel []), Destruct 8, Destruct 7 :: unit channel_op]"
    by simp
  show ?thesis using moved_channel_faults [OF s] by simp
qed

text \<open>The bindings of exchanges at a broker that takes the parameters as \<open>channelimpl.h\<close> names them.\<close>

definition exchange_bindings ::
  "'t channel_request \<Rightarrow> (octets \<times> octets \<times> octets) set \<Rightarrow> (octets \<times> octets \<times> octets) set" where
  "exchange_bindings r B =
     (case r of
        Rq_bindExchange src tgt key args \<Rightarrow> insert (src, tgt, key) B
      | Rq_unbindExchange src tgt key args \<Rightarrow> B - {(src, tgt, key)}
      | _ \<Rightarrow> B)"

text \<open>
  The facade documents \<open>unbindExchange(target, source, ...)\<close> and passes its arguments on in this order
  to an operation that takes the source first: to unbind, as documented, what \<open>bindExchange\<close> bound
  removes the binding only if an exchange was bound to itself.
\<close>

theorem unbind_exchange_is_swapped:
  assumes "Channel_bindExchange src tgt key args (Some impl) = Inr (impl, r1)"
    and "Channel_unbindExchange tgt src key args (Some impl) = Inr (impl, r2)"
  shows "(src, tgt, key) \<in> exchange_bindings r2 (exchange_bindings r1 B) \<longleftrightarrow> src \<noteq> tgt"
  using assms
  by (auto simp: Channel_bindExchange_def Channel_unbindExchange_def exchange_bindings_def)

theorem unbind_exchange_is_swapped_witness:
  "([3], [4], []) \<in> exchange_bindings (Rq_unbindExchange [4] [3] [] [] :: unit channel_request)
     (exchange_bindings (Rq_bindExchange [3] [4] [] [] :: unit channel_request) {})"
  using unbind_exchange_is_swapped [of "[3]" "[4]" "[]" None 9 "Rq_bindExchange [3] [4] [] []"
      "Rq_unbindExchange [4] [3] [] []" "{}"]
  by (simp add: Channel_bindExchange_def Channel_unbindExchange_def)

definition published_body :: "'t facade_call \<Rightarrow> octets option" where
  "published_body c =
     (case c of
        Inr (impl, Rq_publish exchange key env flags) \<Rightarrow> Some (Envelope_body env)
      | _ \<Rightarrow> None)"

text \<open>
  The forms of \<open>publish\<close> for text agree on texts without a zero octet and on no others: the string
  and the pointer with the size of the string publish all octets; the pointer alone, and the pointer
  with a size of type \<open>int\<close>, which the language takes for the flags, publish the octets before the
  first zero.
\<close>

theorem publish_forms_agree_iff:
  assumes "length msg < 2 ^ 64"
    and "publish_overload [Arg_string msg] = Some str"
    and "publish_overload [Arg_chars (msg @ [0]), Arg_size (of_nat (length msg))] = Some sized"
    and "publish_overload [Arg_chars (msg @ [0])] = Some chars"
    and "publish_overload [Arg_chars (msg @ [0]), Arg_int n] = Some int_sized"
  shows "published_body (Channel_publish T ex key str (Some impl)) = Some msg \<and>
    published_body (Channel_publish T ex key sized (Some impl)) = Some msg \<and>
    published_body (Channel_publish T ex key chars (Some impl)) = Some (takeWhile (\<lambda>b. b \<noteq> 0) msg) \<and>
    published_body (Channel_publish T ex key int_sized (Some impl)) = Some (takeWhile (\<lambda>b. b \<noteq> 0) msg) \<and>
    (takeWhile (\<lambda>b. b \<noteq> 0) msg = msg \<longleftrightarrow> 0 \<notin> set msg)"
proof -
  let ?w = "takeWhile (\<lambda>b. b \<noteq> 0) msg"
  have w: "length ?w \<le> length msg" by (rule length_takeWhile_le)
  then have n: "unat (of_nat (length ?w) :: u64) = length ?w" "unat (of_nat (length msg) :: u64) = length msg"
    using assms(1) by (auto intro!: frame_size)
  have "?w = msg \<longleftrightarrow> 0 \<notin> set msg" by (induction msg) auto
  moreover have "take (length ?w) (msg @ [0]) = ?w"
    using w by (simp add: takeWhile_eq_take [symmetric])
  ultimately show ?thesis
    using assms(2-5) n
    by (auto simp: publish_overload_def published_body_def Envelope_body_Borrowed strlen_terminated)
qed

theorem publish_forms_agree_iff_witness:
  "published_body (Channel_publish unit_table [] [] (Pu_chars ([5, 0, 6] @ [0]) (Some 3)) (Some 9)) = Some [5]"
  using publish_forms_agree_iff [of "[5, 0, 6]" "Pu_string [5, 0, 6] None" "Pu_sized ([5, 0, 6] @ [0]) 3 None"
      "Pu_chars ([5, 0, 6] @ [0]) None" 3 "Pu_chars ([5, 0, 6] @ [0]) (Some 3)" unit_table "[]" "[]" 9]
  by (simp add: publish_overload_def)

end
