(* ===== verification/Control_Link.thy ===== *)
theory Control_Link
  imports Control_Channel Amqp_Channel Amqp_Facade
begin

section \<open>The control channel on the AMQP channel\<close>

text \<open>
  \<open>ControlChannel\<close> is modelled by what its callbacks do when they are called. Here it runs on the
  model of the AMQP channel: \<open>start\<close> calls the facade, the facade the implementation, an operation
  appends a deferred object to the pending ones, and the answers of the broker reach the callbacks
  through \<open>reportSuccess\<close>. The functions of the prebuilt library that this needs are the fields of
  \<open>channel_lib\<close>, with their documented behaviour in \<open>channel_lib_laws\<close>; the address of an object is
  the one the allocator hands out.
\<close>

record channel_lib =
  cl_declareQueue :: "addr \<Rightarrow> octets \<Rightarrow> c_int \<Rightarrow> table \<Rightarrow> channel \<Rightarrow> channel"
  cl_consume :: "addr \<Rightarrow> octets \<Rightarrow> octets \<Rightarrow> c_int \<Rightarrow> table \<Rightarrow> channel \<Rightarrow> channel"
  cl_ack :: "u64 \<Rightarrow> c_int \<Rightarrow> channel \<Rightarrow> channel"
  cl_onError :: "callback \<Rightarrow> channel \<Rightarrow> channel"
  cl_report :: lib_report
  cl_reportError :: "string \<Rightarrow> channel \<Rightarrow> channel option \<times> user_call list"
  cl_deliver :: "octets \<Rightarrow> channel \<Rightarrow> callback option"

text \<open>An operation on a usable channel appends its new object to the pending ones.\<close>

definition appends :: "addr \<Rightarrow> deferred_obj \<Rightarrow> (channel \<Rightarrow> channel) \<Rightarrow> bool" where
  "appends a d f \<longleftrightarrow>
     (\<forall>ch as. ch_usable ch \<and> pending ch as \<and> distinct as \<and> a \<notin> set as \<longrightarrow>
        pending (f ch) (as @ [a]) \<and> ch_heap (f ch) a = d \<and> ch_usable (f ch) \<and>
        ch_consumers (f ch) = ch_consumers ch \<and> ch_errorCallback (f ch) = ch_errorCallback ch)"

text \<open>An object on which an error calls nothing.\<close>

fun obj_silent :: "deferred_obj \<Rightarrow> bool" where
  "obj_silent (Queue_obj d) \<longleftrightarrow> df_errorCallback d = None \<and> df_finalizeCallback d = None"
| "obj_silent (Consumer_obj d) \<longleftrightarrow> df_errorCallback d = None \<and> df_finalizeCallback d = None"
| "obj_silent _ \<longleftrightarrow> False"

fun obj_message_callback :: "deferred_obj \<Rightarrow> callback option" where
  "obj_message_callback (Consumer_obj d) = de_messageCallback d"
| "obj_message_callback _ = None"

definition channel_lib_laws :: "channel_lib \<Rightarrow> bool" where
  "channel_lib_laws L \<longleftrightarrow>
     (\<forall>a n f t. appends a (Queue_obj (new_DeferredQueue False)) (cl_declareQueue L a n f t)) \<and>
     (\<forall>a q c f t. \<exists>impl. appends a (Consumer_obj (new_DeferredConsumer impl False)) (cl_consume L a q c f t)) \<and>
     (\<forall>dt f ch. same_pending ch (cl_ack L dt f ch) \<and> ch_consumers (cl_ack L dt f ch) = ch_consumers ch \<and>
        ch_errorCallback (cl_ack L dt f ch) = ch_errorCallback ch \<and> ch_usable (cl_ack L dt f ch) = ch_usable ch) \<and>
     (\<forall>cb ch. ch_usable ch \<longrightarrow> cl_onError L cb ch = ch\<lparr>ch_errorCallback := Some cb\<rparr>) \<and>
     (\<forall>a tag ch d. ch_heap ch a = Consumer_obj d \<and> dn_consumeCallback d = None \<and> df_successCallback d = None \<longrightarrow>
        cl_report L a (S_name tag) ch = (Some (install_consumer tag a ch), [])) \<and>
     (\<forall>msg ch as cb. pending ch as \<and> (\<forall>a \<in> set as. obj_silent (ch_heap ch a)) \<and> ch_errorCallback ch = Some cb \<longrightarrow>
        snd (cl_reportError L msg ch) = [Error_call cb msg]) \<and>
     (\<forall>tag ch. cl_deliver L tag ch =
        (case ch_consumers ch tag of None \<Rightarrow> None | Some a \<Rightarrow> obj_message_callback (ch_heap ch a)))"

subsection \<open>Start and callbacks\<close>

text \<open>The names of the callbacks that \<open>start\<close> installs.\<close>

definition cb_error :: callback where "cb_error = 10"
definition cb_ready :: callback where "cb_ready = 11"
definition cb_declared :: callback where "cb_declared = 12"
definition cb_received :: callback where "cb_received = 13"

record control_link =
  lk_control :: control_channel
  lk_handle :: channel_handle
  lk_channel :: channel
  lk_alloc :: addr

text \<open>The octets of a text.\<close>

definition octets_of :: "string \<Rightarrow> octets" where
  "octets_of s = map of_char s"

text \<open>A call of the facade, carried out on the implementation; \<open>upd\<close> is what is chained to it.\<close>

definition lk_request ::
  "channel_lib \<Rightarrow> (deferred_obj \<Rightarrow> deferred_obj) \<Rightarrow> addr \<Rightarrow> unit facade_call \<Rightarrow> channel \<Rightarrow> channel" where
  "lk_request L upd a call ch =
     (case call of
        Inl f \<Rightarrow> ch
      | Inr (impl, r) \<Rightarrow>
          (case r of
             Rq_declareQueue q f t \<Rightarrow>
               (let ch' = cl_declareQueue L a q f t ch in ch'\<lparr>ch_heap := (ch_heap ch')(a := upd (ch_heap ch' a))\<rparr>)
           | Rq_consume q tag f t \<Rightarrow>
               (let ch' = cl_consume L a q tag f t ch in ch'\<lparr>ch_heap := (ch_heap ch')(a := upd (ch_heap ch' a))\<rparr>)
           | Rq_ack dt f \<Rightarrow> cl_ack L dt f ch
           | Rq_onError cb \<Rightarrow> cl_onError L cb ch
           | Rq_onReady cb \<Rightarrow> fst (onReady cb ch)
           | _ \<Rightarrow> ch))"

fun on_queue_success :: "callback \<Rightarrow> deferred_obj \<Rightarrow> deferred_obj" where
  "on_queue_success cb (Queue_obj d) = Queue_obj (DeferredQueue_onSuccess_plain cb d)"
| "on_queue_success cb obj = obj"

fun on_received :: "callback \<Rightarrow> deferred_obj \<Rightarrow> deferred_obj" where
  "on_received cb (Consumer_obj d) = Consumer_obj (Consumer_onReceived cb d)"
| "on_received cb obj = obj"

definition lk_start :: "channel_lib \<Rightarrow> control_link \<Rightarrow> control_link \<times> cc_output list" where
  "lk_start L lk =
     (let h = lk_handle lk; a = lk_alloc lk; q = cc_queue (lk_control lk);
          ch1 = lk_request L (\<lambda>d. d) a (Channel_onError cb_error h) (lk_channel lk);
          ch2 = lk_request L (\<lambda>d. d) a (Channel_onReady cb_ready h) ch1;
          ch3 = lk_request L (on_queue_success cb_declared) a
                  (Channel_declareQueue (Qu_notable (octets_of q) None) h) ch2
      in (lk\<lparr>lk_channel := ch3, lk_alloc := Suc a\<rparr>, [Declare_queue q]))"

text \<open>What the callbacks of \<open>start\<close> do to the channel, and what they put out.\<close>

fun lk_user_call :: "channel_lib \<Rightarrow> control_link \<Rightarrow> user_call \<Rightarrow> channel \<Rightarrow> channel" where
  "lk_user_call L lk (Success_call cb) ch =
     (if cb = cb_declared
      then lk_request L (on_received cb_received) (lk_alloc lk)
             (Channel_consume (Co_untagged_notable (octets_of (cc_queue (lk_control lk))) None) (lk_handle lk)) ch
      else ch)"
| "lk_user_call L lk _ ch = ch"

fun lk_call_output :: "control_link \<Rightarrow> user_call \<Rightarrow> cc_output list" where
  "lk_call_output lk (Success_call cb) = (if cb = cb_declared then [Consume (cc_queue (lk_control lk))] else [])"
| "lk_call_output lk (Error_call cb msg) = (if cb = cb_error then [Close_connection] else [])"
| "lk_call_output lk _ = []"

definition lk_user :: "channel_lib \<Rightarrow> control_link \<Rightarrow> user" where
  "lk_user L lk calls ch = Some (fold (lk_user_call L lk) calls ch)"

subsection \<open>The broker\<close>

datatype broker_event =
    Srv_declare_ok octets u32 u32
  | Srv_consume_ok octets
  | Srv_deliver octets u64 "byte list"
  | Srv_error string

definition lk_success :: "channel_lib \<Rightarrow> success_args \<Rightarrow> control_link \<Rightarrow> control_link \<times> cc_output list" where
  "lk_success L s lk =
     (case ch_reportSuccess (lk_user L lk) (cl_report L) s (lk_channel lk) of
        (ok, r, calls) \<Rightarrow>
          (lk\<lparr>lk_channel := (case r of None \<Rightarrow> lk_channel lk | Some ch \<Rightarrow> ch), lk_alloc := Suc (lk_alloc lk)\<rparr>,
           concat (map (lk_call_output lk) calls)))"

fun lk_step ::
  "channel_lib \<Rightarrow> 'v jsoncpp \<Rightarrow> control_message \<Rightarrow> control_link \<Rightarrow> broker_event \<Rightarrow>
   control_link \<times> cc_output list \<times> fault option" where
  "lk_step L J indet lk (Srv_declare_ok n m c) =
     (case lk_success L (S_queue n m c) lk of (lk', out) \<Rightarrow> (lk', out, None))"
| "lk_step L J indet lk (Srv_consume_ok tag) =
     (case lk_success L (S_name tag) lk of (lk', out) \<Rightarrow> (lk', out, None))"
| "lk_step L J indet lk (Srv_deliver tag dt body) =
     (if cl_deliver L tag (lk_channel lk) = Some cb_received
      then
        (case cc_received J indet (lk_control lk) dt body of
           (out, f) \<Rightarrow>
             (lk\<lparr>lk_channel := lk_request L (\<lambda>d. d) (lk_alloc lk) (Channel_ack dt None (lk_handle lk)) (lk_channel lk)\<rparr>,
              out, f))
      else (lk, [], None))"
| "lk_step L J indet lk (Srv_error msg) =
     (lk, concat (map (lk_call_output lk) (snd (cl_reportError L msg (lk_channel lk)))), None)"

fun lk_run ::
  "channel_lib \<Rightarrow> 'v jsoncpp \<Rightarrow> control_message \<Rightarrow> control_link \<Rightarrow> broker_event list \<Rightarrow>
   cc_output list \<times> fault option" where
  "lk_run L J indet lk [] = ([], None)"
| "lk_run L J indet lk (e # es) =
     (case lk_step L J indet lk e of
        (lk', out, Some f) \<Rightarrow> (out, Some f)
      | (lk', out, None) \<Rightarrow>
          (case lk_run L J indet lk' es of (out', r) \<Rightarrow> (out @ out', r)))"

text \<open>
  How far the subscription is, and what a broker sends then: one answer to each operation, deliveries
  to the consumer it named, and nothing after an error, which closes the channel.
\<close>

datatype phase = Declaring | Subscribing | Consuming octets

fun conforms :: "phase \<Rightarrow> broker_event list \<Rightarrow> bool" where
  "conforms p [] \<longleftrightarrow> True"
| "conforms p (Srv_declare_ok n m c # es) \<longleftrightarrow> p = Declaring \<and> conforms Subscribing es"
| "conforms p (Srv_consume_ok tag # es) \<longleftrightarrow> p = Subscribing \<and> conforms (Consuming tag) es"
| "conforms p (Srv_deliver tag dt body # es) \<longleftrightarrow> p = Consuming tag \<and> conforms p es"
| "conforms p (Srv_error msg # es) \<longleftrightarrow> es = []"

fun abs_event :: "broker_event \<Rightarrow> cc_event list" where
  "abs_event (Srv_declare_ok n m c) = [Queue_declared]"
| "abs_event (Srv_consume_ok tag) = []"
| "abs_event (Srv_deliver tag dt body) = [Delivery dt body]"
| "abs_event (Srv_error msg) = [Channel_error]"

text \<open>The channel of each phase, and the state of the abstract control channel.\<close>

fun link_inv :: "phase \<Rightarrow> control_link \<Rightarrow> bool" where
  "link_inv Declaring lk \<longleftrightarrow>
     (\<exists>a d. pending (lk_channel lk) [a] \<and> a < lk_alloc lk \<and> ch_heap (lk_channel lk) a = Queue_obj d \<and>
        df_successCallback d = Some cb_declared \<and> dq_queueCallback d = None \<and>
        obj_silent (Queue_obj d) \<and> ch_consumers (lk_channel lk) = Map.empty)"
| "link_inv Subscribing lk \<longleftrightarrow>
     (\<exists>a d. pending (lk_channel lk) [a] \<and> a < lk_alloc lk \<and> ch_heap (lk_channel lk) a = Consumer_obj d \<and>
        df_successCallback d = None \<and> dn_consumeCallback d = None \<and> de_messageCallback d = Some cb_received \<and>
        obj_silent (Consumer_obj d) \<and> ch_consumers (lk_channel lk) = Map.empty)"
| "link_inv (Consuming tag) lk \<longleftrightarrow>
     (\<exists>a. pending (lk_channel lk) [] \<and> ch_consumers (lk_channel lk) = [tag \<mapsto> a] \<and>
        obj_message_callback (ch_heap (lk_channel lk) a) = Some cb_received)"

definition link_ok :: "phase \<Rightarrow> control_link \<Rightarrow> bool" where
  "link_ok p lk \<longleftrightarrow>
     link_inv p lk \<and> lk_handle lk \<noteq> None \<and> ch_usable (lk_channel lk) \<and>
     ch_errorCallback (lk_channel lk) = Some cb_error"

fun abs_control :: "phase \<Rightarrow> control_channel \<Rightarrow> control_channel" where
  "abs_control Declaring cc = cc\<lparr>cc_on_error := True, cc_on_declared := True\<rparr>"
| "abs_control _ cc = cc\<lparr>cc_on_error := True, cc_on_declared := True, cc_on_received := True\<rparr>"

subsection \<open>Each operation and each answer\<close>

lemma chain_next_cong: "(\<And>a. a \<in> set as \<Longrightarrow> obj_next (h' a) = obj_next (h a)) \<Longrightarrow> chain h' p as = chain h p as"
  by (induction as arbitrary: p) auto

lemma appends_then_update:
  assumes "appends a d f" and "obj_next (upd d) = obj_next d"
  shows "appends a (upd d) (\<lambda>ch. (f ch)\<lparr>ch_heap := (ch_heap (f ch))(a := upd (ch_heap (f ch) a))\<rparr>)"
  unfolding appends_def
proof (intro allI impI)
  fix ch as
  assume p: "ch_usable ch \<and> pending ch as \<and> distinct as \<and> a \<notin> set as"
  then have f: "pending (f ch) (as @ [a])" "ch_heap (f ch) a = d" "ch_usable (f ch)"
      "ch_consumers (f ch) = ch_consumers ch" "ch_errorCallback (f ch) = ch_errorCallback ch"
    using assms(1) unfolding appends_def by blast+
  let ?h = "(ch_heap (f ch))(a := upd (ch_heap (f ch) a))"
  have "chain ?h (ch_oldest (f ch)) (as @ [a]) = chain (ch_heap (f ch)) (ch_oldest (f ch)) (as @ [a])"
    using f(2) assms(2) by (intro chain_next_cong) simp
  with f show "pending ((f ch)\<lparr>ch_heap := ?h\<rparr>) (as @ [a]) \<and> ch_heap ((f ch)\<lparr>ch_heap := ?h\<rparr>) a = upd d \<and>
      ch_usable ((f ch)\<lparr>ch_heap := ?h\<rparr>) \<and> ch_consumers ((f ch)\<lparr>ch_heap := ?h\<rparr>) = ch_consumers ch \<and>
      ch_errorCallback ((f ch)\<lparr>ch_heap := ?h\<rparr>) = ch_errorCallback ch"
    by (simp add: pending_def ch_usable_def)
qed

lemma channel_lib_lawsD:
  assumes "channel_lib_laws L"
  shows "appends a (Queue_obj (new_DeferredQueue False)) (cl_declareQueue L a n f t)"
    and "\<exists>impl. appends a (Consumer_obj (new_DeferredConsumer impl False)) (cl_consume L a n q f t)"
    and "same_pending ch (cl_ack L dt f ch) \<and> ch_consumers (cl_ack L dt f ch) = ch_consumers ch \<and>
      ch_errorCallback (cl_ack L dt f ch) = ch_errorCallback ch \<and> ch_usable (cl_ack L dt f ch) = ch_usable ch"
    and "ch_usable ch \<Longrightarrow> cl_onError L cb ch = ch\<lparr>ch_errorCallback := Some cb\<rparr>"
  using assms by (simp_all add: channel_lib_laws_def)

lemma lk_request_declareQueue:
  assumes "channel_lib_laws L"
  shows "appends a (Queue_obj ((new_DeferredQueue False)\<lparr>df_successCallback := Some cb\<rparr>))
    (lk_request L (on_queue_success cb) a (Channel_declareQueue (Qu_notable q None) (Some impl)))"
proof -
  have "appends a (Queue_obj (new_DeferredQueue False)) (cl_declareQueue L a q 0 [])"
    by (rule channel_lib_lawsD [OF assms])
  from appends_then_update [OF this, of "on_queue_success cb"] show ?thesis
    by (simp add: lk_request_def [abs_def] Let_def DeferredQueue_onSuccess_plain_def Deferred_onSuccess_def
        new_DeferredQueue_def deferred.defs)
qed

lemma lk_request_consume:
  assumes "channel_lib_laws L"
  shows "\<exists>impl'. appends a (Consumer_obj ((new_DeferredConsumer impl' False)\<lparr>de_messageCallback := Some cb\<rparr>))
    (lk_request L (on_received cb) a (Channel_consume (Co_untagged_notable q None) (Some impl)))"
proof -
  obtain impl' where "appends a (Consumer_obj (new_DeferredConsumer impl' False)) (cl_consume L a q [] 0 [])"
    using channel_lib_lawsD(2) [OF assms] by blast
  from appends_then_update [OF this, of "on_received cb"] show ?thesis
    by (intro exI [of _ impl'])
      (simp add: lk_request_def [abs_def] Let_def Consumer_onReceived_def)
qed

lemma leave_synchronous_rest [simp]:
  "ch_usable (leave_synchronous ch) = ch_usable ch" "ch_consumers (leave_synchronous ch) = ch_consumers ch"
  "ch_errorCallback (leave_synchronous ch) = ch_errorCallback ch"
  "pending (leave_synchronous ch) as = pending ch as"
  by (simp_all add: leave_synchronous_def ch_usable_def pending_def)

lemma install_consumer_rest:
  "ch_usable (install_consumer tag a ch) = ch_usable ch" "ch_heap (install_consumer tag a ch) = ch_heap ch"
  "ch_consumers (install_consumer tag a ch) = (ch_consumers ch)(tag \<mapsto> a)"
  "ch_errorCallback (install_consumer tag a ch) = ch_errorCallback ch"
  by (simp_all add: install_consumer_def ch_usable_def)

lemma popped_rest:
  assumes "ch3 = ch2\<lparr>ch_oldest := x, ch_newest := y\<rparr>"
  shows "ch_heap ch3 = ch_heap ch2" "ch_usable ch3 = ch_usable ch2" "ch_consumers ch3 = ch_consumers ch2"
    "ch_errorCallback ch3 = ch_errorCallback ch2"
  using assms by (simp_all add: ch_usable_def)

lemma new_Consumer_slots:
  "df_successCallback (new_DeferredConsumer impl False) = None" "dn_consumeCallback (new_DeferredConsumer impl False) = None"
  "df_errorCallback (new_DeferredConsumer impl False) = None" "df_finalizeCallback (new_DeferredConsumer impl False) = None"
  by (simp_all add: deferred_defs)

lemma link_declared:
  assumes L: "channel_lib_laws L" and ok: "link_ok Declaring lk"
  shows "\<exists>lk'. lk_success L (S_queue n m c) lk = (lk', [Consume (cc_queue (lk_control lk))]) \<and>
    link_ok Subscribing lk' \<and> lk_control lk' = lk_control lk"
proof -
  obtain a d where i: "pending (lk_channel lk) [a]" "a < lk_alloc lk" "ch_heap (lk_channel lk) a = Queue_obj d"
      "df_successCallback d = Some cb_declared" "dq_queueCallback d = None"
      "ch_consumers (lk_channel lk) = Map.empty"
    using ok by (auto simp: link_ok_def)
  obtain impl where h: "lk_handle lk = Some impl" using ok by (auto simp: link_ok_def)
  let ?ch = "leave_synchronous (lk_channel lk)" and ?b = "lk_alloc lk"
  let ?req = "lk_request L (on_received cb_received) ?b
      (Channel_consume (Co_untagged_notable (octets_of (cc_queue (lk_control lk))) None) (Some impl))"
  obtain impl' where ap: "appends ?b (Consumer_obj ((new_DeferredConsumer impl' False)\<lparr>de_messageCallback := Some cb_received\<rparr>)) ?req"
    using lk_request_consume [OF L] by blast
  have "ch_usable ?ch \<and> pending ?ch [a] \<and> distinct [a] \<and> ?b \<notin> set [a]"
    using i ok by (auto simp: link_ok_def)
  moreover define c2 where "c2 = ?req ?ch"
  ultimately have r: "pending c2 [a, ?b]"
      "ch_heap c2 ?b = Consumer_obj ((new_DeferredConsumer impl' False)\<lparr>de_messageCallback := Some cb_received\<rparr>)"
      "ch_usable c2" "ch_consumers c2 = Map.empty" "ch_errorCallback c2 = Some cb_error"
    using ap i(6) ok unfolding appends_def link_ok_def by fastforce+
  have o: "ch_oldest (lk_channel lk) = Some a" using i(1) by (simp add: pending_def)
  have rep: "report_obj (lk_user L lk) (cl_report L) a (S_queue n m c) ?ch = (Some c2, [Success_call cb_declared])"
    using i(3-5) h
    by (simp add: c2_def report_obj_def DeferredQueue_reportSuccess_def Deferred_reportSuccess_def lk_user_def)
  obtain ch3 where c3: "ch_reportSuccess (lk_user L lk) (cl_report L) (S_queue n m c) (lk_channel lk) =
        (True, Some ch3, [Success_call cb_declared])" "pending ch3 [?b]"
      "ch3 = c2\<lparr>ch_oldest := ch_oldest ch3, ch_newest := ch_newest ch3\<rparr>"
    by (rule reportSuccess_pops [OF o rep r(1)])
  note f = popped_rest [OF c3(3)]
  have "link_inv Subscribing (lk\<lparr>lk_channel := ch3, lk_alloc := Suc ?b\<rparr>)"
    unfolding link_inv.simps using c3(2) r(2,4) f
    by (intro exI [of _ ?b] exI [of _ "(new_DeferredConsumer impl' False)\<lparr>de_messageCallback := Some cb_received\<rparr>"])
      (simp add: new_Consumer_slots)
  then have "link_ok Subscribing (lk\<lparr>lk_channel := ch3, lk_alloc := Suc ?b\<rparr>)"
    using r(3,5) f h by (simp add: link_ok_def)
  then show ?thesis using c3(1) by (simp add: lk_success_def)
qed

lemma link_subscribed:
  assumes L: "channel_lib_laws L" and ok: "link_ok Subscribing lk"
  shows "\<exists>lk'. lk_success L (S_name tag) lk = (lk', []) \<and>
    link_ok (Consuming tag) lk' \<and> lk_control lk' = lk_control lk"
proof -
  obtain a d where i: "pending (lk_channel lk) [a]" "ch_heap (lk_channel lk) a = Consumer_obj d"
      "df_successCallback d = None" "dn_consumeCallback d = None" "de_messageCallback d = Some cb_received"
      "ch_consumers (lk_channel lk) = Map.empty"
    using ok by (auto simp: link_ok_def)
  let ?ch = "leave_synchronous (lk_channel lk)"
  have o: "ch_oldest (lk_channel lk) = Some a" using i(1) by (simp add: pending_def)
  have "cl_report L a (S_name tag) ?ch = (Some (install_consumer tag a ?ch), [])"
    using L i(2-4) unfolding channel_lib_laws_def by simp
  then have rep: "report_obj (lk_user L lk) (cl_report L) a (S_name tag) ?ch = (Some (install_consumer tag a ?ch), [])"
    using i(2) by (simp add: report_obj_def)
  have p: "pending (install_consumer tag a ?ch) [a]" using i(1) by (simp add: pending_def install_consumer_def)
  obtain ch3 where c3: "ch_reportSuccess (lk_user L lk) (cl_report L) (S_name tag) (lk_channel lk) = (True, Some ch3, [])"
      "pending ch3 []"
      "ch3 = (install_consumer tag a ?ch)\<lparr>ch_oldest := ch_oldest ch3, ch_newest := ch_newest ch3\<rparr>"
    by (rule reportSuccess_pops [OF o rep p])
  note f = popped_rest [OF c3(3)]
  have "link_inv (Consuming tag) (lk\<lparr>lk_channel := ch3, lk_alloc := Suc (lk_alloc lk)\<rparr>)"
    unfolding link_inv.simps using c3(2) i(2,5,6) f by (intro exI [of _ a]) (simp add: install_consumer_rest)
  then have "link_ok (Consuming tag) (lk\<lparr>lk_channel := ch3, lk_alloc := Suc (lk_alloc lk)\<rparr>)"
    using f ok by (simp add: link_ok_def install_consumer_rest)
  then show ?thesis using c3(1) by (simp add: lk_success_def)
qed

lemma link_delivered:
  assumes L: "channel_lib_laws L" and ok: "link_ok (Consuming tag) lk"
  shows "\<exists>lk'. lk_step L J indet lk (Srv_deliver tag dt body) =
      (lk', fst (cc_received J indet (lk_control lk) dt body), snd (cc_received J indet (lk_control lk) dt body)) \<and>
    link_ok (Consuming tag) lk' \<and> lk_control lk' = lk_control lk"
proof -
  obtain impl where h: "lk_handle lk = Some impl" using ok by (auto simp: link_ok_def)
  obtain a where a: "pending (lk_channel lk) []" "ch_consumers (lk_channel lk) = [tag \<mapsto> a]"
      "obj_message_callback (ch_heap (lk_channel lk) a) = Some cb_received"
    using ok by (auto simp: link_ok_def)
  have d: "cl_deliver L tag (lk_channel lk) = Some cb_received"
    using L a unfolding channel_lib_laws_def by simp
  let ?ch = "cl_ack L dt 0 (lk_channel lk)"
  have "same_pending (lk_channel lk) ?ch \<and> ch_consumers ?ch = ch_consumers (lk_channel lk) \<and>
      ch_errorCallback ?ch = ch_errorCallback (lk_channel lk) \<and> ch_usable ?ch = ch_usable (lk_channel lk)"
    by (rule channel_lib_lawsD [OF L])
  then have "link_ok (Consuming tag) (lk\<lparr>lk_channel := ?ch\<rparr>)"
    using a ok by (simp add: link_ok_def pending_def same_pending_def)
  then show ?thesis
    using d h by (simp add: Channel_ack_def lk_request_def split: prod.split)
qed

lemma link_error:
  assumes L: "channel_lib_laws L" and ok: "link_ok p lk"
  shows "lk_step L J indet lk (Srv_error msg) = (lk, [Close_connection], None)"
proof -
  obtain as where "pending (lk_channel lk) as" "\<forall>a \<in> set as. obj_silent (ch_heap (lk_channel lk) a)"
  proof (cases p)
    case Declaring
    then obtain a d where "pending (lk_channel lk) [a]" "ch_heap (lk_channel lk) a = Queue_obj d" "obj_silent (Queue_obj d)"
      using ok unfolding link_ok_def by auto
    then show ?thesis using that [of "[a]"] by simp
  next
    case Subscribing
    then obtain a d where "pending (lk_channel lk) [a]" "ch_heap (lk_channel lk) a = Consumer_obj d" "obj_silent (Consumer_obj d)"
      using ok unfolding link_ok_def by auto
    then show ?thesis using that [of "[a]"] by simp
  next
    case (Consuming tag)
    then have "pending (lk_channel lk) []" using ok unfolding link_ok_def by auto
    then show ?thesis using that [of "[]"] by simp
  qed
  moreover have "ch_errorCallback (lk_channel lk) = Some cb_error" using ok by (simp add: link_ok_def)
  ultimately have "snd (cl_reportError L msg (lk_channel lk)) = [Error_call cb_error msg]"
    using L unfolding channel_lib_laws_def by blast
  then show ?thesis by simp
qed

lemma cc_received_flags:
  "cc_received J indet (abs_control p cc) dt body = cc_received J indet cc dt body"
  by (cases p) (simp_all add: cc_received_def split: sum.split)

lemma link_run_refines:
  assumes L: "channel_lib_laws L"
  shows "link_ok p lk \<Longrightarrow> conforms p es \<Longrightarrow>
    lk_run L J indet lk es = cc_run J indet (abs_control p (lk_control lk)) (concat (map abs_event es))"
proof (induction es arbitrary: p lk)
  case Nil
  then show ?case by simp
next
  case (Cons e es)
  show ?case
  proof (cases e)
    case (Srv_declare_ok n m c)
    with Cons.prems have p: "p = Declaring" "conforms Subscribing es" by auto
    obtain lk' where lk': "lk_success L (S_queue n m c) lk = (lk', [Consume (cc_queue (lk_control lk))])"
        "link_ok Subscribing lk'" "lk_control lk' = lk_control lk"
      using link_declared [OF L, of lk n m c] Cons.prems(1) p(1) by blast
    then show ?thesis using Cons.IH [OF lk'(2) p(2)] Srv_declare_ok p(1) by simp
  next
    case (Srv_consume_ok tag)
    with Cons.prems have p: "p = Subscribing" "conforms (Consuming tag) es" by auto
    obtain lk' where lk': "lk_success L (S_name tag) lk = (lk', [])"
        "link_ok (Consuming tag) lk'" "lk_control lk' = lk_control lk"
      using link_subscribed [OF L, of lk tag] Cons.prems(1) p(1) by blast
    then show ?thesis using Cons.IH [OF lk'(2) p(2)] Srv_consume_ok p(1) by simp
  next
    case (Srv_deliver tag dt body)
    with Cons.prems have p: "p = Consuming tag" "conforms (Consuming tag) es" by auto
    obtain lk' where lk': "lk_step L J indet lk (Srv_deliver tag dt body) =
          (lk', fst (cc_received J indet (lk_control lk) dt body), snd (cc_received J indet (lk_control lk) dt body))"
        "link_ok (Consuming tag) lk'" "lk_control lk' = lk_control lk"
      using link_delivered [OF L, of tag lk J indet dt body] Cons.prems(1) p(1) by blast
    obtain out f where "cc_received J indet (lk_control lk) dt body = (out, f)" by fastforce
    moreover have "cc_received J indet (abs_control (Consuming tag) (lk_control lk)) dt body = (out, f)"
      using calculation by (simp only: cc_received_flags)
    ultimately show ?thesis
      using Cons.IH [OF lk'(2) p(2)] lk' Srv_deliver p(1) by (simp del: lk_step.simps split: option.split)
  next
    case (Srv_error msg)
    with Cons.prems have "es = []" by simp
    moreover have "cc_on_error (abs_control p (lk_control lk))" by (cases p) simp_all
    ultimately show ?thesis
      using link_error [OF L Cons.prems(1), of J indet msg] Srv_error by (simp del: lk_step.simps)
  qed
qed

lemma link_start:
  assumes L: "channel_lib_laws L" and h: "lk_handle lk = Some impl" and u: "ch_usable (lk_channel lk)"
    and p: "pending (lk_channel lk) []" and c: "ch_consumers (lk_channel lk) = Map.empty"
  shows "link_ok Declaring (fst (lk_start L lk))" and "lk_control (fst (lk_start L lk)) = lk_control lk"
proof -
  let ?ch = "(lk_channel lk)\<lparr>ch_errorCallback := Some cb_error, ch_readyCallback := Some cb_ready\<rparr>"
  let ?a = "lk_alloc lk"
  let ?req = "lk_request L (on_queue_success cb_declared) ?a
      (Channel_declareQueue (Qu_notable (octets_of (cc_queue (lk_control lk))) None) (Some impl))"
  let ?d = "(new_DeferredQueue False)\<lparr>df_successCallback := Some cb_declared\<rparr>"
  have "ch_usable ?ch \<and> pending ?ch [] \<and> distinct [] \<and> ?a \<notin> set []"
    using u p by (simp add: ch_usable_def pending_def)
  moreover define c2 where "c2 = ?req ?ch"
  ultimately have r: "pending c2 [?a]" "ch_heap c2 ?a = Queue_obj ?d" "ch_usable c2"
      "ch_consumers c2 = Map.empty" "ch_errorCallback c2 = Some cb_error"
    using lk_request_declareQueue [OF L, of ?a cb_declared "octets_of (cc_queue (lk_control lk))" impl] c
    unfolding appends_def by fastforce+
  have s: "fst (lk_start L lk) = lk\<lparr>lk_channel := c2, lk_alloc := Suc ?a\<rparr>"
    using h channel_lib_lawsD(4) [OF L u, of cb_error]
    by (simp add: lk_start_def Let_def c2_def Channel_onError_def Channel_onReady_def onReady_def
        lk_request_def [of L _ _ "Inr (_, Rq_onError _)"] lk_request_def [of L _ _ "Inr (_, Rq_onReady _)"])
  have "link_inv Declaring (lk\<lparr>lk_channel := c2, lk_alloc := Suc ?a\<rparr>)"
    unfolding link_inv.simps using r
    by (intro exI [of _ ?a] exI [of _ ?d]) (simp add: deferred_defs)
  then show "link_ok Declaring (fst (lk_start L lk))" using r h by (simp add: s link_ok_def)
  show "lk_control (fst (lk_start L lk)) = lk_control lk" by (simp add: s)
qed

subsection \<open>Properties\<close>

text \<open>
  C8. The control channel on the AMQP channel refines the abstract one: started on a fresh channel, under a
  broker that conforms to the protocol, it puts out, in order, the requests, acknowledgements and
  control messages that the abstract control channel puts out for the declared queue, the
  deliveries and the error, and ends with the same exception if there is one.
\<close>

theorem control_link_refines:
  assumes "channel_lib_laws L" and "lk_handle lk = Some impl" and "ch_usable (lk_channel lk)"
    and "pending (lk_channel lk) []" and "ch_consumers (lk_channel lk) = Map.empty"
    and "conforms Declaring es"
  shows "snd (lk_start L lk) = snd (snd (cc_start (lk_control lk))) \<and>
    lk_run L J indet (fst (lk_start L lk)) es =
      cc_run J indet (fst (snd (cc_start (lk_control lk)))) (concat (map abs_event es))"
proof -
  note s = link_start [OF assms(1-5)]
  have "lk_run L J indet (fst (lk_start L lk)) es =
      cc_run J indet (abs_control Declaring (lk_control lk)) (concat (map abs_event es))"
    using link_run_refines [OF assms(1) s(1) assms(6), of J indet] s(2) by simp
  then show ?thesis by (simp add: cc_start_def lk_start_def Let_def)
qed

text \<open>Functions that satisfy the laws: an operation links its object behind the newest one.\<close>

definition push_obj :: "addr \<Rightarrow> deferred_obj \<Rightarrow> channel \<Rightarrow> channel" where
  "push_obj a d ch =
     (case ch_newest ch of
        None \<Rightarrow> ch\<lparr>ch_heap := (ch_heap ch)(a := d), ch_oldest := Some a, ch_newest := Some a\<rparr>
      | Some n \<Rightarrow>
          ch\<lparr>ch_heap := (ch_heap ch)(a := d, n := obj_add a (ch_heap ch n)), ch_newest := Some a\<rparr>)"

lemma push_obj_appends:
  assumes "obj_next d = None"
  shows "appends a d (push_obj a d)"
  unfolding appends_def
proof (intro allI impI)
  fix ch as
  assume p: "ch_usable ch \<and> pending ch as \<and> distinct as \<and> a \<notin> set as"
  show "pending (push_obj a d ch) (as @ [a]) \<and> ch_heap (push_obj a d ch) a = d \<and> ch_usable (push_obj a d ch) \<and>
      ch_consumers (push_obj a d ch) = ch_consumers ch \<and> ch_errorCallback (push_obj a d ch) = ch_errorCallback ch"
  proof (cases "as = []")
    case True
    with p assms show ?thesis by (simp add: push_obj_def pending_def ch_usable_def)
  next
    case False
    then have n: "ch_newest ch = Some (last as)" "last as \<noteq> a" "chain (ch_heap ch) (ch_oldest ch) as"
      using p by (auto simp: pending_def)
    let ?h = "(ch_heap ch)(a := d)"
    have "chain ?h (ch_oldest ch) as" using n(3) p by (subst chain_cong) auto
    then have "chain (?h(last as := obj_add a (?h (last as)))) (ch_oldest ch) (as @ [a])"
      using False p assms by (intro chain_add) auto
    with n p False show ?thesis by (simp add: push_obj_def pending_def ch_usable_def)
  qed
qed

definition example_lib :: channel_lib where
  "example_lib =
     \<lparr>cl_declareQueue = (\<lambda>a q f t. push_obj a (Queue_obj (new_DeferredQueue False))),
      cl_consume = (\<lambda>a q tag f t. push_obj a (Consumer_obj (new_DeferredConsumer 9 False))),
      cl_ack = (\<lambda>dt f ch. ch),
      cl_onError = (\<lambda>cb ch. ch\<lparr>ch_errorCallback := Some cb\<rparr>),
      cl_report = (\<lambda>a s ch. case s of S_name tag \<Rightarrow> (Some (install_consumer tag a ch), []) | _ \<Rightarrow> (Some ch, [])),
      cl_reportError = (\<lambda>msg ch. (Some (ch\<lparr>ch_state := Ch_closed\<rparr>),
        case ch_errorCallback ch of None \<Rightarrow> [] | Some cb \<Rightarrow> [Error_call cb msg])),
      cl_deliver = (\<lambda>tag ch. case ch_consumers ch tag of None \<Rightarrow> None | Some a \<Rightarrow> obj_message_callback (ch_heap ch a))\<rparr>"

lemma example_lib_laws: "channel_lib_laws example_lib"
proof -
  have "obj_next (Queue_obj (new_DeferredQueue False)) = None" "obj_next (Consumer_obj (new_DeferredConsumer 9 False)) = None"
    by (simp_all add: deferred_defs)
  then have "appends a (Queue_obj (new_DeferredQueue False)) (push_obj a (Queue_obj (new_DeferredQueue False)))"
    "\<exists>impl. appends a (Consumer_obj (new_DeferredConsumer impl False)) (push_obj a (Consumer_obj (new_DeferredConsumer 9 False)))" for a
    by (blast intro: push_obj_appends)+
  then show ?thesis by (simp add: channel_lib_laws_def example_lib_def same_pending_def)
qed

definition example_link :: control_link where
  "example_link =
     \<lparr>lk_control = setCtlMsgCallback (new_ControlChannel ''q''), lk_handle = Some 70,
      lk_channel = example_channel\<lparr>ch_oldest := None, ch_newest := None, ch_state := Ch_connected\<rparr>, lk_alloc = 3\<rparr>"

theorem control_link_refines_witness:
  "fst (lk_run example_lib example_json no_message (fst (lk_start example_lib example_link))
      [Srv_declare_ok [113] 0 0, Srv_consume_ok [8], Srv_deliver [8] 5 [9], Srv_deliver [8] 6 [1], Srv_error ''gone'']) =
    [Consume ''q'', Ack 5, Ack 6, Control \<lparr>msg_type = CLOSE, msg_id = 5\<rparr>, Close_connection]"
proof -
  have h: "lk_handle example_link = Some 70" "ch_usable (lk_channel example_link)"
      "pending (lk_channel example_link) []" "ch_consumers (lk_channel example_link) = Map.empty"
      "conforms Declaring [Srv_declare_ok [113] 0 0, Srv_consume_ok [8], Srv_deliver [8] 5 [9], Srv_deliver [8] 6 [1], Srv_error ''gone'']"
    by (simp_all add: example_link_def ch_usable_def pending_def example_channel_def)
  have c: "lk_control example_link = setCtlMsgCallback (new_ControlChannel ''q'')" by (simp add: example_link_def)
  have r: "cc_run example_json no_message
      (fst (snd (cc_start (setCtlMsgCallback (new_ControlChannel ''q'')))))
      [Queue_declared, Delivery 5 [9], Delivery 6 [1], Channel_error] =
      ([Consume ''q'', Ack 5, Ack 6, Control \<lparr>msg_type = CLOSE, msg_id = 5\<rparr>, Close_connection], None)"
    by code_simp
  show ?thesis
    using control_link_refines [OF example_lib_laws h, of example_json no_message] r c by simp
qed

end
