(* ===== verification/Linked_System.thy ===== *)
theory Linked_System
  imports System_Props Control_Link
begin

section \<open>The whole program on the AMQP channel\<close>

text \<open>
  The running program of \<open>Proxy_System\<close> with its control channel replaced by the one that runs on the
  model of the AMQP channel (\<open>Control_Link\<close>): what reaches it from the broker are the answers and
  deliveries of the protocol. The locale \<open>fault_simulation\<close> carries over what is known of the running
  program.
\<close>

datatype linked_event =
    Ln_accept "byte list" string u16
  | Ln_proxy addr proxy_input
  | Ln_broker broker_event

type_synonym linked = "sys \<times> control_link"

fun linked_step ::
  "channel_lib \<Rightarrow> 'v jsoncpp \<Rightarrow> config \<Rightarrow> control_message \<Rightarrow> linked \<Rightarrow> linked_event \<Rightarrow> fault + linked" where
  "linked_step L J cfg indet (s, lk) (Ln_accept junk ip prt) =
     map_sum (\<lambda>f. f) (\<lambda>s'. (s', lk)) (sys_step J cfg indet s (Accept junk ip prt))"
| "linked_step L J cfg indet (s, lk) (Ln_proxy a x) =
     map_sum (\<lambda>f. f) (\<lambda>s'. (s', lk)) (sys_step J cfg indet s (On_proxy a x))"
| "linked_step L J cfg indet (s, lk) (Ln_broker e) =
     (case lk_step L J indet lk e of
        (lk', out, Some f) \<Rightarrow> Inl f
      | (lk', out, None) \<Rightarrow> Inr (s\<lparr>sy_pm := fold onControlMessage (controls out) (sy_pm s)\<rparr>, lk'))"

text \<open>What a broker may send: see \<open>conforms\<close>. \<open>None\<close> is the closed channel.\<close>

fun next_phase :: "phase \<Rightarrow> broker_event \<Rightarrow> phase option option" where
  "next_phase p (Srv_declare_ok n m c) = (if p = Declaring then Some (Some Subscribing) else None)"
| "next_phase p (Srv_consume_ok tag) = (if p = Subscribing then Some (Some (Consuming tag)) else None)"
| "next_phase p (Srv_deliver tag dt body) = (if p = Consuming tag then Some (Some p) else None)"
| "next_phase p (Srv_error msg) = Some None"

fun linked_next :: "phase option \<Rightarrow> linked_event \<Rightarrow> phase option option" where
  "linked_next p (Ln_broker e) = (case p of None \<Rightarrow> None | Some ph \<Rightarrow> next_phase ph e)"
| "linked_next p _ = Some p"

fun abs_linked :: "linked_event \<Rightarrow> sys_event list" where
  "abs_linked (Ln_accept junk ip prt) = [Accept junk ip prt]"
| "abs_linked (Ln_proxy a x) = [On_proxy a x]"
| "abs_linked (Ln_broker e) = map On_channel (abs_event e)"

text \<open>The linked state stands for the state with the abstract control channel of its phase.\<close>

definition linked_rel :: "channel_lib \<Rightarrow> phase option \<Rightarrow> linked \<Rightarrow> sys \<Rightarrow> bool" where
  "linked_rel L p c a \<longleftrightarrow>
     channel_lib_laws L \<and> sy_pm a = sy_pm (fst c) \<and> sy_next a = sy_next (fst c) \<and>
     (case p of None \<Rightarrow> True | Some ph \<Rightarrow> link_ok ph (snd c) \<and> sy_cc a = abs_control ph (lk_control (snd c)))"

text \<open>Every answer of the broker moves the control channel as the abstract one moves.\<close>

lemma link_step_refines:
  assumes L: "channel_lib_laws L" and ok: "link_ok p lk" and nx: "next_phase p e = Some p'"
    and st: "lk_step L J indet lk e = (lk', out, r)"
  shows "(abs_event e = [] \<and> out = [] \<and> r = None \<or>
      (\<exists>d. abs_event e = [d] \<and>
        cc_step J indet (abs_control p (lk_control lk)) d =
          ((case p' of None \<Rightarrow> abs_control p (lk_control lk) | Some q \<Rightarrow> abs_control q (lk_control lk')), out, r))) \<and>
    (case p' of None \<Rightarrow> True
     | Some q \<Rightarrow> link_ok q lk' \<and> (abs_event e = [] \<longrightarrow> abs_control q (lk_control lk') = abs_control p (lk_control lk)))"
proof (cases e)
  case (Srv_declare_ok n m c)
  with nx have p: "p = Declaring" "p' = Some Subscribing" by (auto split: if_splits)
  obtain lk2 where "lk_success L (S_queue n m c) lk = (lk2, [Consume (cc_queue (lk_control lk))])"
      "link_ok Subscribing lk2" "lk_control lk2 = lk_control lk"
    using link_declared [OF L, of lk n m c] ok p by blast
  with st Srv_declare_ok p show ?thesis by auto
next
  case (Srv_consume_ok tag)
  with nx have p: "p = Subscribing" "p' = Some (Consuming tag)" by (auto split: if_splits)
  obtain lk2 where "lk_success L (S_name tag) lk = (lk2, [])" "link_ok (Consuming tag) lk2"
      "lk_control lk2 = lk_control lk"
    using link_subscribed [OF L, of lk tag] ok p by blast
  with st Srv_consume_ok p show ?thesis by auto
next
  case (Srv_deliver tag dt body)
  with nx have p: "p = Consuming tag" "p' = Some (Consuming tag)" by (auto split: if_splits)
  obtain lk2 where lk2: "lk_step L J indet lk (Srv_deliver tag dt body) =
        (lk2, fst (cc_received J indet (lk_control lk) dt body), snd (cc_received J indet (lk_control lk) dt body))"
      "link_ok (Consuming tag) lk2" "lk_control lk2 = lk_control lk"
    using link_delivered [OF L, of tag lk J indet dt body] ok p by blast
  have "cc_received J indet (abs_control p (lk_control lk)) dt body = (out, r)" "lk' = lk2"
    using lk2(1) st Srv_deliver by (simp_all only: cc_received_flags) (metis Pair_inject prod.collapse)+
  with lk2 Srv_deliver p show ?thesis by simp
next
  case (Srv_error msg)
  with nx have p: "p' = None" by simp
  have "out = [Close_connection]" "r = None"
    using st Srv_error link_error [OF L ok, of J indet msg] by (simp_all del: lk_step.simps)
  moreover have "cc_on_error (abs_control p (lk_control lk))" by (cases p) simp_all
  ultimately show ?thesis using Srv_error p by simp
qed

text \<open>The server and the proxies do not read the control channel.\<close>

lemma sys_step_ignores_channel:
  assumes "\<forall>d. e \<noteq> On_channel d"
  shows "sys_step J cfg indet (s\<lparr>sy_cc := cc\<rparr>) e =
    map_sum (\<lambda>f. f) (\<lambda>s'. s'\<lparr>sy_cc := cc\<rparr>) (sys_step J cfg indet s e)"
  using assms by (cases e) (auto simp: live_def split: option.split sum.split)

lemma linked_rel_sys: "linked_rel L p c a \<Longrightarrow> a = (fst c)\<lparr>sy_cc := sy_cc a\<rparr>"
  by (simp add: linked_rel_def)

lemma linked_other_event:
  assumes rel: "linked_rel L p (s, lk) a" and e: "\<forall>d. e \<noteq> On_channel d"
  shows "case sys_step J cfg indet s e of
      Inl f \<Rightarrow> sys_step J cfg indet a e = Inl f
    | Inr s' \<Rightarrow> \<exists>a'. sys_step J cfg indet a e = Inr a' \<and> linked_rel L p (s', lk) a'"
proof -
  have a: "sys_step J cfg indet a e = map_sum (\<lambda>f. f) (\<lambda>s'. s'\<lparr>sy_cc := sy_cc a\<rparr>) (sys_step J cfg indet s e)"
    using sys_step_ignores_channel [OF e, where s = s and cc = "sy_cc a"] linked_rel_sys [OF rel] by simp
  then show ?thesis using rel by (auto simp: linked_rel_def split: sum.split option.splits)
qed

lemma linked_broker_event:
  assumes rel: "linked_rel L (Some ph) (s, lk) a" and nx: "next_phase ph e = Some p'"
    and st: "lk_step L J indet lk e = (lk', out, r)"
  shows "case r of
      Some f \<Rightarrow> run_steps (sys_step J cfg indet) a (map On_channel (abs_event e)) = Inl f
    | None \<Rightarrow> \<exists>a'. run_steps (sys_step J cfg indet) a (map On_channel (abs_event e)) = Inr a' \<and>
        linked_rel L p' (s\<lparr>sy_pm := fold onControlMessage (controls out) (sy_pm s)\<rparr>, lk') a'"
proof -
  have L: "channel_lib_laws L" and ok: "link_ok ph lk" and cc: "sy_cc a = abs_control ph (lk_control lk)"
    and eq: "sy_pm a = sy_pm s" "sy_next a = sy_next s"
    using rel by (simp_all add: linked_rel_def)
  note r = link_step_refines [OF L ok nx st]
  show ?thesis
  proof (cases "abs_event e")
    case Nil
    with r cc eq L show ?thesis by (auto simp: linked_rel_def split: option.splits)
  next
    case (Cons d ds)
    with r have d: "abs_event e = [d]" "cc_step J indet (sy_cc a) d =
        ((case p' of None \<Rightarrow> sy_cc a | Some q \<Rightarrow> abs_control q (lk_control lk')), out, r)"
      using cc by (auto split: option.splits)
    show ?thesis
      using d r eq L by (cases r) (auto simp: linked_rel_def split: option.splits)
  qed
qed

interpretation ln: fault_simulation "linked_step L J cfg indet" "sys_step J cfg indet" linked_next
  "linked_rel L" abs_linked for L J cfg indet
proof
  fix p c a e p' f
  assume rel: "linked_rel L p c a" and nx: "linked_next p e = Some p'" and st: "linked_step L J cfg indet c e = Inl f"
  obtain s lk where c: "c = (s, lk)" by fastforce
  show "run_steps (sys_step J cfg indet) a (abs_linked e) = Inl f"
  proof (cases e)
    case (Ln_broker d)
    then obtain ph where "p = Some ph" "next_phase ph d = Some p'" using nx by (auto split: option.splits)
    with rel st Ln_broker c show ?thesis
      using linked_broker_event [where ph = ph and s = s and lk = lk and e = d and cfg = cfg]
      by (fastforce split: prod.splits option.splits)
  next
    case (Ln_accept junk ip prt)
    with st c show ?thesis by simp
  next
    case (Ln_proxy b x)
    with linked_other_event [of L p s lk a "On_proxy b x" J cfg indet] rel st c show ?thesis
      by (cases "sys_step J cfg indet s (On_proxy b x)") auto
  qed
next
  fix p c a e p' c'
  assume rel: "linked_rel L p c a" and nx: "linked_next p e = Some p'" and st: "linked_step L J cfg indet c e = Inr c'"
  obtain s lk where c: "c = (s, lk)" by fastforce
  show "\<exists>a'. run_steps (sys_step J cfg indet) a (abs_linked e) = Inr a' \<and> linked_rel L p' c' a'"
  proof (cases e)
    case (Ln_broker d)
    then obtain ph where "p = Some ph" "next_phase ph d = Some p'" using nx by (auto split: option.splits)
    with rel st Ln_broker c show ?thesis
      using linked_broker_event [where ph = ph and s = s and lk = lk and e = d and cfg = cfg]
      by (fastforce split: prod.splits option.splits)
  next
    case (Ln_accept junk ip prt)
    with linked_other_event [of L p s lk a "Accept junk ip prt" J cfg indet] rel st nx c show ?thesis
      by (cases "sys_step J cfg indet s (Accept junk ip prt)") auto
  next
    case (Ln_proxy b x)
    with linked_other_event [of L p s lk a "On_proxy b x" J cfg indet] rel st nx c show ?thesis
      by (cases "sys_step J cfg indet s (On_proxy b x)") auto
  qed
qed

subsection \<open>Start\<close>

text \<open>A channel object as \<open>start\<close> finds it, in a control channel to which \<open>main\<close> gave its callback.\<close>

definition fresh_link :: "string \<Rightarrow> control_link \<Rightarrow> bool" where
  "fresh_link queue lk \<longleftrightarrow>
     lk_control lk = setCtlMsgCallback (new_ControlChannel queue) \<and> lk_handle lk \<noteq> None \<and>
     ch_usable (lk_channel lk) \<and> pending (lk_channel lk) [] \<and> ch_consumers (lk_channel lk) = Map.empty"

lemma linked_rel_start:
  assumes L: "channel_lib_laws L" and fresh: "fresh_link queue lk"
  shows "linked_rel L (Some Declaring) (sys_start queue, fst (lk_start L lk)) (sys_start queue)"
proof -
  obtain impl where h: "lk_handle lk = Some impl" using fresh by (auto simp: fresh_link_def)
  have "link_ok Declaring (fst (lk_start L lk))" "lk_control (fst (lk_start L lk)) = lk_control lk"
    using link_start [OF L h] fresh by (simp_all add: fresh_link_def)
  with L fresh show ?thesis by (simp add: linked_rel_def fresh_link_def sys_start_def cc_start_def)
qed

text \<open>Every run of the linked program ends where the abstract one does.\<close>

lemma linked_run:
  assumes "channel_lib_laws L" and "fresh_link queue lk" and "protocol_ok linked_next (Some Declaring) es"
  shows "case run_steps (linked_step L J cfg indet) (sys_start queue, fst (lk_start L lk)) es of
      Inl f \<Rightarrow> run_steps (sys_step J cfg indet) (sys_start queue) (concat (map abs_linked es)) = Inl f
    | Inr c \<Rightarrow> \<exists>a. run_steps (sys_step J cfg indet) (sys_start queue) (concat (map abs_linked es)) = Inr a \<and>
        linked_rel L (protocol_end linked_next (Some Declaring) es) c a"
  using ln.run_sim [OF linked_rel_start [OF assms(1,2)] assms(3)] .

text \<open>The state of a run that was admissible is a reachable one, but for its control channel.\<close>

lemma linked_run_reach:
  assumes "channel_lib_laws L" and "fresh_link queue lk" and "protocol_ok linked_next (Some Declaring) es"
    and "admissible_run (sys_adm J indet) (sys_step J cfg indet) (sys_start queue) (concat (map abs_linked es))"
    and "run_steps (linked_step L J cfg indet) (sys_start queue, fst (lk_start L lk)) es = Inr c"
  obtains a where "sys_reach J cfg indet queue a"
    and "linked_rel L (protocol_end linked_next (Some Declaring) es) c a"
proof -
  obtain a where a: "run_steps (sys_step J cfg indet) (sys_start queue) (concat (map abs_linked es)) = Inr a"
      "linked_rel L (protocol_end linked_next (Some Declaring) es) c a"
    using linked_run [OF assms(1-3), of J cfg indet] assms(5) by auto
  show thesis by (rule that [OF reach_steps [OF reach_start assms(4) a(1)] a(2)])
qed

text \<open>The control callback that \<open>main\<close> sets stays.\<close>

lemma reach_callback: "sys_reach J cfg indet queue s \<Longrightarrow> cc_ctlCb (sy_cc s)"
proof (induction rule: sys_reach.induct)
  case reach_start
  show ?case by (simp add: sys_start_def cc_start_def setCtlMsgCallback_def)
next
  case (reach_step s e s')
  have "cc_ctlCb (fst (cc_step J indet cc d)) = cc_ctlCb cc" for cc d
    by (cases d) (simp_all split: prod.split)
  with reach_step show ?case
    by (cases e) (auto split: option.splits sum.splits prod.splits, metis fst_conv)
qed

lemma abs_control_callback: "cc_ctlCb (abs_control p cc) = cc_ctlCb cc"
  by (cases p) simp_all

subsection \<open>Properties\<close>

text \<open>
  C7. The program with its control channel on the AMQP channel refines the program with the abstract
  one: as long as the broker keeps to the protocol, and whatever clients and servers do in between,
  a run ends with the fault of the abstract run of the queue declaration, deliveries and errors, or
  in a state with the same clients, servers and registry.
\<close>

theorem linked_system_refines:
  assumes "channel_lib_laws L" and "fresh_link queue lk" and "protocol_ok linked_next (Some Declaring) es"
  shows "map_sum (\<lambda>f. f) (\<lambda>c. (sy_pm (fst c), sy_next (fst c)))
      (run_steps (linked_step L J cfg indet) (sys_start queue, fst (lk_start L lk)) es) =
    map_sum (\<lambda>f. f) (\<lambda>s. (sy_pm s, sy_next s))
      (run_steps (sys_step J cfg indet) (sys_start queue) (concat (map abs_linked es)))"
  using linked_run [OF assms, of J cfg indet] by (auto simp: linked_rel_def split: sum.splits)

text \<open>A run in which two clients come, report their ids, and the broker's answers arrive in between.\<close>

definition linked_example :: "linked_event list" where
  "linked_example =
     [Ln_accept [] ''c0'' 1, Ln_broker (Srv_declare_ok [113] 0 0), Ln_accept [] ''c1'' 2,
      Ln_proxy 0 (libevent_ok, 0, Client_data (header 1)), Ln_broker (Srv_consume_ok [8]),
      Ln_proxy 1 (libevent_ok, 0, Client_data (header 2))]"

definition closing_json :: "json jsoncpp" where
  "closing_json = table_json [([1], JObj [(''client_id'', JInt 1), (''job'', JStr ''close_sockets'')])]"

lemma fresh_example_link: "fresh_link ''q'' example_link"
  by (simp add: fresh_link_def example_link_def ch_usable_def pending_def example_channel_def)

lemma linked_example_ok: "protocol_ok linked_next (Some Declaring) (linked_example @ [Ln_broker (Srv_deliver [8] 5 [1])])"
  by (simp add: linked_example_def)

theorem linked_system_refines_witness:
  "run_steps (sys_step closing_json example_config no_message) (sys_start ''q'')
     (concat (map abs_linked (linked_example @ [Ln_broker (Srv_deliver [8] 5 [1])]))) \<noteq> Inl Null_pointer"
proof -
  have "\<not> (case run_steps (linked_step example_lib closing_json example_config no_message)
      (sys_start ''q'', fst (lk_start example_lib example_link))
      (linked_example @ [Ln_broker (Srv_deliver [8] 5 [1])]) of Inl f \<Rightarrow> True | Inr c \<Rightarrow> False)"
    by code_simp
  then show ?thesis
    using linked_system_refines [OF example_lib_laws fresh_example_link linked_example_ok,
        of closing_json example_config no_message]
    by (auto split: sum.splits)
qed

text \<open>
  C5. From the broker to the sockets: when the subscription stands and every routed client is
  recorded, the delivery of a \<open>close_sockets\<close> body for an id from 0 up disconnects exactly the
  clients that reported the id and leaves all others as they are.
\<close>

theorem delivered_close_disconnects:
  assumes "channel_lib_laws L" and "fresh_link queue lk" and "protocol_ok linked_next (Some Declaring) es"
    and "admissible_run (sys_adm J indet) (sys_step J cfg indet) (sys_start queue) (concat (map abs_linked es))"
    and "run_steps (linked_step L J cfg indet) (sys_start queue, fst (lk_start L lk)) es = Inr c"
    and "protocol_end linked_next (Some Declaring) es = Some (Consuming tag)"
    and "message_of J indet body = Some m" and "0 \<le> sint (msg_id m)"
    and "tracked (fst c)" and "live (fst c) a = Some p"
  shows "\<exists>c'. linked_step L J cfg indet c (Ln_broker (Srv_deliver tag dt body)) = Inr c' \<and>
    live (fst c') a = (if px_id p = msg_id m then None else Some p)"
proof -
  obtain s lk' where c: "c = (s, lk')" by fastforce
  obtain b where b: "sys_reach J cfg indet queue b" "linked_rel L (Some (Consuming tag)) c b"
    using linked_run_reach [OF assms(1-5)] assms(6) by metis
  have eq: "sy_pm b = sy_pm s" "sy_cc b = abs_control (Consuming tag) (lk_control lk')" "link_ok (Consuming tag) lk'"
    using b(2) c by (simp_all add: linked_rel_def)
  then have cb: "cc_ctlCb (lk_control lk')" using reach_callback [OF b(1)] by simp
  have j: "JsonParser_parse J indet body = Inr (True, m)"
    using assms(7) by (auto simp: message_of_def split: sum.splits prod.splits bool.splits)
  then have t: "msg_type m = CLOSE" using JsonParser_parse_type [OF j] assms(8) by simp
  have "cc_received J indet (lk_control lk') dt body = ([Ack dt, Control m], None)"
    using j cb by (simp add: cc_received_def)
  then obtain lk2 where "lk_step L J indet lk' (Srv_deliver tag dt body) = (lk2, [Ack dt, Control m], None)"
    using link_delivered [OF assms(1) eq(3), of J indet dt body] by auto
  then have st: "linked_step L J cfg indet c (Ln_broker (Srv_deliver tag dt body)) =
      Inr (s\<lparr>sy_pm := onControlMessage m (sy_pm s)\<rparr>, lk2)"
    using c by (simp del: lk_step.simps)
  have "tracked b" "live b a = Some p"
    using assms(9,10) eq(1) c by (simp_all add: tracked_def live_def registry_def)
  then have "cm_processors (pm_cm (onControlMessage m (sy_pm b))) a = (if px_id p = msg_id m then None else Some p)"
    by (intro close_complete [OF b(1)]) (simp_all add: t assms(8))
  then show ?thesis using st eq(1) by (simp add: live_def del: linked_step.simps)
qed

definition linked_state :: linked where
  "linked_state =
     (case run_steps (linked_step example_lib closing_json example_config no_message)
        (sys_start ''q'', fst (lk_start example_lib example_link)) linked_example of
        Inr c \<Rightarrow> c | Inl f \<Rightarrow> (sys_start ''q'', example_link))"

lemma linked_example_run:
  "run_steps (linked_step example_lib closing_json example_config no_message)
     (sys_start ''q'', fst (lk_start example_lib example_link)) linked_example = Inr linked_state"
proof -
  have "\<not> (case run_steps (linked_step example_lib closing_json example_config no_message)
      (sys_start ''q'', fst (lk_start example_lib example_link)) linked_example of Inl f \<Rightarrow> True | Inr c \<Rightarrow> False)"
    by code_simp
  then show ?thesis by (auto simp: linked_state_def split: sum.splits)
qed

lemma linked_example_adm:
  "admissible_run (sys_adm closing_json no_message) (sys_step closing_json example_config no_message)
     (sys_start ''q'') (concat (map abs_linked linked_example))"
proof (rule sys_admissibleI)
  show "list_all sys_lib (concat (map abs_linked linked_example))"
    by (simp add: linked_example_def libevent_ok_laws)
qed code_simp

lemma linked_example_tracked: "tracked (fst linked_state)"
proof -
  have "list_all (\<lambda>a. case live (fst linked_state) a of None \<Rightarrow> True | Some p \<Rightarrow>
      px_state p = BEGIN \<or> (px_id p, a) \<in> set (registry (fst linked_state))) [0, 1]"
    by code_simp
  moreover have "a < 2" if "live (fst linked_state) a = Some p" for a p
  proof -
    obtain b where b: "sys_reach closing_json example_config no_message ''q'' b"
        "linked_rel example_lib (protocol_end linked_next (Some Declaring) linked_example) linked_state b"
      by (rule linked_run_reach [OF example_lib_laws fresh_example_link _ linked_example_adm linked_example_run])
        (simp add: linked_example_def)
    have "sy_next (fst linked_state) = 2" by code_simp
    with b(2) reach_live(3) [OF b(1), of a p] that show ?thesis by (simp add: linked_rel_def live_def)
  qed
  moreover have "a = 0 \<or> a = 1" if "a < 2" for a :: nat using that by auto
  ultimately show ?thesis unfolding tracked_def by (fastforce split: option.splits)
qed

theorem delivered_close_disconnects_witness:
  "\<exists>c'. linked_step example_lib closing_json example_config no_message linked_state
      (Ln_broker (Srv_deliver [8] 5 [1])) = Inr c' \<and> live (fst c') 0 = None"
proof -
  have l: "live (fst linked_state) 0 = Some (the (live (fst linked_state) 0))"
      "px_id (the (live (fst linked_state) 0)) = 1" by code_simp+
  have m: "message_of closing_json no_message [1] = Some \<lparr>msg_type = CLOSE, msg_id = 1\<rparr>" by code_simp
  show ?thesis
    using delivered_close_disconnects [OF example_lib_laws fresh_example_link _ linked_example_adm
        linked_example_run _ m _ linked_example_tracked l(1), of "[8]" 5] l(2)
    by (simp add: linked_example_def del: linked_step.simps)
qed

end
