(* ===== verification/Lifetimes.thy ===== *)
theory Lifetimes
  imports Proxy_System
begin

section \<open>Lifetimes: what the callbacks touch, create and free\<close>

text \<open>
  The connection objects call each other back while they are being closed: the end of a server
  connection runs \<open>Forwarder\<close>'s \<open>onEvent\<close>, which closes the proxy that owns the forwarder, whose close
  callback makes the manager drop the last \<open>shared_ptr\<close> to the proxy, whose destructor deletes the
  forwarder: all of it below frames that still belong to both objects. This theory writes down, next
  to each operation of \<open>connectionprocessor.cpp\<close>, \<open>forwarder.cpp\<close>, \<open>proxy.cpp\<close>,
  \<open>connectionmanager.cpp\<close> and \<open>proxymanager.cpp\<close>, what it does to memory, in the order of its
  statements: which object it reads or writes, when it uses, makes and frees a \<open>bufferevent\<close> or an
  \<open>evdns_base\<close>, which objects it constructs and destroys, and which mutex it takes. The destructors are
  part of it. A checker runs such a trace and stops at the first action that is not allowed.
\<close>

datatype part = Proxy_part addr | Fwd_part addr

datatype mutex = Cm_mutex | Pm_lock

datatype action =
    Touch part
  | Begin_life part
  | End_life part
  | Bev_new part
  | Bev_use part
  | Bev_free part
  | Dns_new part
  | Dns_use part
  | Dns_free part
  | Lock mutex
  | Unlock mutex

datatype memory_fault =
    Dangling part
  | Already_alive part
  | No_bufferevent part
  | No_dns_base part
  | Leaked part
  | Overwritten part
  | Deadlock mutex
  | Not_locked mutex

record life =
  lf_alive :: "part \<Rightarrow> bool"
  lf_bev :: "part \<Rightarrow> bool"
  lf_dns :: "part \<Rightarrow> bool"
  lf_held :: "mutex \<Rightarrow> bool"

text \<open>
  The mutexes are \<open>std::mutex\<close>: locking one twice in the same thread is a deadlock. An object that ends
  with a bufferevent or a DNS base has leaked it.
\<close>

fun act :: "life \<Rightarrow> action \<Rightarrow> memory_fault + life" where
  "act l (Touch x) = (if lf_alive l x then Inr l else Inl (Dangling x))"
| "act l (Begin_life x) =
     (if lf_alive l x then Inl (Already_alive x) else Inr (l\<lparr>lf_alive := (lf_alive l)(x := True)\<rparr>))"
| "act l (End_life x) =
     (if \<not> lf_alive l x then Inl (Dangling x)
      else if lf_bev l x \<or> lf_dns l x then Inl (Leaked x)
      else Inr (l\<lparr>lf_alive := (lf_alive l)(x := False)\<rparr>))"
| "act l (Bev_new x) =
     (if \<not> lf_alive l x then Inl (Dangling x)
      else if lf_bev l x then Inl (Overwritten x)
      else Inr (l\<lparr>lf_bev := (lf_bev l)(x := True)\<rparr>))"
| "act l (Bev_use x) = (if lf_bev l x then Inr l else Inl (No_bufferevent x))"
| "act l (Bev_free x) =
     (if lf_bev l x then Inr (l\<lparr>lf_bev := (lf_bev l)(x := False)\<rparr>) else Inl (No_bufferevent x))"
| "act l (Dns_new x) =
     (if \<not> lf_alive l x then Inl (Dangling x)
      else if lf_dns l x then Inl (Overwritten x)
      else Inr (l\<lparr>lf_dns := (lf_dns l)(x := True)\<rparr>))"
| "act l (Dns_use x) = (if lf_dns l x then Inr l else Inl (No_dns_base x))"
| "act l (Dns_free x) =
     (if lf_dns l x then Inr (l\<lparr>lf_dns := (lf_dns l)(x := False)\<rparr>) else Inl (No_dns_base x))"
| "act l (Lock m) =
     (if lf_held l m then Inl (Deadlock m) else Inr (l\<lparr>lf_held := (lf_held l)(m := True)\<rparr>))"
| "act l (Unlock m) =
     (if lf_held l m then Inr (l\<lparr>lf_held := (lf_held l)(m := False)\<rparr>) else Inl (Not_locked m))"

abbreviation acts :: "life \<Rightarrow> action list \<Rightarrow> memory_fault + life" where
  "acts \<equiv> run_steps act"

subsection \<open>Connections\<close>

text \<open>
  Both constructors of \<open>ConnectionProcessor\<close> make the DNS base, then the bufferevent, and install the
  callbacks in it; the destructor frees the bufferevent when \<open>close\<close> has not, and the DNS base.
\<close>

definition ConnectionProcessor_create :: "part \<Rightarrow> action list" where
  "ConnectionProcessor_create x = [Begin_life x, Dns_new x, Bev_new x, Bev_use x, Bev_use x]"

definition ConnectionProcessor_destroy :: "part \<Rightarrow> 'a connection_processor_scheme \<Rightarrow> action list" where
  "ConnectionProcessor_destroy x cp =
     [Touch x] @ (if cp_bev cp then [Bev_free x] else []) @ [Dns_free x, End_life x]"

text \<open>
  \<open>close\<close>, \<open>onEvent\<close>, \<open>connect\<close> and \<open>sendData\<close>. What a callback does is an argument, a function of the
  object at the time of the call; nothing of the object is read after a callback has returned.
\<close>

definition close_acts ::
  "part \<Rightarrow> ('a connection_processor_scheme \<Rightarrow> action list) \<Rightarrow> 'a connection_processor_scheme \<Rightarrow>
   action list" where
  "close_acts x closeCb cp =
     [Touch x] @ (if cp_bev cp then [Bev_free x, Touch x] else []) @ [Touch x] @
     (if cp_closeCb cp then [Touch x] @ closeCb (fst (ConnectionProcessor_close cp)) else [])"

definition onEvent_acts ::
  "part \<Rightarrow> (bool \<Rightarrow> 'a connection_processor_scheme \<Rightarrow> action list) \<Rightarrow>
   ('a connection_processor_scheme \<Rightarrow> action list) \<Rightarrow> bev_events \<Rightarrow>
   'a connection_processor_scheme \<Rightarrow> action list" where
  "onEvent_acts x connectCb closeCb ev cp =
     (if ev_connected ev then [Touch x, Touch x] @ connectCb True (cp\<lparr>cp_connecting := False\<rparr>)
      else if ev_eof ev \<or> ev_error ev then
        [Touch x] @ (if cp_connecting cp then [Touch x] @ connectCb False cp else close_acts x closeCb cp)
      else [])"

definition connect_acts :: "part \<Rightarrow> action list" where
  "connect_acts x = [Touch x, Bev_use x, Dns_use x]"

definition sendData_acts :: "part \<Rightarrow> part \<Rightarrow> action list" where
  "sendData_acts x src = [Touch x, Bev_use x, Bev_use src]"

definition Forwarder_dataRecieved_acts :: "part \<Rightarrow> part \<Rightarrow> action list" where
  "Forwarder_dataRecieved_acts x dest = [Touch x, Touch dest] @ sendData_acts dest x"

subsection \<open>Proxy\<close>

text \<open>The destructor deletes the forwarder first, then what it inherits.\<close>

definition Proxy_destroy :: "addr \<Rightarrow> proxy \<Rightarrow> action list" where
  "Proxy_destroy a p =
     [Touch (Proxy_part a)] @
     (case px_fwd p of None \<Rightarrow> [] | Some f \<Rightarrow> ConnectionProcessor_destroy (Fwd_part a) f) @
     ConnectionProcessor_destroy (Proxy_part a) p"

text \<open>
  \<open>clo\<close> is the close callback of the proxy and \<open>idr\<close> its id callback. Making a new forwarder assigns
  it to \<open>_fwd\<close>, which would delete an older one.
\<close>

definition parse_first_message_acts ::
  "libevent \<Rightarrow> config \<Rightarrow> u16 \<Rightarrow> addr \<Rightarrow> (proxy \<Rightarrow> action list) \<Rightarrow> action list \<Rightarrow> proxy \<Rightarrow> action list" where
  "parse_first_message_acts L cfg indet a clo idr p =
     [Touch (Proxy_part a)] @
     (case header_id (px_data p) of
        None \<Rightarrow> close_acts (Proxy_part a) clo p
      | Some i \<Rightarrow>
          let hst = getHostById cfg i
          in if fst hst = [] then close_acts (Proxy_part a) clo p
             else
               let p1 = p\<lparr>px_id := i\<rparr>;
                   (ok, f) = start_forwarder L indet hst;
                   p2 = p1\<lparr>px_fwd := Some f\<rparr>
               in [Touch (Proxy_part a)] @ (if px_idClb p1 then idr else []) @
                  [Touch (Proxy_part a)] @ ConnectionProcessor_create (Fwd_part a) @
                  (case px_fwd p1 of None \<Rightarrow> [] | Some f0 \<Rightarrow> ConnectionProcessor_destroy (Fwd_part a) f0) @
                  [Touch (Proxy_part a), Touch (Fwd_part a), Touch (Fwd_part a)] @
                  connect_acts (Fwd_part a) @
                  (if \<not> ok then close_acts (Proxy_part a) clo p2 else [Touch (Proxy_part a)]))"

text \<open>The event buffers are those of the two bufferevents, so reading one uses its bufferevent.\<close>

definition Proxy_dataRecieved_acts ::
  "libevent \<Rightarrow> config \<Rightarrow> u16 \<Rightarrow> addr \<Rightarrow> (proxy \<Rightarrow> action list) \<Rightarrow> action list \<Rightarrow> proxy \<Rightarrow> action list" where
  "Proxy_dataRecieved_acts L cfg indet a clo idr p =
     [Touch (Proxy_part a)] @
     (case px_state p of
        FWD \<Rightarrow> [Touch (Fwd_part a), Touch (Proxy_part a)] @ sendData_acts (Fwd_part a) (Proxy_part a)
      | BEGIN \<Rightarrow>
          [Touch (Proxy_part a), Bev_use (Proxy_part a)] @
          (let p1 = p\<lparr>px_lastInput := Own_input\<rparr>
           in if length (cp_input p1) < MSG_SIZE then [Touch (Proxy_part a)]
              else
                let (res, bytes) = evbuffer_copyout L (cp_input p1) MSG_SIZE;
                    p2 = p1\<lparr>px_data := bytes @ drop (length bytes) (px_data p1)\<rparr>
                in [Bev_use (Proxy_part a), Touch (Proxy_part a)] @
                   (if res \<noteq> int MSG_SIZE then close_acts (Proxy_part a) clo p2
                    else parse_first_message_acts L cfg indet a clo idr p2))
      | CONNECTING \<Rightarrow> [])"

definition onConnected_acts ::
  "libevent \<Rightarrow> config \<Rightarrow> u16 \<Rightarrow> addr \<Rightarrow> (proxy \<Rightarrow> action list) \<Rightarrow> action list \<Rightarrow> bool \<Rightarrow> proxy \<Rightarrow>
   action list" where
  "onConnected_acts L cfg indet a clo idr res p =
     (if \<not> res then [Touch (Proxy_part a)]
      else
        [Touch (Proxy_part a)] @
        Proxy_dataRecieved_acts L cfg indet a clo idr (p\<lparr>px_state := FWD\<rparr>) @
        [Touch (Proxy_part a)])"

definition onFwdClose_acts :: "addr \<Rightarrow> (proxy \<Rightarrow> action list) \<Rightarrow> proxy \<Rightarrow> action list" where
  "onFwdClose_acts a clo p =
     [Touch (Proxy_part a), Touch (Fwd_part a), Touch (Proxy_part a)] @ close_acts (Proxy_part a) clo p"

text \<open>The four events of libevent, with the two static functions that receive them.\<close>

fun px_acts ::
  "config \<Rightarrow> addr \<Rightarrow> (proxy \<Rightarrow> action list) \<Rightarrow> action list \<Rightarrow> proxy \<Rightarrow> proxy_input \<Rightarrow> action list" where
  "px_acts cfg a clo idr p (L, indet, Client_data bs) =
     [Bev_use (Proxy_part a)] @
     Proxy_dataRecieved_acts L cfg indet a clo idr (p\<lparr>cp_input := cp_input p @ bs\<rparr>)"
| "px_acts cfg a clo idr p (L, indet, Client_event ev) =
     [Touch (Proxy_part a)] @ onEvent_acts (Proxy_part a) (\<lambda>b p'. []) clo ev p"
| "px_acts cfg a clo idr p (L, indet, Server_data bs) =
     [Bev_use (Fwd_part a)] @ Forwarder_dataRecieved_acts (Fwd_part a) (Proxy_part a)"
| "px_acts cfg a clo idr p (L, indet, Server_event ev) =
     [Touch (Fwd_part a)] @
     (case px_fwd p of
        None \<Rightarrow> []
      | Some f \<Rightarrow>
          onEvent_acts (Fwd_part a)
            (\<lambda>b f'. onConnected_acts L cfg indet a clo idr b (p\<lparr>px_fwd := Some f'\<rparr>))
            (\<lambda>f'. onFwdClose_acts a clo (p\<lparr>px_fwd := Some f'\<rparr>)) ev f)"

subsection \<open>The managers\<close>

text \<open>
  The connection manager holds its mutex while the destructor of the last reference runs. It prints the
  object before it erases it. The order in which \<open>dropAll\<close> clears the \<open>unordered_set\<close> is a parameter.
\<close>

definition CM_dropConnection_acts :: "addr \<Rightarrow> proxy connection_manager \<Rightarrow> action list" where
  "CM_dropConnection_acts a cm =
     [Lock Cm_mutex] @
     (if cm_running cm then
        (case cm_processors cm a of
           None \<Rightarrow> []
         | Some p \<Rightarrow> [Touch (Proxy_part a)] @ Proxy_destroy a p)
      else []) @
     [Unlock Cm_mutex]"

definition CM_dropAll_acts ::
  "((addr \<rightharpoonup> proxy) \<Rightarrow> addr list) \<Rightarrow> proxy connection_manager \<Rightarrow> action list" where
  "CM_dropAll_acts ord cm =
     [Lock Cm_mutex] @
     concat (map (\<lambda>a. case cm_processors cm a of None \<Rightarrow> [] | Some p \<Rightarrow> Proxy_destroy a p)
               (ord (cm_processors cm))) @
     [Unlock Cm_mutex]"

text \<open>
  A new client: \<open>make_shared\<close>, the two callbacks, \<open>addConnection\<close>; the reference of the caller goes at
  the end of the statement, and with it the object when the manager did not take it.
\<close>

definition addProxy_acts :: "addr \<Rightarrow> proxy \<Rightarrow> proxy_manager \<Rightarrow> action list" where
  "addProxy_acts a p pm =
     ConnectionProcessor_create (Proxy_part a) @
     [Touch (Proxy_part a), Touch (Proxy_part a), Lock Cm_mutex, Unlock Cm_mutex] @
     (if cm_running (pm_cm pm) then [] else Proxy_destroy a (setIdRcvClb (setOnCloseCb p)))"

definition PM_dropConnection_acts :: "addr \<Rightarrow> proxy_manager \<Rightarrow> action list" where
  "PM_dropConnection_acts a pm =
     (case cm_processors (pm_cm pm) a of None \<Rightarrow> [] | Some p \<Rightarrow> [Touch (Proxy_part a)]) @
     CM_dropConnection_acts a (pm_cm pm)"

definition PM_dropAll_acts ::
  "((addr \<rightharpoonup> proxy) \<Rightarrow> addr list) \<Rightarrow> proxy_manager \<Rightarrow> action list" where
  "PM_dropAll_acts ord pm = CM_dropAll_acts ord (pm_cm pm) @ [Lock Pm_lock, Unlock Pm_lock]"

primrec drops_acts :: "addr list \<Rightarrow> proxy connection_manager \<Rightarrow> action list" where
  "drops_acts [] cm = []"
| "drops_acts (a # as) cm = CM_dropConnection_acts a cm @ drops_acts as (CM_dropConnection a cm)"

definition dropById_acts :: "c_int \<Rightarrow> proxy_manager \<Rightarrow> action list" where
  "dropById_acts i pm =
     [Lock Pm_lock, Unlock Pm_lock] @ drops_acts (equal_range i (pm_idToConn pm)) (pm_cm pm)"

definition onIdRecv_acts :: "action list" where
  "onIdRecv_acts = [Lock Pm_lock, Unlock Pm_lock]"

definition onControlMessage_acts ::
  "((addr \<rightharpoonup> proxy) \<Rightarrow> addr list) \<Rightarrow> control_message \<Rightarrow> proxy_manager \<Rightarrow> action list" where
  "onControlMessage_acts ord msg pm =
     (if msg_type msg = CLOSE then dropById_acts (msg_id msg) pm
      else if msg_type msg = CLOSE_ALL then PM_dropAll_acts ord pm
      else [])"

primrec controls_acts ::
  "((addr \<rightharpoonup> proxy) \<Rightarrow> addr list) \<Rightarrow> control_message list \<Rightarrow> proxy_manager \<Rightarrow> action list" where
  "controls_acts ord [] pm = []"
| "controls_acts ord (m # ms) pm =
     onControlMessage_acts ord m pm @ controls_acts ord ms (onControlMessage m pm)"

subsection \<open>What should be alive\<close>

text \<open>
  The memory that goes with a set of proxies: each of them and its forwarder, if it has one, is alive
  with its DNS base, and with its bufferevent until it is closed.
\<close>

fun alive_part :: "(addr \<rightharpoonup> proxy) \<Rightarrow> part \<Rightarrow> bool" where
  "alive_part liv (Proxy_part a) = (case liv a of None \<Rightarrow> False | Some p \<Rightarrow> True)"
| "alive_part liv (Fwd_part a) =
     (case liv a of None \<Rightarrow> False | Some p \<Rightarrow> (case px_fwd p of None \<Rightarrow> False | Some f \<Rightarrow> True))"

fun bev_part :: "(addr \<rightharpoonup> proxy) \<Rightarrow> part \<Rightarrow> bool" where
  "bev_part liv (Proxy_part a) = (case liv a of None \<Rightarrow> False | Some p \<Rightarrow> cp_bev p)"
| "bev_part liv (Fwd_part a) =
     (case liv a of None \<Rightarrow> False | Some p \<Rightarrow> (case px_fwd p of None \<Rightarrow> False | Some f \<Rightarrow> cp_bev f))"

definition life_of :: "(mutex \<Rightarrow> bool) \<Rightarrow> (addr \<rightharpoonup> proxy) \<Rightarrow> life" where
  "life_of held liv =
     \<lparr>lf_alive = alive_part liv, lf_bev = bev_part liv, lf_dns = alive_part liv, lf_held = held\<rparr>"

abbreviation unlocked :: "mutex \<Rightarrow> bool" where
  "unlocked \<equiv> (\<lambda>m. False)"

lemma part_ext: "(\<And>a. f (Proxy_part a) = g (Proxy_part a)) \<Longrightarrow> (\<And>a. f (Fwd_part a) = g (Fwd_part a)) \<Longrightarrow> f = g"
  by (rule ext) (metis part.exhaust)

lemma acts_append [simp]:
  "acts l (xs @ ys) = (case acts l xs of Inl e \<Rightarrow> Inl e | Inr l' \<Rightarrow> acts l' ys)"
  by (rule run_steps_append)

lemma life_of_simps [simp]:
  "lf_alive (life_of h liv) = alive_part liv" "lf_bev (life_of h liv) = bev_part liv"
  "lf_dns (life_of h liv) = alive_part liv" "lf_held (life_of h liv) = h"
  by (simp_all add: life_of_def)

lemma destroy_fwd_life:
  assumes "liv a = Some p" and "px_fwd p = Some f"
  shows "acts (life_of h liv) (ConnectionProcessor_destroy (Fwd_part a) f) =
    Inr (life_of h (liv(a \<mapsto> p\<lparr>px_fwd := None\<rparr>)))"
  using assms
  by (auto simp: ConnectionProcessor_destroy_def life_of_def intro!: part_ext split: if_splits)

lemma destroy_own_life:
  assumes "liv a = Some p" and "px_fwd p = None"
  shows "acts (life_of h liv) (ConnectionProcessor_destroy (Proxy_part a) p) = Inr (life_of h (liv(a := None)))"
  using assms
  by (auto simp: ConnectionProcessor_destroy_def life_of_def intro!: part_ext split: if_splits)

lemma Proxy_destroy_life:
  assumes "liv a = Some p"
  shows "acts (life_of h liv) (Proxy_destroy a p) = Inr (life_of h (liv(a := None)))"
proof (cases "px_fwd p")
  case None
  with assms show ?thesis by (simp add: Proxy_destroy_def destroy_own_life)
next
  case (Some f)
  have "ConnectionProcessor_destroy (Proxy_part a) p =
      ConnectionProcessor_destroy (Proxy_part a) (p\<lparr>px_fwd := None\<rparr>)"
    by (simp add: ConnectionProcessor_destroy_def)
  with Some assms show ?thesis
    by (simp add: Proxy_destroy_def destroy_fwd_life
        destroy_own_life [of "liv(a \<mapsto> p\<lparr>px_fwd := None\<rparr>)" a "p\<lparr>px_fwd := None\<rparr>"])
qed


text \<open>Only these parts of a proxy matter to the memory it holds.\<close>

definition same_memory :: "proxy \<Rightarrow> proxy \<Rightarrow> bool" where
  "same_memory p q \<longleftrightarrow>
     cp_bev p = cp_bev q \<and> map_option cp_bev (px_fwd p) = map_option cp_bev (px_fwd q)"

lemma life_of_same:
  "same_memory p q \<Longrightarrow> life_of h (liv(a \<mapsto> p)) = life_of h (liv(a \<mapsto> q))"
  by (cases "px_fwd p"; cases "px_fwd q")
    (auto simp: same_memory_def life_of_def intro!: part_ext split: if_splits)

lemma life_of_unchanged: "liv a = Some p \<Longrightarrow> same_memory p q \<Longrightarrow> life_of h (liv(a \<mapsto> q)) = life_of h liv"
  using life_of_same [of p q h liv a] by (simp add: map_upd_triv)

lemma life_of_close:
  "liv a = Some p \<Longrightarrow> cp_bev p \<Longrightarrow>
   act (life_of h liv) (Bev_free (Proxy_part a)) = Inr (life_of h (liv(a \<mapsto> p\<lparr>cp_bev := False\<rparr>)))"
  by (auto simp: life_of_def intro!: part_ext split: if_splits)

lemma life_of_close_fwd:
  "liv a = Some p \<Longrightarrow> px_fwd p = Some f \<Longrightarrow> cp_bev f \<Longrightarrow>
   act (life_of h liv) (Bev_free (Fwd_part a)) =
     Inr (life_of h (liv(a \<mapsto> p\<lparr>px_fwd := Some (f\<lparr>cp_bev := False\<rparr>)\<rparr>)))"
  by (auto simp: life_of_def intro!: part_ext split: if_splits)

lemma life_of_create:
  "liv a = None \<Longrightarrow> cp_bev p \<Longrightarrow> px_fwd p = None \<Longrightarrow>
   acts (life_of h liv) (ConnectionProcessor_create (Proxy_part a)) = Inr (life_of h (liv(a \<mapsto> p)))"
  by (auto simp: ConnectionProcessor_create_def life_of_def intro!: part_ext split: if_splits)

lemma life_of_create_fwd:
  "liv a = Some p \<Longrightarrow> px_fwd p = None \<Longrightarrow> cp_bev f \<Longrightarrow>
   acts (life_of h liv) (ConnectionProcessor_create (Fwd_part a)) =
     Inr (life_of h (liv(a \<mapsto> p\<lparr>px_fwd := Some f\<rparr>)))"
  by (auto simp: ConnectionProcessor_create_def life_of_def intro!: part_ext split: if_splits)

lemma act_Lock [simp]: "\<not> h m \<Longrightarrow> act (life_of h liv) (Lock m) = Inr (life_of (h(m := True)) liv)"
  and act_Unlock [simp]: "h m \<Longrightarrow> act (life_of h liv) (Unlock m) = Inr (life_of (h(m := False)) liv)"
  by (simp_all add: life_of_def)

lemma unlocked_again [simp]: "unlocked(m := False) = unlocked"
  by auto

declare act.simps(10,11) [simp del]

subsection \<open>The managers keep the memory in step\<close>

lemma CM_dropConnection_life:
  "acts (life_of unlocked (cm_processors cm)) (CM_dropConnection_acts a cm) =
   Inr (life_of unlocked (cm_processors (CM_dropConnection a cm)))"
  by (auto simp: CM_dropConnection_acts_def CM_dropConnection_def Proxy_destroy_life split: option.splits)

lemma drops_life:
  "acts (life_of unlocked (cm_processors cm)) (drops_acts as cm) =
   Inr (life_of unlocked (cm_processors (fold CM_dropConnection as cm)))"
  by (induction as arbitrary: cm) (simp_all add: CM_dropConnection_life)

lemma dropById_life:
  "acts (life_of unlocked (cm_processors (pm_cm pm))) (dropById_acts i pm) =
   Inr (life_of unlocked (cm_processors (pm_cm (dropById i pm))))"
  by (simp add: dropById_acts_def dropById_def Let_def drops_life)

text \<open>\<open>dropAll\<close> visits every object once, in whatever order the set is laid out.\<close>

definition set_order :: "((addr \<rightharpoonup> proxy) \<Rightarrow> addr list) \<Rightarrow> bool" where
  "set_order ord \<longleftrightarrow> (\<forall>m. finite (dom m) \<longrightarrow> set (ord m) = dom m \<and> distinct (ord m))"

lemma destroy_all_life:
  "distinct as \<Longrightarrow> set as \<subseteq> dom m \<Longrightarrow> (\<forall>a \<in> set as. liv a = m a) \<Longrightarrow>
   acts (life_of h liv)
     (concat (map (\<lambda>a. case m a of None \<Rightarrow> [] | Some p \<Rightarrow> Proxy_destroy a p) as)) =
   Inr (life_of h (liv |` (- set as)))"
proof (induction as arbitrary: liv)
  case Nil
  then show ?case by simp
next
  case (Cons a as)
  then obtain p where p: "m a = Some p" "liv a = Some p" by fastforce
  have r: "(liv(a := None)) |` (- set as) = liv |` (- set (a # as))"
    by (auto simp: restrict_map_def)
  have "\<forall>b \<in> set as. (liv(a := None)) b = m b" using Cons.prems by auto
  with Cons.IH [of "liv(a := None)"] Cons.prems p show ?case
    unfolding r by (simp add: Proxy_destroy_life del: fun_upd_apply)
qed

lemma PM_dropAll_life:
  assumes "set_order ord" and "finite (dom (cm_processors (pm_cm pm)))"
  shows "acts (life_of unlocked (cm_processors (pm_cm pm))) (PM_dropAll_acts ord pm) =
    Inr (life_of unlocked (cm_processors (pm_cm (PM_dropAll pm))))"
proof -
  let ?m = "cm_processors (pm_cm pm)"
  have o: "set (ord ?m) = dom ?m" "distinct (ord ?m)"
    using assms by (simp_all add: set_order_def)
  have "?m |` (- dom ?m) = Map.empty" by (auto simp: restrict_map_def)
  with destroy_all_life [of "ord ?m" ?m ?m] o show ?thesis
    by (simp add: PM_dropAll_acts_def CM_dropAll_acts_def PM_dropAll_def CM_dropAll_def)
qed

lemma onControlMessage_life:
  assumes "set_order ord" and "finite (dom (cm_processors (pm_cm pm)))"
  shows "acts (life_of unlocked (cm_processors (pm_cm pm))) (onControlMessage_acts ord m pm) =
    Inr (life_of unlocked (cm_processors (pm_cm (onControlMessage m pm))))"
  using assms by (simp add: onControlMessage_acts_def onControlMessage_def dropById_life PM_dropAll_life)

lemma control_finite:
  "finite (dom (cm_processors (pm_cm pm))) \<Longrightarrow> cm_ok (pm_cm pm) \<Longrightarrow>
   finite (dom (cm_processors (pm_cm (onControlMessage m pm))))"
  by (rule finite_subset [where B = "dom (cm_processors (pm_cm pm))"])
    (auto simp: onControlMessage_def dropById_processors PM_dropAll_def CM_dropAll_def split: if_splits)

lemma pm_inv_finite:
  "pm_inv cfg n pm \<Longrightarrow> finite (dom (cm_processors (pm_cm pm)))"
  by (rule finite_subset [where B = "{..<n}"]) (auto simp: pm_inv_def)

lemma controls_life:
  "set_order ord \<Longrightarrow> pm_inv cfg n pm \<Longrightarrow>
   acts (life_of unlocked (cm_processors (pm_cm pm))) (controls_acts ord ms pm) =
     Inr (life_of unlocked (cm_processors (pm_cm (fold onControlMessage ms pm))))"
  by (induction ms arbitrary: pm)
    (simp_all add: onControlMessage_life pm_inv_finite pm_inv_onControlMessage)


subsection \<open>A proxy and its owner\<close>

text \<open>
  What a proxy relies on: its close callback destroys it and frees all it holds, in whatever condition
  the proxy is at the time of the call, and its id callback leaves the memory alone. \<open>objects\<close> are the
  objects the owner holds.
\<close>

lemma bev_cleared [simp]: "\<not> cp_bev p \<Longrightarrow> p\<lparr>cp_bev := False\<rparr> = (p :: proxy)"
  by (cases p) simp

locale proxy_owner =
  fixes objects :: "'m \<Rightarrow> addr \<rightharpoonup> proxy"
    and dropped :: "'m \<Rightarrow> addr \<Rightarrow> proxy \<Rightarrow> action list"
    and id_received :: "action list"
    and owns :: "'m \<Rightarrow> addr \<Rightarrow> bool"
  assumes drop_life: "owns m a \<Longrightarrow>
      acts (life_of unlocked ((objects m)(a \<mapsto> p))) (dropped m a p) =
        Inr (life_of unlocked ((objects m)(a := None)))"
    and id_life: "acts (life_of unlocked liv) id_received = Inr (life_of unlocked liv)"
begin

lemma close_life:
  assumes "owns m a"
  shows "acts (life_of unlocked ((objects m)(a \<mapsto> p))) (close_acts (Proxy_part a) (dropped m a) p) =
    Inr (life_of unlocked ((objects m)(a :=
      (case Proxy_close p of (p', effs) \<Rightarrow> if Closed \<in> set effs then None else Some p'))))"
  using assms
  by (simp add: close_acts_def Proxy_close_def ConnectionProcessor_close_def drop_life
      life_of_close [where p = p] del: act.simps(6))

text \<open>The outcome of an operation of the proxy: the object as it is then, unless it was destroyed.\<close>

lemma parse_life:
  assumes a: "owns m a" and f: "px_fwd p = None"
  shows "acts (life_of unlocked ((objects m)(a \<mapsto> p)))
      (parse_first_message_acts L cfg indet a (dropped m a) id_received p) =
    Inr (life_of unlocked ((objects m)(a :=
      (case parse_first_message L cfg indet p of (p', effs) \<Rightarrow> if Closed \<in> set effs then None else Some p'))))"
proof (cases "header_id (px_data p)")
  case None
  then show ?thesis
    by (simp add: parse_first_message_acts_def parse_first_message_def close_life [OF a])
next
  case (Some i)
  obtain ok fw where fw: "start_forwarder L indet (getHostById cfg i) = (ok, fw)" by fastforce
  have bev: "cp_bev fw"
    using fw by (auto simp: start_forwarder_def connect_def setDestination_def setOnCloseCb_def
        new_Forwarder_def new_outgoing_def connection_processor.defs Let_def)
  have make: "acts (life_of unlocked ((objects m)(a \<mapsto> p))) (ConnectionProcessor_create (Fwd_part a)) =
      Inr (life_of unlocked ((objects m)(a \<mapsto> p\<lparr>px_id := i, px_fwd := Some fw\<rparr>)))"
    using life_of_create_fwd [of "(objects m)(a \<mapsto> p)" a p fw unlocked] f bev
      life_of_same [of "p\<lparr>px_fwd := Some fw\<rparr>" "p\<lparr>px_id := i, px_fwd := Some fw\<rparr>"]
    by (simp add: same_memory_def)
  have same: "life_of unlocked ((objects m)(a \<mapsto> p\<lparr>px_id := i, px_fwd := Some fw, px_state := CONNECTING\<rparr>)) =
      life_of unlocked ((objects m)(a \<mapsto> p\<lparr>px_id := i, px_fwd := Some fw\<rparr>))"
    by (rule life_of_same) (simp add: same_memory_def)
  show ?thesis
    using Some fw f bev
    by (simp add: parse_first_message_acts_def parse_first_message_def Let_def close_life [OF a] id_life
        make same connect_acts_def split: prod.split)
qed

lemma data_life:
  assumes a: "owns m a" and b: "cp_bev p" and f: "px_state p = BEGIN \<Longrightarrow> px_fwd p = None"
    and st: "Proxy_dataRecieved L cfg indet Own_input p = Inr (p', effs)"
  shows "acts (life_of unlocked ((objects m)(a \<mapsto> p)))
      (Proxy_dataRecieved_acts L cfg indet a (dropped m a) id_received p) =
    Inr (life_of unlocked ((objects m)(a := (if Closed \<in> set effs then None else Some p'))))"
proof (cases "px_state p")
  case BEGIN
  have s1: "life_of unlocked ((objects m)(a \<mapsto> p\<lparr>px_lastInput := i\<rparr>)) = life_of unlocked ((objects m)(a \<mapsto> p))"
    "life_of unlocked ((objects m)(a \<mapsto> p\<lparr>px_lastInput := i, px_data := d\<rparr>)) =
     life_of unlocked ((objects m)(a \<mapsto> p))" for i d
    by (rule life_of_same, simp add: same_memory_def)+
  show ?thesis
    using BEGIN b st f
      close_life [OF a, of "p\<lparr>px_lastInput := Own_input, px_data := d\<rparr>" for d]
      parse_life [OF a, of "p\<lparr>px_lastInput := Own_input, px_data := d\<rparr>" for d]
    by (auto simp: Proxy_dataRecieved_acts_def Proxy_dataRecieved_def Let_def s1 split: if_splits prod.splits)
next
  case CONNECTING
  with st show ?thesis by (simp add: Proxy_dataRecieved_acts_def Proxy_dataRecieved_def)
next
  case FWD
  then obtain fw where fw: "px_fwd p = Some fw" "cp_bev fw"
    using st by (auto simp: Proxy_dataRecieved_def sendData_def split: option.splits if_splits)
  obtain ok f' left where sd: "sendData L (cp_input p) fw = Inr (ok, f', left)" "effs = []"
      "p' = p\<lparr>px_fwd := Some f', cp_input := left\<rparr>"
    using FWD fw st by (auto simp: Proxy_dataRecieved_def split: sum.splits)
  then have "cp_bev f' = cp_bev fw" by (auto simp: sendData_def split: if_splits prod.splits)
  then have "life_of unlocked ((objects m)(a \<mapsto> p')) = life_of unlocked ((objects m)(a \<mapsto> p))"
    using sd fw by (intro life_of_same) (simp add: same_memory_def)
  with FWD fw b sd show ?thesis
    by (simp add: Proxy_dataRecieved_acts_def sendData_acts_def)
qed

text \<open>
  After a successful connect the proxy is written to once more when the data has been forwarded: the
  state is \<open>FWD\<close> by then, in which \<open>dataRecieved\<close> never closes.
\<close>

lemma onConnected_life:
  assumes a: "owns m a" and b: "cp_bev p" and i: "px_lastInput p = Own_input"
    and st: "onConnected L cfg indet r p = Inr (p', effs)"
  shows "acts (life_of unlocked ((objects m)(a \<mapsto> p)))
      (onConnected_acts L cfg indet a (dropped m a) id_received r p) =
    Inr (life_of unlocked ((objects m)(a := (if Closed \<in> set effs then None else Some p'))))"
proof (cases r)
  case False
  with st show ?thesis by (simp add: onConnected_acts_def onConnected_def)
next
  case True
  then obtain p2 where d: "Proxy_dataRecieved L cfg indet Own_input (p\<lparr>px_state := FWD\<rparr>) = Inr (p2, effs)"
    "p' = p2\<lparr>px_lastInput := Null_input\<rparr>"
    using st i by (auto simp: onConnected_def split: sum.splits)
  then have e: "effs = []"
    by (auto simp: Proxy_dataRecieved_def split: option.splits sum.splits prod.splits)
  have s: "life_of unlocked ((objects m)(a \<mapsto> p\<lparr>px_state := FWD\<rparr>)) = life_of unlocked ((objects m)(a \<mapsto> p))"
    "life_of unlocked ((objects m)(a \<mapsto> p')) = life_of unlocked ((objects m)(a \<mapsto> p2))"
    using d by (auto intro!: life_of_same simp: same_memory_def)
  have "acts (life_of unlocked ((objects m)(a \<mapsto> p)))
      (Proxy_dataRecieved_acts L cfg indet a (dropped m a) id_received (p\<lparr>px_state := FWD\<rparr>)) =
    Inr (life_of unlocked ((objects m)(a \<mapsto> p2)))"
    using data_life [OF a _ _ d(1)] b e by (simp add: s)
  with True e show ?thesis by (simp add: onConnected_acts_def s)
qed

lemma onFwdClose_life:
  assumes a: "owns m a" and st: "onFwdClose p = Inr (p', effs)"
  shows "acts (life_of unlocked ((objects m)(a \<mapsto> p))) (onFwdClose_acts a (dropped m a) p) =
    Inr (life_of unlocked ((objects m)(a := (if Closed \<in> set effs then None else Some p'))))"
  using st close_life [OF a, of p]
  by (auto simp: onFwdClose_acts_def onFwdClose_def split: if_splits)

lemma server_event_life:
  assumes a: "owns m a" and f: "px_fwd p = Some f" and b: "cp_bev p" "cp_bev f"
    and w: "cp_connecting f \<Longrightarrow> px_lastInput p = Own_input"
    and ok: "ev_connected ev \<Longrightarrow> cp_connecting f" and cb: "cp_closeCb f"
    and st: "px_step cfg p (L, indet, Server_event ev) = Inr (p', effs)"
  shows "acts (life_of unlocked ((objects m)(a \<mapsto> p)))
      (px_acts cfg a (dropped m a) id_received p (L, indet, Server_event ev)) =
    Inr (life_of unlocked ((objects m)(a := (if Closed \<in> set effs then None else Some p'))))"
proof (cases "ev_connected ev")
  case True
  have s: "life_of unlocked ((objects m)(a \<mapsto> p\<lparr>px_fwd := Some (f\<lparr>cp_connecting := False\<rparr>)\<rparr>)) =
      life_of unlocked ((objects m)(a \<mapsto> p))"
    by (rule life_of_same) (simp add: same_memory_def f)
  have "onConnected L cfg indet True (p\<lparr>px_fwd := Some (f\<lparr>cp_connecting := False\<rparr>)\<rparr>) = Inr (p', effs)"
    using True st f by (auto simp: onEvent_def Let_def split: if_splits)
  from onConnected_life [OF a _ _ this] True f b w ok show ?thesis
    by (simp add: onEvent_acts_def s)
next
  case nc: False
  show ?thesis
  proof (cases "(ev_eof ev \<or> ev_error ev) \<and> \<not> cp_connecting f")
    case True
    let ?q = "p\<lparr>px_fwd := Some (f\<lparr>cp_bev := False\<rparr>)\<rparr>"
    have "onFwdClose ?q = Inr (p', effs)"
      using True nc st f cb by (auto simp: onEvent_def ConnectionProcessor_close_def split: if_splits)
    from onFwdClose_life [OF a this] True nc f b cb show ?thesis
      by (simp add: onEvent_acts_def close_acts_def ConnectionProcessor_close_def
          life_of_close_fwd [where p = p] del: act.simps(6))
  next
    case False
    have s: "life_of unlocked ((objects m)(a \<mapsto> p\<lparr>px_fwd := Some f\<rparr>)) =
        life_of unlocked ((objects m)(a \<mapsto> p))"
      by (rule life_of_same) (simp add: same_memory_def f)
    show ?thesis
      using False nc st f b w onConnected_life [OF a, of "p\<lparr>px_fwd := Some f\<rparr>" L cfg indet False p' effs]
      by (auto simp: onEvent_acts_def onEvent_def s split: if_splits)
  qed
qed

lemma px_life:
  assumes a: "owns m a" and inv: "px_inv cfg p" and adm: "px_events_ok p (L, indet, e)"
    and st: "px_step cfg p (L, indet, e) = Inr (p', effs)"
  shows "acts (life_of unlocked ((objects m)(a \<mapsto> p)))
      (px_acts cfg a (dropped m a) id_received p (L, indet, e)) =
    Inr (life_of unlocked ((objects m)(a := (if Closed \<in> set effs then None else Some p'))))"
proof (cases e)
  case (Client_data bs)
  have s: "life_of unlocked ((objects m)(a \<mapsto> p\<lparr>cp_input := i\<rparr>)) = life_of unlocked ((objects m)(a \<mapsto> p))" for i
    by (rule life_of_same) (simp add: same_memory_def)
  have "px_state p = BEGIN \<Longrightarrow> px_fwd p = None" using inv adm by (auto simp: px_inv_def)
  with Client_data st adm data_life [OF a, of "p\<lparr>cp_input := cp_input p @ bs\<rparr>" L cfg indet p' effs]
  show ?thesis by (simp add: s)
next
  case (Client_event ev)
  with st inv adm close_life [OF a, of p] show ?thesis
    by (auto simp: onEvent_acts_def onEvent_def px_inv_def Proxy_close_def
        ConnectionProcessor_close_def split: if_splits)
next
  case (Server_data bs)
  then obtain f where f: "px_fwd p = Some f" "cp_bev f" "cp_bev p"
    using adm by (auto split: option.splits)
  with Server_data st obtain f' q where q: "p' = q\<lparr>px_fwd := Some f'\<rparr>" "effs = []"
      "Forwarder_dataRecieved L (f\<lparr>cp_input := cp_input f @ bs\<rparr>) p = Inr (f', q)"
    by (auto split: sum.splits)
  then have "cp_bev f' = cp_bev f" "cp_bev q = cp_bev p"
    by (auto simp: Forwarder_dataRecieved_def sendData_def split: if_splits sum.splits prod.splits)
  then have "life_of unlocked ((objects m)(a \<mapsto> p')) = life_of unlocked ((objects m)(a \<mapsto> p))"
    using q f by (intro life_of_same) (simp add: same_memory_def)
  with Server_data f q show ?thesis by (simp add: Forwarder_dataRecieved_acts_def sendData_acts_def)
next
  case (Server_event ev)
  then obtain f where f: "px_fwd p = Some f" "cp_bev f" "cp_bev p" "ev_connected ev \<Longrightarrow> cp_connecting f"
    using adm by (auto split: option.splits)
  with inv have "cp_closeCb f" "cp_connecting f \<Longrightarrow> px_lastInput p = Own_input"
    by (auto simp: px_inv_def fwd_ok_def split: proxy_state.splits)
  with server_event_life [OF a f(1) f(3) f(2)] f(4) st Server_event show ?thesis by blast
qed

end

text \<open>The proxy manager is such an owner of every object it holds while it runs.\<close>

interpretation pmo: proxy_owner "\<lambda>pm. cm_processors (pm_cm pm)"
  "\<lambda>pm a p. PM_dropConnection_acts a (store_proxy a p pm)" onIdRecv_acts
  "\<lambda>pm a. cm_running (pm_cm pm)"
  by unfold_locales
    (simp_all add: PM_dropConnection_acts_def CM_dropConnection_acts_def store_proxy_def
      Proxy_destroy_life onIdRecv_acts_def)

subsection \<open>The running program\<close>

fun sys_acts ::
  "'v jsoncpp \<Rightarrow> config \<Rightarrow> ((addr \<rightharpoonup> proxy) \<Rightarrow> addr list) \<Rightarrow> control_message \<Rightarrow> sys \<Rightarrow> sys_event \<Rightarrow>
   action list" where
  "sys_acts J cfg ord indet s (Accept junk ip prt) =
     addProxy_acts (sy_next s) (new_Proxy junk ip prt) (sy_pm s)"
| "sys_acts J cfg ord indet s (On_proxy a x) =
     (case live s a of
        None \<Rightarrow> [Touch (Proxy_part a)]
      | Some p \<Rightarrow>
          px_acts cfg a (\<lambda>p'. PM_dropConnection_acts a (store_proxy a p' (sy_pm s))) onIdRecv_acts p x)"
| "sys_acts J cfg ord indet s (On_channel e) =
     (case cc_step J indet (sy_cc s) e of
        (cc, out, r) \<Rightarrow> controls_acts ord (controls out) (sy_pm s))"

text \<open>The program with its memory: a step also runs its actions against the memory.\<close>

datatype run_fault = Program_fault fault | Memory_fault memory_fault

definition mem_step ::
  "'v jsoncpp \<Rightarrow> config \<Rightarrow> ((addr \<rightharpoonup> proxy) \<Rightarrow> addr list) \<Rightarrow> control_message \<Rightarrow> sys \<times> life \<Rightarrow>
   sys_event \<Rightarrow> run_fault + sys \<times> life" where
  "mem_step J cfg ord indet sl e =
     (case sys_step J cfg indet (fst sl) e of
        Inl f \<Rightarrow> Inl (Program_fault f)
      | Inr s' \<Rightarrow>
          (case acts (snd sl) (sys_acts J cfg ord indet (fst sl) e) of
             Inl f \<Rightarrow> Inl (Memory_fault f)
           | Inr l' \<Rightarrow> Inr (s', l')))"

definition mem_start :: "string \<Rightarrow> sys \<times> life" where
  "mem_start queue = (sys_start queue, life_of unlocked (live (sys_start queue)))"

definition mem_inv :: "((addr \<rightharpoonup> proxy) \<Rightarrow> addr list) \<Rightarrow> config \<Rightarrow> sys \<times> life \<Rightarrow> bool" where
  "mem_inv ord cfg sl \<longleftrightarrow>
     set_order ord \<and> sys_inv cfg (fst sl) \<and> snd sl = life_of unlocked (live (fst sl))"

definition no_life :: life where
  "no_life = \<lparr>lf_alive = (\<lambda>x. False), lf_bev = (\<lambda>x. False), lf_dns = (\<lambda>x. False), lf_held = unlocked\<rparr>"

text \<open>
  The end of \<open>main\<close>: a CLOSE_ALL through the controller, and \<open>dropAll\<close> again in the destructor of the
  proxy manager.
\<close>

definition ProxyManager_destroy ::
  "((addr \<rightharpoonup> proxy) \<Rightarrow> addr list) \<Rightarrow> proxy_manager \<Rightarrow> action list" where
  "ProxyManager_destroy ord pm = PM_dropAll_acts ord pm"

definition shutdown_acts ::
  "((addr \<rightharpoonup> proxy) \<Rightarrow> addr list) \<Rightarrow> proxy_manager \<Rightarrow> action list" where
  "shutdown_acts ord pm =
     (let msg = \<lparr>msg_type = CLOSE_ALL, msg_id = 0\<rparr>
      in onControlMessage_acts ord msg pm @ ProxyManager_destroy ord (onControlMessage msg pm))"

lemma life_of_empty: "life_of unlocked Map.empty = no_life"
  by (auto simp: life_of_def no_life_def intro!: part_ext)

lemma addProxy_life:
  assumes "cm_processors (pm_cm pm) a = None"
  shows "acts (life_of unlocked (cm_processors (pm_cm pm))) (addProxy_acts a (new_Proxy junk ip prt) pm) =
    Inr (life_of unlocked (cm_processors (pm_cm (addProxy a (new_Proxy junk ip prt) pm))))"
proof -
  let ?p = "setIdRcvClb (setOnCloseCb (new_Proxy junk ip prt))" and ?m = "cm_processors (pm_cm pm)"
  have p: "cp_bev ?p" "px_fwd ?p = None"
    by (simp_all add: setIdRcvClb_def setOnCloseCb_def new_Proxy_def new_incoming_def
        connection_processor.defs)
  have "?m(a := None) = ?m" using assms by auto
  with assms p life_of_create [where h = unlocked and liv = ?m and a = a and p = ?p] Proxy_destroy_life [of "?m(a \<mapsto> ?p)" a ?p unlocked]
  show ?thesis by (simp add: addProxy_acts_def addProxy_def addConnection_def fun_upd_same del: fun_upd_apply)
qed

lemma effects_live:
  assumes "step_effects p p' effs" and "cm_ok (pm_cm pm)" and "cm_processors (pm_cm pm) a = Some p"
  shows "cm_processors (pm_cm (fold (apply_effect a) effs (store_proxy a p' pm))) =
    (cm_processors (pm_cm pm))(a := (if Closed \<in> set effs then None else Some p'))"
proof -
  have ok: "cm_ok (pm_cm (store_proxy a p' pm))" "cm_ok (pm_cm (onIdRecv i a (store_proxy a p' pm)))" for i
    using assms(2,3) by (auto simp: cm_ok_def store_proxy_def onIdRecv_def)
  have "cm_processors (pm_cm (PM_dropConnection a (store_proxy a p' pm))) = (cm_processors (pm_cm pm))(a := None)"
    "cm_processors (pm_cm (PM_dropConnection a (onIdRecv i a (store_proxy a p' pm)))) =
       (cm_processors (pm_cm pm))(a := None)" for i
    using ok by (auto simp: PM_dropConnection_processors store_proxy_def onIdRecv_def fun_eq_iff)
  with assms(1) show ?thesis
    by (auto simp: step_effects_def apply_effect_def onIdRecv_def store_proxy_def split: if_splits)
qed

lemma sys_acts_life:
  assumes ord: "set_order ord" and inv: "sys_inv cfg s" and adm: "sys_adm J indet s e"
    and st: "sys_step J cfg indet s e = Inr s'"
  shows "acts (life_of unlocked (live s)) (sys_acts J cfg ord indet s e) = Inr (life_of unlocked (live s'))"
proof (cases e)
  case (Accept junk ip prt)
  have "live s (sy_next s) = None"
    using inv by (cases "live s (sy_next s)") (auto simp: sys_inv_def pm_inv_def live_def)
  with addProxy_life st Accept show ?thesis by (auto simp: live_def)
next
  case (On_proxy a x)
  obtain p where p: "live s a = Some p" "px_adm p x"
    using adm On_proxy by (auto split: option.splits)
  obtain L i ev where x: "x = (L, i, ev)" by (cases x)
  have pi: "px_inv cfg p" and run: "cm_running (pm_cm (sy_pm s))"
    using inv p by (auto simp: sys_inv_def pm_inv_def live_def)
  obtain p' effs where px: "px_step cfg p x = Inr (p', effs)"
    and ok: "step_ok cfg p (event_client ev) (event_server ev) p' effs"
    using px_step_ok [OF pi] p(2) x by metis
  have "live s' = (live s)(a := (if Closed \<in> set effs then None else Some p'))"
    using st On_proxy p px effects_live [of p p' effs "sy_pm s" a] ok inv
    by (auto simp: live_def step_ok_def sys_inv_def pm_inv_ok)
  moreover have "(cm_processors (pm_cm (sy_pm s)))(a \<mapsto> p) = cm_processors (pm_cm (sy_pm s))"
    using p by (auto simp: live_def)
  ultimately show ?thesis
    using pmo.px_life [OF run pi, of L i ev p' effs a] p px x On_proxy by (simp add: live_def px_adm_def)
next
  case (On_channel c)
  then obtain cc out where "cc_step J indet (sy_cc s) c = (cc, out, None)"
    using adm by (cases "cc_step J indet (sy_cc s) c") auto
  with On_channel st inv controls_life [OF ord] show ?thesis by (auto simp: sys_inv_def live_def)
qed

lemma mem_step_safe:
  assumes "mem_inv ord cfg sl" and "sys_adm J indet (fst sl) e"
  shows "\<exists>sl'. mem_step J cfg ord indet sl e = Inr sl' \<and> mem_inv ord cfg sl'"
proof -
  have o: "set_order ord" and i: "sys_inv cfg (fst sl)" and l: "snd sl = life_of unlocked (live (fst sl))"
    using assms(1) by (simp_all add: mem_inv_def)
  obtain s' where s: "sys_step J cfg indet (fst sl) e = Inr s'" "sys_inv cfg s'"
    using sys_step_safe [OF i assms(2)] by blast
  from sys_acts_life [OF o i assms(2) s(1)] s o l show ?thesis
    by (simp add: mem_step_def mem_inv_def)
qed

interpretation me: guarded_machine "mem_step J cfg ord indet" "\<lambda>sl. sys_adm J indet (fst sl)" "mem_inv ord cfg"
  for J cfg ord indet
  by unfold_locales (rule mem_step_safe)

lemma mem_inv_start: "set_order ord \<Longrightarrow> mem_inv ord cfg (mem_start queue)"
  by (simp add: mem_inv_def mem_start_def sys_inv_start)

text \<open>The memory does not influence the program.\<close>

lemma mem_step_fst: "mem_step J cfg ord indet sl e = Inr sl' \<Longrightarrow> sys_step J cfg indet (fst sl) e = Inr (fst sl')"
  by (auto simp: mem_step_def split: sum.splits)

lemma mem_admissible:
  assumes "mem_inv ord cfg sl" and "admissible_run (sys_adm J indet) (sys_step J cfg indet) (fst sl) es"
  shows "admissible_run (\<lambda>sl. sys_adm J indet (fst sl)) (mem_step J cfg ord indet) sl es"
  using assms
proof (induction es arbitrary: sl)
  case Nil
  then show ?case by simp
next
  case (Cons e es)
  then obtain sl' where sl': "mem_step J cfg ord indet sl e = Inr sl'" "mem_inv ord cfg sl'"
    using me.step_safe by fastforce
  with Cons mem_step_fst [OF sl'(1)] show ?case by simp
qed

lemma mem_run_fst:
  "run_steps (mem_step J cfg ord indet) sl es = Inr sl' \<Longrightarrow>
   run_steps (sys_step J cfg indet) (fst sl) es = Inr (fst sl')"
  by (induction es arbitrary: sl) (auto split: sum.splits dest: mem_step_fst)

lemma mem_run:
  assumes "set_order ord"
    and "admissible_run (sys_adm J indet) (sys_step J cfg indet) (sys_start queue) es"
  shows "\<exists>s'. run_steps (sys_step J cfg indet) (sys_start queue) es = Inr s' \<and>
    run_steps (mem_step J cfg ord indet) (mem_start queue) es = Inr (s', life_of unlocked (live s')) \<and>
    sys_inv cfg s'"
proof -
  have adm: "admissible_run (\<lambda>sl. sys_adm J indet (fst sl)) (mem_step J cfg ord indet) (mem_start queue) es"
    using mem_admissible [OF mem_inv_start [OF assms(1)]] assms(2) by (simp add: mem_start_def)
  then obtain sl' where r: "run_steps (mem_step J cfg ord indet) (mem_start queue) es = Inr sl'"
      "mem_inv ord cfg sl'"
    using me.run_safe [OF mem_inv_start [OF assms(1)]] by blast
  with mem_run_fst [OF r(1)] show ?thesis
    by (cases sl') (auto simp: mem_inv_def mem_start_def)
qed

lemma shutdown_life:
  assumes "set_order ord" and "pm_inv cfg n pm"
  shows "acts (life_of unlocked (cm_processors (pm_cm pm))) (shutdown_acts ord pm) = Inr no_life"
proof -
  let ?pm = "onControlMessage \<lparr>msg_type = CLOSE_ALL, msg_id = 0\<rparr> pm"
  have "finite (dom (cm_processors (pm_cm ?pm)))"
    using pm_inv_finite [OF pm_inv_onControlMessage [OF assms(2)]] .
  moreover have "cm_processors (pm_cm (PM_dropAll ?pm)) = Map.empty"
    by (simp add: PM_dropAll_def CM_dropAll_def)
  ultimately have "acts (life_of unlocked (cm_processors (pm_cm ?pm))) (PM_dropAll_acts ord ?pm) = Inr no_life"
    using PM_dropAll_life [OF assms(1)] by (simp add: life_of_empty)
  then show ?thesis
    by (simp add: shutdown_acts_def ProxyManager_destroy_def Let_def onControlMessage_life [OF assms(1) pm_inv_finite [OF assms(2)]])
qed

lemma set_order_sorted: "set_order (\<lambda>m. sorted_list_of_set (dom m))"
  by (simp add: set_order_def)

subsection \<open>Properties\<close>



text \<open>
  Nothing leaks: after every such run, the end of \<open>main\<close> (the last CLOSE_ALL and the destructor of
  the proxy manager) destroys every connection object once, frees every bufferevent and DNS base once,
  and leaves no object alive and no mutex held.
\<close>

theorem shutdown_frees_everything:
  assumes "set_order ord"
    and "admissible_run (sys_adm J indet) (sys_step J cfg indet) (sys_start queue) es"
  shows "\<exists>s' l'. run_steps (mem_step J cfg ord indet) (mem_start queue) es = Inr (s', l') \<and>
    acts l' (shutdown_acts ord (sy_pm s')) = Inr no_life"
proof -
  obtain s' where "run_steps (mem_step J cfg ord indet) (mem_start queue) es =
      Inr (s', life_of unlocked (live s'))" "sys_inv cfg s'"
    using mem_run [OF assms] by blast
  with shutdown_life [OF assms(1)] show ?thesis by (auto simp: sys_inv_def live_def)
qed

theorem shutdown_frees_everything_witness:
  "\<exists>s' l'. run_steps (mem_step example_json example_config (\<lambda>m. sorted_list_of_set (dom m)) no_message)
       (mem_start ''proxyCtl'') namesake_left = Inr (s', l') \<and>
     acts l' (shutdown_acts (\<lambda>m. sorted_list_of_set (dom m)) (sy_pm s')) = Inr no_life"
  by (rule shutdown_frees_everything [OF set_order_sorted namesake_left_adm [unfolded system_start_def]])

end
