(* ===== verification/Process.thy ===== *)
theory Process
  imports Lifetimes
begin

section \<open>The process: start, event loop, signals and exit\<close>

text \<open>
  \<open>main.cpp\<close> as a state machine of the whole process. A phase is a point of \<open>main\<close> between two
  statements that matter to a signal; \<open>Next\<close> runs \<open>main\<close> to the next phase, a \<open>Signal\<close> for which \<open>main\<close>
  has installed a handler may come in every phase, and while the event loop runs, the events
  of the wired program (\<open>mem_step\<close>) and errors of the listener do. libevent documents that
  \<open>event_base_loopbreak\<close> only stops a loop that is running and has no effect otherwise; a loop that was
  told to stop ends after the callback that runs.
\<close>

datatype main_phase =
    Before_base
  | Setting_up
  | Wired
  | Past_test
  | In_loop bool
  | After_loop
  | Base_freed
  | Exited int

record process =
  pr_phase :: main_phase
  pr_run :: bool
  pr_prog :: "(main_state \<times> sys \<times> life) option"
  pr_calls :: "shutdown_call list"

text \<open>The signals \<open>main\<close> installs a handler for, and the handler of each.\<close>

datatype signal = SIGINT | SIGQUIT | SIGABRT | SIGTERM | SIGPIPE

datatype signal_function = Fun_sig_handler | Fun_sig_pipe

fun installed :: "signal \<Rightarrow> signal_function" where
  "installed SIGINT = Fun_sig_handler"
| "installed SIGQUIT = Fun_sig_handler"
| "installed SIGABRT = Fun_sig_handler"
| "installed SIGTERM = Fun_sig_handler"
| "installed SIGPIPE = Fun_sig_pipe"

datatype proc_event = Next | Signal signal | Accept_error | Loop_event sys_event

datatype proc_fault = Run_fault run_fault | Setup_fault fault | Freed_base

definition new_process :: process where
  "new_process = \<lparr>pr_phase = Before_base, pr_run = True, pr_prog = None, pr_calls = []\<rparr>"

text \<open>The program that \<open>main\<close> has wired, with no client yet.\<close>

definition wired_sys :: "main_state \<Rightarrow> sys" where
  "wired_sys ms = \<lparr>sy_pm = ms_pm ms, sy_cc = ms_channel ms, sy_next = 0\<rparr>"

text \<open>
  \<open>event_base_loopbreak(base)\<close>: the global \<open>base\<close> is null before it is made, and still points to the
  event base after that was freed.
\<close>

definition loopbreak :: "process \<Rightarrow> proc_fault + process" where
  "loopbreak p =
     (case pr_phase p of
        In_loop b \<Rightarrow> Inr (p\<lparr>pr_phase := In_loop True\<rparr>)
      | Base_freed \<Rightarrow> Inl Freed_base
      | _ \<Rightarrow> Inr p)"

definition run_sig_handler :: "process \<Rightarrow> proc_fault + process" where
  "run_sig_handler p =
     (case sig_handler (pr_phase p \<noteq> Before_base) of
        (r, calls) \<Rightarrow>
          (let p' = p\<lparr>pr_run := r\<rparr>
           in if calls = [Base_loopbreak] then loopbreak p' else Inr p'))"

definition sig_pipe :: "process \<Rightarrow> process" where
  "sig_pipe p = p"

definition proc_signal :: "signal \<Rightarrow> process \<Rightarrow> proc_fault + process" where
  "proc_signal sig p =
     (case installed sig of
        Fun_sig_handler \<Rightarrow> run_sig_handler p
      | Fun_sig_pipe \<Rightarrow> Inr (sig_pipe p))"

text \<open>The two statements after the loop, and the destructors of the locals.\<close>

definition close_all_msg :: control_message where
  "close_all_msg = \<lparr>msg_type = CLOSE_ALL, msg_id = 0\<rparr>"

definition proc_shutdown ::
  "((addr \<rightharpoonup> proxy) \<Rightarrow> addr list) \<Rightarrow> process \<Rightarrow> main_state \<times> sys \<times> life \<Rightarrow> proc_fault + process" where
  "proc_shutdown ord p x =
     (case x of (ms, s, l) \<Rightarrow>
        (case acts l (onControlMessage_acts ord close_all_msg (sy_pm s)) of
           Inl f \<Rightarrow> Inl (Run_fault (Memory_fault f))
         | Inr l' \<Rightarrow>
             Inr (p\<lparr>pr_phase := Base_freed,
                    pr_prog := Some (ms, s\<lparr>sy_pm := onControlMessage close_all_msg (sy_pm s)\<rparr>, l'),
                    pr_calls := pr_calls p @ [Drop_all_clients, Close_channel, Free_base]\<rparr>)))"

definition proc_destroy ::
  "((addr \<rightharpoonup> proxy) \<Rightarrow> addr list) \<Rightarrow> process \<Rightarrow> main_state \<times> sys \<times> life \<Rightarrow> proc_fault + process" where
  "proc_destroy ord p x =
     (case x of (ms, s, l) \<Rightarrow>
        (case acts l (ProxyManager_destroy ord (sy_pm s)) of
           Inl f \<Rightarrow> Inl (Run_fault (Memory_fault f))
         | Inr l' \<Rightarrow>
             (case Server_destroy (ms_server ms) of
                Inl f \<Rightarrow> Inl (Setup_fault f)
              | Inr calls \<Rightarrow>
                  Inr (p\<lparr>pr_phase := Exited 0,
                         pr_prog := Some (ms, s\<lparr>sy_pm := PM_dropAll (sy_pm s)\<rparr>, l'),
                         pr_calls := pr_calls p @ [Close_channel, Drop_all_clients] @ map Server_call calls\<rparr>))))"

definition proc_next ::
  "((addr \<rightharpoonup> proxy) \<Rightarrow> addr list) \<Rightarrow> main_env \<Rightarrow> process \<Rightarrow> proc_fault + process" where
  "proc_next ord env p =
     (case pr_phase p of
        Before_base \<Rightarrow> Inr (p\<lparr>pr_phase := (if env_base_ok env then Setting_up else Exited (-1))\<rparr>)
      | Setting_up \<Rightarrow>
          (case main_setup env of
             Inl f \<Rightarrow> Inl (Setup_fault f)
           | Inr (Exit c) \<Rightarrow> Inr (p\<lparr>pr_phase := Exited c\<rparr>)
           | Inr (Ready ms) \<Rightarrow>
               Inr (p\<lparr>pr_phase := Wired, pr_prog := Some (ms, wired_sys ms, no_life)\<rparr>))
      | Wired \<Rightarrow> Inr (p\<lparr>pr_phase := (if pr_run p then Past_test else After_loop)\<rparr>)
      | Past_test \<Rightarrow> Inr (p\<lparr>pr_phase := In_loop False\<rparr>)
      | In_loop b \<Rightarrow> Inr (if b then p\<lparr>pr_phase := After_loop\<rparr> else p)
      | After_loop \<Rightarrow> (case pr_prog p of None \<Rightarrow> Inr p | Some x \<Rightarrow> proc_shutdown ord p x)
      | Base_freed \<Rightarrow> (case pr_prog p of None \<Rightarrow> Inr p | Some x \<Rightarrow> proc_destroy ord p x)
      | Exited c \<Rightarrow> Inr p)"

text \<open>An error of the listener runs the lambda of \<open>main\<close>, which breaks the loop.\<close>

definition proc_accept_error :: "process \<Rightarrow> proc_fault + process" where
  "proc_accept_error p =
     (case pr_prog p of
        None \<Rightarrow> Inr p
      | Some (ms, s, l) \<Rightarrow> if errorCbProxy (ms_server ms) = [Call_onError] then loopbreak p else Inr p)"

definition proc_loop_event ::
  "'v jsoncpp \<Rightarrow> ((addr \<rightharpoonup> proxy) \<Rightarrow> addr list) \<Rightarrow> control_message \<Rightarrow> process \<Rightarrow> sys_event \<Rightarrow>
   proc_fault + process" where
  "proc_loop_event J ord indet p e =
     (case pr_prog p of
        None \<Rightarrow> Inr p
      | Some (ms, sl) \<Rightarrow>
          (case mem_step J (ms_cfg ms) ord indet sl e of
             Inl f \<Rightarrow> Inl (Run_fault f)
           | Inr sl' \<Rightarrow> Inr (p\<lparr>pr_prog := Some (ms, sl')\<rparr>)))"

fun proc_step ::
  "'v jsoncpp \<Rightarrow> ((addr \<rightharpoonup> proxy) \<Rightarrow> addr list) \<Rightarrow> control_message \<Rightarrow> main_env \<Rightarrow> process \<Rightarrow>
   proc_event \<Rightarrow> proc_fault + process" where
  "proc_step J ord indet env p Next = proc_next ord env p"
| "proc_step J ord indet env p (Signal sig) = proc_signal sig p"
| "proc_step J ord indet env p Accept_error = proc_accept_error p"
| "proc_step J ord indet env p (Loop_event e) = proc_loop_event J ord indet p e"

text \<open>
  What may happen when: events of the loop only while it runs, under the promises of \<open>sys_adm\<close>, and
  signals that stop the process in every phase but one (see \<open>signal_ends_the_process\<close>).
\<close>

fun proc_adm :: "'v jsoncpp \<Rightarrow> control_message \<Rightarrow> process \<Rightarrow> proc_event \<Rightarrow> bool" where
  "proc_adm J indet p Next = True"
| "proc_adm J indet p (Signal sig) = (installed sig = Fun_sig_handler \<longrightarrow> pr_phase p \<noteq> Base_freed)"
| "proc_adm J indet p Accept_error = (pr_phase p = In_loop False)"
| "proc_adm J indet p (Loop_event e) =
     (pr_phase p = In_loop False \<and> (case pr_prog p of None \<Rightarrow> False | Some (ms, s, l) \<Rightarrow> sys_adm J indet s e))"

subsection \<open>The invariant\<close>

definition calls_of :: "main_phase \<Rightarrow> shutdown_call list" where
  "calls_of ph =
     (case ph of
        Base_freed \<Rightarrow> [Drop_all_clients, Close_channel, Free_base]
      | Exited c \<Rightarrow> [Drop_all_clients, Close_channel, Free_base, Close_channel, Drop_all_clients,
                     Server_call Listener_free]
      | _ \<Rightarrow> [])"

definition prog_ok ::
  "((addr \<rightharpoonup> proxy) \<Rightarrow> addr list) \<Rightarrow> main_env \<Rightarrow> process \<Rightarrow> main_state \<Rightarrow> sys \<Rightarrow> life \<Rightarrow> bool" where
  "prog_ok ord env p ms s l \<longleftrightarrow>
     main_setup env = Inr (Ready ms) \<and> mem_inv ord (ms_cfg ms) (s, l) \<and>
     pr_phase p \<noteq> Before_base \<and> pr_phase p \<noteq> Setting_up \<and> pr_calls p = calls_of (pr_phase p) \<and>
     (case pr_phase p of
        Base_freed \<Rightarrow> live s = Map.empty
      | Exited c \<Rightarrow> c = 0 \<and> live s = Map.empty
      | _ \<Rightarrow> True)"

definition proc_inv :: "((addr \<rightharpoonup> proxy) \<Rightarrow> addr list) \<Rightarrow> main_env \<Rightarrow> process \<Rightarrow> bool" where
  "proc_inv ord env p \<longleftrightarrow>
     set_order ord \<and> (\<forall>f. main_setup env \<noteq> Inl f) \<and>
     (case pr_prog p of
        None \<Rightarrow> (case pr_phase p of Before_base \<Rightarrow> True | Setting_up \<Rightarrow> True
                  | Exited c \<Rightarrow> c = -1 \<or> c = -3 \<or> c = -4 | _ \<Rightarrow> False) \<and> pr_calls p = []
      | Some (ms, s, l) \<Rightarrow> prog_ok ord env p ms s l)"

lemma main_setup_ready:
  assumes "main_setup env = Inr (Ready ms)"
  shows "ms_pm ms = new_ProxyManager new_ConnectionManager"
    and "Server_destroy (ms_server ms) = Inr [Listener_free]"
    and "errorCbProxy (ms_server ms) = [Call_onError]"
  using assms
  by (auto simp: main_setup_def Server_init_def setOnClientConnect_def setOnError_def
      new_Server_on_def Let_def Server_destroy_def isListening_def errorCbProxy_def
      split: if_splits prod.splits bool.splits option.splits)

lemma main_setup_exit:
  "main_setup env = Inr (Exit c) \<Longrightarrow> c = -1 \<or> c = -3 \<or> c = -4"
  by (auto simp: main_setup_def split: if_splits prod.splits bool.splits option.splits)

lemma wired_mem_inv:
  assumes "set_order ord" and "main_setup env = Inr (Ready ms)"
  shows "mem_inv ord (ms_cfg ms) (wired_sys ms, no_life)"
proof -
  have "live (wired_sys ms) = Map.empty"
    by (simp add: live_def wired_sys_def main_setup_ready [OF assms(2)] new_ProxyManager_def
        new_ConnectionManager_def)
  then show ?thesis
    using assms(1) pm_inv_start
    by (simp add: mem_inv_def life_of_empty sys_inv_def wired_sys_def main_setup_ready [OF assms(2)])
qed

lemma loopbreak_inv:
  "proc_inv ord env p \<Longrightarrow> pr_phase p \<noteq> Base_freed \<Longrightarrow> \<exists>p'. loopbreak p = Inr p' \<and> proc_inv ord env p'"
  by (cases "pr_phase p")
    (auto simp: loopbreak_def proc_inv_def prog_ok_def calls_of_def split: option.splits prod.splits)

lemma signal_inv:
  assumes "proc_inv ord env p" and "installed sig = Fun_sig_handler \<longrightarrow> pr_phase p \<noteq> Base_freed"
  shows "\<exists>p'. proc_signal sig p = Inr p' \<and> proc_inv ord env p'"
proof (cases "installed sig")
  case Fun_sig_pipe
  with assms(1) show ?thesis by (simp add: proc_signal_def sig_pipe_def)
next
  case Fun_sig_handler
  have "proc_inv ord env (p\<lparr>pr_run := False\<rparr>)"
    using assms(1) by (auto simp: proc_inv_def prog_ok_def split: option.splits prod.splits)
  with loopbreak_inv [of ord env "p\<lparr>pr_run := False\<rparr>"] assms(2) Fun_sig_handler show ?thesis
    by (simp add: proc_signal_def run_sig_handler_def sig_handler_def)
qed

text \<open>The two last steps: CLOSE_ALL empties the manager, its destructor finds nothing left.\<close>

lemma close_all_empties [simp]:
  "cm_processors (pm_cm (onControlMessage close_all_msg pm)) = Map.empty"
  "cm_processors (pm_cm (PM_dropAll pm)) = Map.empty"
  by (simp_all add: onControlMessage_def close_all_msg_def CLOSE_def CLOSE_ALL_def PM_dropAll_def CM_dropAll_def)

lemma shutdown_step:
  assumes "proc_inv ord env p" and "pr_prog p = Some (ms, s, l)" and "pr_phase p = After_loop"
  shows "\<exists>p'. proc_shutdown ord p (ms, s, l) = Inr p' \<and> proc_inv ord env p' \<and> pr_phase p' = Base_freed"
proof -
  have i: "set_order ord" "pm_inv (ms_cfg ms) (sy_next s) (sy_pm s)" "l = life_of unlocked (live s)"
    "pr_calls p = []" "main_setup env = Inr (Ready ms)"
    using assms by (auto simp: proc_inv_def prog_ok_def mem_inv_def sys_inv_def calls_of_def)
  have a: "acts l (onControlMessage_acts ord close_all_msg (sy_pm s)) = Inr no_life"
    using onControlMessage_life [OF i(1) pm_inv_finite [OF i(2)], of close_all_msg] i(3)
    by (simp add: live_def life_of_empty)
  have n: "mem_inv ord (ms_cfg ms) (s\<lparr>sy_pm := onControlMessage close_all_msg (sy_pm s)\<rparr>, no_life)"
    using i pm_inv_onControlMessage [OF i(2)] by (simp add: mem_inv_def sys_inv_def live_def life_of_empty)
  show ?thesis
    using assms i a n by (simp add: proc_shutdown_def proc_inv_def prog_ok_def calls_of_def live_def)
qed

lemma destroy_step:
  assumes "proc_inv ord env p" and "pr_prog p = Some (ms, s, l)" and "pr_phase p = Base_freed"
  shows "\<exists>p'. proc_destroy ord p (ms, s, l) = Inr p' \<and> proc_inv ord env p' \<and> pr_phase p' = Exited 0"
proof -
  have i: "set_order ord" "pm_inv (ms_cfg ms) (sy_next s) (sy_pm s)" "l = life_of unlocked (live s)"
    "live s = Map.empty" "pr_calls p = [Drop_all_clients, Close_channel, Free_base]"
    "main_setup env = Inr (Ready ms)"
    using assms by (auto simp: proc_inv_def prog_ok_def mem_inv_def sys_inv_def calls_of_def)
  have a: "acts l (ProxyManager_destroy ord (sy_pm s)) = Inr no_life"
    using PM_dropAll_life [OF i(1) pm_inv_finite [OF i(2)]] i(3)
    by (simp add: live_def life_of_empty ProxyManager_destroy_def)
  have n: "mem_inv ord (ms_cfg ms) (s\<lparr>sy_pm := PM_dropAll (sy_pm s)\<rparr>, no_life)"
    using i pm_inv_dropAll by (simp add: mem_inv_def sys_inv_def live_def life_of_empty)
  show ?thesis
    using assms i a n main_setup_ready(2) [OF i(6)]
    by (simp add: proc_destroy_def proc_inv_def prog_ok_def calls_of_def live_def)
qed

lemma setup_step:
  assumes "proc_inv ord env p" and "pr_phase p = Setting_up"
  shows "\<exists>p'. proc_next ord env p = Inr p' \<and> proc_inv ord env p'"
proof -
  have i: "set_order ord" "\<forall>f. main_setup env \<noteq> Inl f" "pr_prog p = None" "pr_calls p = []"
    using assms by (auto simp: proc_inv_def prog_ok_def split: option.splits)
  show ?thesis
  proof (cases "main_setup env")
    case (Inl f)
    with i show ?thesis by simp
  next
    case (Inr r)
    show ?thesis
    proof (cases r)
      case (Exit c)
      with Inr i assms(2) main_setup_exit [of env c] show ?thesis
        by (simp add: proc_next_def proc_inv_def)
    next
      case (Ready ms)
      with Inr i assms(2) wired_mem_inv [OF i(1), of env ms] show ?thesis
        by (simp add: proc_next_def proc_inv_def prog_ok_def calls_of_def)
    qed
  qed
qed

lemma next_inv:
  assumes "proc_inv ord env p"
  shows "\<exists>p'. proc_next ord env p = Inr p' \<and> proc_inv ord env p'"
proof (cases "pr_phase p")
  case Before_base
  with assms show ?thesis
    by (auto simp: proc_next_def proc_inv_def prog_ok_def split: option.splits)
next
  case Setting_up
  with assms setup_step show ?thesis by blast
next
  case Wired
  with assms show ?thesis
    by (auto simp: proc_next_def proc_inv_def prog_ok_def calls_of_def split: option.splits prod.splits)
next
  case Past_test
  with assms show ?thesis
    by (auto simp: proc_next_def proc_inv_def prog_ok_def calls_of_def split: option.splits prod.splits)
next
  case (In_loop b)
  with assms show ?thesis
    by (auto simp: proc_next_def proc_inv_def prog_ok_def calls_of_def split: option.splits prod.splits)
next
  case After_loop
  then obtain ms s l where "pr_prog p = Some (ms, s, l)"
    using assms by (auto simp: proc_inv_def split: option.splits)
  with After_loop shutdown_step [OF assms] show ?thesis by (auto simp: proc_next_def)
next
  case Base_freed
  then obtain ms s l where "pr_prog p = Some (ms, s, l)"
    using assms by (auto simp: proc_inv_def split: option.splits)
  with Base_freed destroy_step [OF assms] show ?thesis by (auto simp: proc_next_def)
next
  case (Exited c)
  with assms show ?thesis by (simp add: proc_next_def)
qed

lemma loop_event_inv:
  assumes "proc_inv ord env p" and "proc_adm J indet p (Loop_event e)"
  shows "\<exists>p'. proc_loop_event J ord indet p e = Inr p' \<and> proc_inv ord env p'"
proof -
  obtain ms s l where p: "pr_prog p = Some (ms, s, l)" "pr_phase p = In_loop False" "sys_adm J indet s e"
    using assms(2) by (auto split: option.splits)
  then have "mem_inv ord (ms_cfg ms) (s, l)" using assms(1) by (simp add: proc_inv_def prog_ok_def)
  from mem_step_safe [OF this, of J indet e] p obtain s' l' where
    "mem_step J (ms_cfg ms) ord indet (s, l) e = Inr (s', l')" "mem_inv ord (ms_cfg ms) (s', l')"
    by auto
  with p assms(1) show ?thesis
    by (simp add: proc_loop_event_def proc_inv_def prog_ok_def)
qed

lemma accept_error_inv:
  assumes "proc_inv ord env p" and "pr_phase p = In_loop False"
  shows "\<exists>p'. proc_accept_error p = Inr p' \<and> proc_inv ord env p' \<and> pr_phase p' = In_loop True"
proof -
  obtain ms s l where p: "pr_prog p = Some (ms, s, l)" "main_setup env = Inr (Ready ms)"
    using assms by (auto simp: proc_inv_def prog_ok_def split: option.splits)
  from loopbreak_inv [OF assms(1)] assms(2) show ?thesis
    by (auto simp: proc_accept_error_def p main_setup_ready(3) [OF p(2)] loopbreak_def)
qed

lemma proc_step_safe:
  "proc_inv ord env p \<Longrightarrow> proc_adm J indet p e \<Longrightarrow>
   \<exists>p'. proc_step J ord indet env p e = Inr p' \<and> proc_inv ord env p'"
  using next_inv signal_inv accept_error_inv loop_event_inv by (cases e) (fastforce simp del: proc_adm.simps(4))+

interpretation pr: guarded_machine "proc_step J ord indet env" "proc_adm J indet" "proc_inv ord env"
  for J ord indet env
  by unfold_locales (rule proc_step_safe)

lemma proc_inv_start: "set_order ord \<Longrightarrow> \<forall>f. main_setup env \<noteq> Inl f \<Longrightarrow> proc_inv ord env new_process"
  by (simp add: proc_inv_def new_process_def)

subsection \<open>A process that was told to stop\<close>

definition stopping :: "process \<Rightarrow> bool" where
  "stopping p \<longleftrightarrow> \<not> pr_run p \<and> pr_phase p \<noteq> Past_test \<and> pr_phase p \<noteq> In_loop False"

fun phases_left :: "main_phase \<Rightarrow> nat" where
  "phases_left Before_base = 5"
| "phases_left Setting_up = 4"
| "phases_left Wired = 3"
| "phases_left Past_test = 4"
| "phases_left (In_loop b) = 3"
| "phases_left After_loop = 2"
| "phases_left Base_freed = 1"
| "phases_left (Exited c) = 0"

lemma phases_left_0: "phases_left ph = 0 \<longleftrightarrow> (\<exists>c. ph = Exited c)"
  by (cases ph) auto

lemma stopping_next:
  assumes "proc_inv ord env p" and "stopping p" and "proc_next ord env p = Inr p'"
  shows "stopping p' \<and> phases_left (pr_phase p') \<le> phases_left (pr_phase p) - 1"
proof (cases "pr_phase p = After_loop \<or> pr_phase p = Base_freed")
  case True
  then obtain ms s l where "pr_prog p = Some (ms, s, l)"
    using assms(1) by (auto simp: proc_inv_def split: option.splits)
  with True assms(2,3) show ?thesis
    by (auto simp: proc_next_def proc_shutdown_def proc_destroy_def stopping_def split: sum.splits)
next
  case False
  with assms(2,3) show ?thesis
    by (cases "pr_phase p")
      (auto simp: proc_next_def stopping_def split: sum.splits main_result.splits if_splits)
qed

lemma signal_result:
  assumes "proc_signal sig p = Inr p'" and "installed sig = Fun_sig_handler"
  shows "\<not> pr_run p'" and "phases_left (pr_phase p') = phases_left (pr_phase p)"
    and "pr_phase p' = (case pr_phase p of In_loop b \<Rightarrow> In_loop True | ph \<Rightarrow> ph)"
  using assms by (cases "pr_phase p"; force simp: proc_signal_def run_sig_handler_def sig_handler_def loopbreak_def)+

lemma stopping_step:
  assumes "proc_inv ord env p" and "stopping p" and "proc_adm J indet p e"
    and "proc_step J ord indet env p e = Inr p'"
  shows "stopping p' \<and> phases_left (pr_phase p') \<le> phases_left (pr_phase p) - (if e = Next then 1 else 0)"
proof (cases e)
  case Next
  with stopping_next [OF assms(1,2)] assms(4) show ?thesis by simp
next
  case (Signal sig)
  then have st: "proc_signal sig p = Inr p'" using assms(4) by simp
  show ?thesis
  proof (cases "installed sig")
    case Fun_sig_handler
    from signal_result [OF st this] Signal assms(2) show ?thesis
      by (auto simp: stopping_def split: main_phase.splits)
  next
    case Fun_sig_pipe
    with st Signal assms(2) show ?thesis by (simp add: proc_signal_def sig_pipe_def)
  qed
qed (use assms(2,3) in \<open>auto simp: stopping_def\<close>)

lemma stopping_run:
  assumes "proc_inv ord env p" and "stopping p" and "admissible_run (proc_adm J indet) (proc_step J ord indet env) p es"
    and "phases_left (pr_phase p) \<le> count_list es Next"
  shows "\<exists>q c. run_steps (proc_step J ord indet env) p es = Inr q \<and> pr_phase q = Exited c \<and> proc_inv ord env q"
  using assms
proof (induction es arbitrary: p)
  case Nil
  then show ?case by (simp add: phases_left_0)
next
  case (Cons e es)
  then obtain p' where p': "proc_step J ord indet env p e = Inr p'" "proc_inv ord env p'"
    using pr.step_safe by fastforce
  have "stopping p' \<and> phases_left (pr_phase p') \<le> phases_left (pr_phase p) - (if e = Next then 1 else 0)"
    using stopping_step [OF Cons.prems(1,2) _ p'(1)] Cons.prems(3) by simp
  moreover have "admissible_run (proc_adm J indet) (proc_step J ord indet env) p' es"
    using Cons.prems(3) p'(1) by simp
  ultimately show ?case
    using Cons.IH [OF p'(2)] Cons.prems(4) p'(1) by (auto split: if_splits)
qed

subsection \<open>Properties\<close>

lemma process_run:
  assumes "set_order ord" and "\<forall>f. main_setup env \<noteq> Inl f"
    and "admissible_run (proc_adm J indet) (proc_step J ord indet env) new_process es"
  shows "\<exists>p. run_steps (proc_step J ord indet env) new_process es = Inr p \<and> proc_inv ord env p"
  using pr.run_safe [OF proc_inv_start [OF assms(1,2)] assms(3)] .


text \<open>A process that starts, accepts a client, is told to stop by a signal, and ends.\<close>

definition example_life :: "proc_event list" where
  "example_life =
     [Next, Next, Next, Next, Loop_event (Accept [] ''c0'' 1), Signal SIGPIPE, Signal SIGTERM, Next, Next, Next]"

definition key_order :: "(addr \<rightharpoonup> proxy) \<Rightarrow> addr list" where
  "key_order m = sorted_list_of_set (dom m)"

lemma key_order_ok: "set_order key_order"
  by (simp add: set_order_def key_order_def)

lemma example_env_setup:
  obtains ms where "main_setup example_env = Inr (Ready ms)"
  using example_env_ready by (auto simp: ready_state_iff)

lemma example_env_no_fault: "\<forall>f. main_setup example_env \<noteq> Inl f"
  using example_env_setup by (metis sum.distinct(1))

lemma example_env_base: "env_base_ok example_env"
  by (simp add: example_env_def)

lemmas process_sims =
  example_env_base new_process_def proc_next_def proc_signal_def run_sig_handler_def sig_pipe_def sig_handler_def
  loopbreak_def

lemma example_upto_loop:
  assumes "main_setup example_env = Inr (Ready ms)"
  shows "run_steps (proc_step J ord indet example_env) new_process [Next, Next, Next, Next] =
    Inr \<lparr>pr_phase = In_loop False, pr_run = True, pr_prog = Some (ms, wired_sys ms, no_life), pr_calls = []\<rparr>"
    and "admissible_run (proc_adm J indet) (proc_step J ord indet example_env) new_process [Next, Next, Next, Next]"
  using assms by (simp_all add: process_sims)

lemma example_life_adm:
  "admissible_run (proc_adm example_json no_message)
     (proc_step example_json key_order no_message example_env) new_process example_life"
proof -
  obtain ms where ms: "main_setup example_env = Inr (Ready ms)" by (rule example_env_setup)
  let ?e = "Accept [] ''c0'' 1"
  obtain sl where "mem_step example_json (ms_cfg ms) key_order no_message (wired_sys ms, no_life) ?e = Inr sl"
    using mem_step_safe [OF wired_mem_inv [OF key_order_ok ms], of example_json no_message ?e] by auto
  with ms show ?thesis
    by (simp add: example_life_def process_sims proc_loop_event_def split: sum.split)
qed


lemma idle_loop:
  "pr_phase p = In_loop False \<Longrightarrow> run_steps (proc_step J ord indet env) p (replicate n Next) = Inr p"
  by (induction n) (simp_all add: proc_next_def)

text \<open>
  C31. SIGINT, SIGQUIT, SIGABRT and SIGTERM end the process, with two exceptions. In every phase but two, once one of them has come the
  process exits after at most five more phases of \<open>main\<close>, whatever else happens in between. But a signal
  between the test of \<open>run\<close> and the start of the event loop is lost: the loop starts as if nothing had
  happened and does not end by itself. And a signal after \<open>event_base_free\<close> makes the handler use the
  event base that was freed, since \<open>base\<close> still points to it. SIGPIPE, which a write to a closed connection
  raises, changes nothing in any phase.
\<close>

theorem signal_ends_the_process:
  assumes "set_order ord" and "\<forall>f. main_setup env \<noteq> Inl f"
    and "admissible_run (proc_adm J indet) (proc_step J ord indet env) new_process es"
    and "run_steps (proc_step J ord indet env) new_process es = Inr p"
  shows "if sig = SIGPIPE then proc_step J ord indet env p (Signal sig) = Inr p
    else if pr_phase p = Past_test then
      (\<exists>q. pr_phase q = In_loop False \<and>
        (\<forall>n. run_steps (proc_step J ord indet env) p (Signal sig # Next # replicate n Next) = Inr q))
    else if pr_phase p = Base_freed then proc_step J ord indet env p (Signal sig) = Inl Freed_base
    else \<forall>es'. admissible_run (proc_adm J indet) (proc_step J ord indet env) p (Signal sig # es') \<and>
        5 \<le> count_list es' Next \<longrightarrow>
      (\<exists>q c. run_steps (proc_step J ord indet env) p (Signal sig # es') = Inr q \<and> pr_phase q = Exited c)"
proof -
  have i: "proc_inv ord env p" using process_run [OF assms(1-3)] assms(4) by auto
  have h: "sig \<noteq> SIGPIPE \<Longrightarrow> installed sig = Fun_sig_handler" by (cases sig) simp_all
  consider "sig = SIGPIPE" | "sig \<noteq> SIGPIPE" "pr_phase p = Past_test" | "sig \<noteq> SIGPIPE" "pr_phase p = Base_freed"
    | "sig \<noteq> SIGPIPE" "pr_phase p \<noteq> Past_test" "pr_phase p \<noteq> Base_freed" by blast
  then show ?thesis
  proof cases
    case 1
    then show ?thesis by (simp add: process_sims)
  next
    case 2
    then show ?thesis by (auto simp: process_sims idle_loop h)
  next
    case 3
    then show ?thesis by (simp add: process_sims h)
  next
    case 4
    obtain p' where p': "proc_signal sig p = Inr p'" "proc_inv ord env p'" using signal_inv [OF i] 4(3) by blast
    have st: "stopping p'" "phases_left (pr_phase p') \<le> 5"
      using signal_result [OF p'(1) h [OF 4(1)]] 4(2) by (cases "pr_phase p"; simp add: stopping_def)+
    have "\<exists>q c. run_steps (proc_step J ord indet env) p' es' = Inr q \<and> pr_phase q = Exited c"
      if "admissible_run (proc_adm J indet) (proc_step J ord indet env) p' es'" "5 \<le> count_list es' Next" for es'
      using stopping_run [OF p'(2) st(1) that(1)] st(2) that(2) by auto
    with 4 p'(1) h show ?thesis by auto
  qed
qed

theorem signal_ends_the_process_witness:
  "\<exists>q. pr_phase q = In_loop False \<and>
    (\<forall>n. run_steps (proc_step example_json key_order no_message example_env) new_process
       ([Next, Next, Next] @ Signal SIGINT # Next # replicate n Next) = Inr q)"
proof -
  obtain ms where ms: "main_setup example_env = Inr (Ready ms)" by (rule example_env_setup)
  let ?st = "proc_step example_json key_order no_message example_env"
  let ?p = "\<lparr>pr_phase = Past_test, pr_run = True, pr_prog = Some (ms, wired_sys ms, no_life), pr_calls = []\<rparr>"
  have r: "run_steps ?st new_process [Next, Next, Next] = Inr ?p"
    and a: "admissible_run (proc_adm example_json no_message) ?st new_process [Next, Next, Next]"
    using ms by (simp_all add: process_sims)
  have "pr_phase ?p = Past_test" by simp
  with signal_ends_the_process [OF key_order_ok example_env_no_fault a r, of SIGINT] show ?thesis
    by (simp only: if_True if_False signal.distinct run_steps_append r sum.case)
qed

end
