(* ===== verification/Delivery.thy ===== *)
theory Delivery
  imports Proxy_Props "HOL-Library.Sublist"
begin

section \<open>Delivery: what reaches the sockets\<close>

text \<open>
  \<open>proxy.cpp\<close> queues bytes in the output buffers of two bufferevents, and libevent writes them to the
  sockets when these accept data. Here a proxy is run together with its two sockets: how many of the
  queued bytes have been written to each. Closing frees a bufferevent, and libevent documents that
  data which is still to be written is then discarded; so after a close nothing more is written.
\<close>

record wire =
  wi_proxy :: proxy
  wi_client :: nat
  wi_server :: nat

datatype wire_event =
    Wire proxy_input
  | Flush_client nat
  | Flush_server nat

definition new_wire :: "byte list \<Rightarrow> string \<Rightarrow> u16 \<Rightarrow> wire" where
  "new_wire junk ip prt = \<lparr>wi_proxy = managed_Proxy junk ip prt, wi_client = 0, wi_server = 0\<rparr>"

fun wire_step :: "config \<Rightarrow> wire \<Rightarrow> wire_event \<Rightarrow> fault + wire" where
  "wire_step cfg w (Wire x) =
     map_sum (\<lambda>f. f) (\<lambda>p. w\<lparr>wi_proxy := p\<rparr>) (px_next cfg (wi_proxy w) x)"
| "wire_step cfg w (Flush_client n) =
     Inr (w\<lparr>wi_client := min (length (cp_output (wi_proxy w))) (wi_client w + n)\<rparr>)"
| "wire_step cfg w (Flush_server n) =
     Inr (w\<lparr>wi_server := min (length (to_server (wi_proxy w))) (wi_server w + n)\<rparr>)"

text \<open>libevent writes for a bufferevent that has not been freed, and to a server once it is connected.\<close>

fun wire_adm :: "wire \<Rightarrow> wire_event \<Rightarrow> bool" where
  "wire_adm w (Wire x) = px_adm (wi_proxy w) x"
| "wire_adm w (Flush_client n) = cp_bev (wi_proxy w)"
| "wire_adm w (Flush_server n) =
     (cp_bev (wi_proxy w) \<and>
      (case px_fwd (wi_proxy w) of None \<Rightarrow> False | Some f \<Rightarrow> cp_bev f \<and> \<not> cp_connecting f))"

definition client_received :: "wire \<Rightarrow> byte list" where
  "client_received w = take (wi_client w) (cp_output (wi_proxy w))"

definition server_received :: "wire \<Rightarrow> byte list" where
  "server_received w = take (wi_server w) (to_server (wi_proxy w))"

fun inputs :: "wire_event list \<Rightarrow> proxy_input list" where
  "inputs [] = []"
| "inputs (Wire x # es) = x # inputs es"
| "inputs (_ # es) = inputs es"

definition wire_inv :: "config \<Rightarrow> wire \<Rightarrow> bool" where
  "wire_inv cfg w \<longleftrightarrow>
     px_inv cfg (wi_proxy w) \<and> wi_client w \<le> length (cp_output (wi_proxy w)) \<and>
     wi_server w \<le> length (to_server (wi_proxy w))"

subsection \<open>Output only grows\<close>

lemma sendData_grows:
  "libevent_laws L \<Longrightarrow> sendData L data cp = Inr (ok, cp', left) \<Longrightarrow> prefix (cp_output cp) (cp_output cp')"
  using sendData_conserves [of L data cp ok cp' left] by (auto simp: sendData_def prefix_def split: if_splits prod.splits)

text \<open>What an operation of the proxy leaves of the two outputs: both are extended.\<close>

definition grown :: "proxy \<Rightarrow> proxy \<Rightarrow> bool" where
  "grown p p' \<longleftrightarrow> prefix (cp_output p) (cp_output p') \<and> prefix (to_server p) (to_server p')"

lemma grown_refl: "cp_output p' = cp_output p \<Longrightarrow> to_server p' = to_server p \<Longrightarrow> grown p p'"
  by (simp add: grown_def)

lemma to_server_simps [simp]:
  "to_server (p\<lparr>cp_input := i\<rparr>) = to_server p" "to_server (p\<lparr>cp_bev := b\<rparr>) = to_server p"
  "to_server (p\<lparr>px_state := st\<rparr>) = to_server p" "to_server (p\<lparr>px_lastInput := l\<rparr>) = to_server p"
  "to_server (p\<lparr>px_data := d\<rparr>) = to_server p" "to_server (p\<lparr>px_id := n\<rparr>) = to_server p"
  "to_server (p\<lparr>cp_output := out\<rparr>) = to_server p" "to_server (p\<lparr>cp_connecting := c\<rparr>) = to_server p"
  "to_server (p\<lparr>px_fwd := Some f\<rparr>) = cp_output f"
  by (simp_all add: to_server_def)

lemma close_grown: "grown p (fst (Proxy_close p))"
  by (simp add: Proxy_close_def ConnectionProcessor_close_def grown_def)

lemma dataRecieved_grown:
  assumes L: "libevent_laws L" and b: "px_state p = BEGIN \<Longrightarrow> px_fwd p = None"
    and st: "Proxy_dataRecieved L cfg indet ptr p = Inr (p', effs)"
  shows "grown p p'"
proof (cases "px_state p")
  case BEGIN
  with b have "to_server p = []" by (simp add: to_server_def)
  moreover have "cp_output p' = cp_output p"
    using BEGIN st
    by (auto simp: Proxy_dataRecieved_def parse_first_message_def Proxy_close_def ConnectionProcessor_close_def
        Let_def split: if_splits prod.splits option.splits)
  ultimately show ?thesis by (simp add: grown_def)
next
  case CONNECTING
  with st show ?thesis by (simp add: Proxy_dataRecieved_def grown_refl)
next
  case FWD
  then obtain f ok f' left where f: "px_fwd p = Some f" "sendData L (cp_input p) f = Inr (ok, f', left)"
      "p' = p\<lparr>px_fwd := Some f', cp_input := left\<rparr>"
    using st by (auto simp: Proxy_dataRecieved_def split: option.splits if_splits sum.splits)
  with sendData_grows [OF L f(2)] show ?thesis by (simp add: grown_def to_server_def)
qed

lemma onConnected_grown:
  assumes "libevent_laws L" and "onConnected L cfg indet r p = Inr (p', effs)"
  shows "grown p p'"
proof (cases r)
  case False
  with assms(2) show ?thesis by (simp add: onConnected_def grown_refl)
next
  case True
  then obtain q where q: "Proxy_dataRecieved L cfg indet (px_lastInput p) (p\<lparr>px_state := FWD\<rparr>) = Inr (q, effs)"
      "p' = q\<lparr>px_lastInput := Null_input\<rparr>"
    using assms(2) by (auto simp: onConnected_def split: sum.splits)
  have "grown (p\<lparr>px_state := FWD\<rparr>) q" using dataRecieved_grown [OF assms(1) _ q(1)] by simp
  with q(2) show ?thesis by (simp add: grown_def)
qed

lemma px_step_grown:
  assumes L: "libevent_laws L" and b: "px_state p = BEGIN \<Longrightarrow> px_fwd p = None"
    and st: "px_step cfg p (L, indet, e) = Inr (p', effs)"
  shows "grown p p'"
proof (cases e)
  case (Client_data bs)
  with dataRecieved_grown [OF L, of "p\<lparr>cp_input := cp_input p @ bs\<rparr>" cfg indet Own_input p' effs] b st
  show ?thesis by (simp add: grown_def)
next
  case (Client_event ev)
  with st show ?thesis
    by (auto simp: onEvent_def ConnectionProcessor_close_def grown_def split: if_splits)
next
  case (Server_data bs)
  then obtain f f' q where f: "px_fwd p = Some f" "p' = q\<lparr>px_fwd := Some f'\<rparr>"
      "Forwarder_dataRecieved L (f\<lparr>cp_input := cp_input f @ bs\<rparr>) p = Inr (f', q)"
    using st by (auto split: option.splits sum.splits)
  then obtain ok left where "sendData L (cp_input f @ bs) p = Inr (ok, q, left)" "cp_output f' = cp_output f"
    by (auto simp: Forwarder_dataRecieved_def split: if_splits sum.splits)
  with sendData_grows [OF L] f show ?thesis by (auto simp: grown_def to_server_def)
next
  case (Server_event ev)
  then obtain f where f: "px_fwd p = Some f" using st by (auto split: option.splits)
  obtain f' c where o: "onEvent ev f = Inr (f', c)" "cp_output f' = cp_output f"
    using st Server_event f
    by (auto simp: onEvent_def ConnectionProcessor_close_def Let_def split: if_splits)
  have g: "grown p p'" if "grown (p\<lparr>px_fwd := Some f'\<rparr>) p'"
    using that o f by (simp add: grown_def to_server_def)
  show ?thesis
  proof (cases c)
    case (Call_connect r)
    with st Server_event f o onConnected_grown [OF L] show ?thesis by (intro g) simp
  next
    case Call_close
    with st Server_event f o have "p' = fst (Proxy_close (p\<lparr>px_fwd := Some f'\<rparr>))"
      by (auto simp: onFwdClose_def)
    with close_grown show ?thesis by (intro g) simp
  next
    case No_call
    with st Server_event f o show ?thesis by (intro g) (simp add: grown_def)
  qed
qed

subsection \<open>Nothing is held back\<close>

text \<open>While the event buffers accept data, a proxy that forwards has nothing left in its input buffers.\<close>

definition accepts :: "libevent \<Rightarrow> bool" where
  "accepts L \<longleftrightarrow> (\<forall>d s. evbuffer_add_buffer L d s = (0, d @ s, []))"

definition drained :: "proxy \<Rightarrow> bool" where
  "drained p \<longleftrightarrow> (cp_bev p \<longrightarrow> from_server p = [] \<and> (px_state p = FWD \<longrightarrow> cp_input p = []))"

lemma sendData_accepts:
  "accepts L \<Longrightarrow> sendData L data cp = Inr (ok, cp', left) \<Longrightarrow> left = [] \<and> cp_input cp' = cp_input cp"
  by (auto simp: sendData_def accepts_def split: if_splits prod.splits)

lemma close_drained: "drained (fst (Proxy_close p))"
  by (simp add: Proxy_close_def ConnectionProcessor_close_def drained_def)

lemma dataRecieved_drained:
  assumes L: "accepts L" and b: "px_state p = BEGIN \<Longrightarrow> px_fwd p = None" and f: "from_server p = []"
    and st: "Proxy_dataRecieved L cfg indet ptr p = Inr (p', effs)"
  shows "drained p'"
proof (cases "px_state p")
  case BEGIN
  with b have "px_fwd p = None" by simp
  with BEGIN st show ?thesis
    by (auto simp: px_defs Let_def drained_def from_server_def split: if_splits option.splits prod.splits)
next
  case CONNECTING
  with st f show ?thesis by (auto simp: Proxy_dataRecieved_def drained_def)
next
  case FWD
  then obtain fw f' left ok where "px_fwd p = Some fw" "sendData L (cp_input p) fw = Inr (ok, f', left)"
      "p' = p\<lparr>px_fwd := Some f', cp_input := left\<rparr>"
    using st by (auto simp: Proxy_dataRecieved_def split: option.splits if_splits sum.splits)
  moreover from sendData_accepts [OF L this(2)] have "cp_input f' = cp_input fw" "left = []" by simp_all
  ultimately show ?thesis using f by (simp add: drained_def from_server_def)
qed

lemma server_event_drained:
  assumes d: "drained p" and L: "accepts L" and b: "px_state p = BEGIN \<Longrightarrow> px_fwd p = None"
    and f: "from_server p = []" and st: "px_step cfg p (L, indet, Server_event ev) = Inr (p', effs)"
  shows "drained p'"
proof -
  obtain fw where fw: "px_fwd p = Some fw" using st by (auto split: option.splits)
  obtain f' c where o: "onEvent ev fw = Inr (f', c)" "cp_input f' = cp_input fw"
    using st fw by (auto simp: onEvent_def ConnectionProcessor_close_def Let_def split: if_splits)
  let ?p = "p\<lparr>px_fwd := Some f'\<rparr>"
  have d': "drained ?p" "from_server ?p = []" using d f fw o(2) by (simp_all add: drained_def from_server_def)
  show ?thesis
  proof (cases c)
    case (Call_connect r)
    with st fw o have oc: "onConnected L cfg indet r ?p = Inr (p', effs)" by simp
    show ?thesis
    proof (cases r)
      case True
      let ?p1 = "?p\<lparr>px_state := FWD\<rparr>"
      obtain q where q: "Proxy_dataRecieved L cfg indet (px_lastInput ?p1) ?p1 = Inr (q, effs)"
          "p' = q\<lparr>px_lastInput := Null_input\<rparr>"
        using oc True by (auto simp: onConnected_def split: sum.splits)
      have "from_server ?p1 = []" using d'(2) by (simp add: from_server_def)
      with dataRecieved_drained [OF L _ this q(1)] q(2) show ?thesis by (simp add: drained_def from_server_def)
    next
      case False
      with oc d'(1) show ?thesis by (simp add: onConnected_def)
    qed
  next
    case Call_close
    with st fw o have "p' = fst (Proxy_close ?p)" by (auto simp: onFwdClose_def)
    with close_drained show ?thesis by simp
  next
    case No_call
    with st fw o d'(1) show ?thesis by simp
  qed
qed

lemma px_step_drained:
  assumes inv: "px_inv cfg p" and d: "drained p" and L: "accepts L"
    and adm: "px_adm p (L, indet, e)" and st: "px_step cfg p (L, indet, e) = Inr (p', effs)"
  shows "drained p'"
proof -
  have alive: "cp_bev p" using adm by (cases e) (auto simp: px_adm_def)
  have f: "from_server p = []" and b: "px_state p = BEGIN \<Longrightarrow> px_fwd p = None"
    using d inv alive by (auto simp: drained_def px_inv_def)
  show ?thesis
  proof (cases e)
    case (Client_data bs)
    have "from_server (p\<lparr>cp_input := cp_input p @ bs\<rparr>) = []" using f by (simp add: from_server_def)
    with dataRecieved_drained [OF L _ this, of cfg indet Own_input p' effs] b st Client_data show ?thesis by simp
  next
    case (Client_event ev)
    with st d show ?thesis
      by (auto simp: onEvent_def ConnectionProcessor_close_def drained_def from_server_def split: if_splits)
  next
    case (Server_data bs)
    then obtain fw f' q where q: "px_fwd p = Some fw" "p' = q\<lparr>px_fwd := Some f'\<rparr>"
        "Forwarder_dataRecieved L (fw\<lparr>cp_input := cp_input fw @ bs\<rparr>) p = Inr (f', q)"
      using st by (auto split: option.splits sum.splits)
    then obtain ok left where s: "sendData L (cp_input fw @ bs) p = Inr (ok, q, left)" "cp_input f' = left"
      by (auto simp: Forwarder_dataRecieved_def split: if_splits sum.splits)
    from s(1) have "px_state q = px_state p" by (auto simp: sendData_def split: if_splits prod.splits)
    with sendData_accepts [OF L s(1)] s(2) q(2) d alive show ?thesis by (simp add: drained_def from_server_def)
  next
    case (Server_event ev)
    with server_event_drained [OF d L _ f] b st show ?thesis by blast
  qed
qed

lemma run_drained:
  assumes "px_inv cfg p" and "drained p" and "list_all (\<lambda>(L, indet, e). accepts L) xs"
    and "admissible_run px_adm (px_next cfg) p xs" and "run_steps (px_next cfg) p xs = Inr p'"
  shows "drained p'"
  using assms
proof (induction xs arbitrary: p)
  case Nil
  then show ?case by simp
next
  case (Cons x xs)
  obtain L indet e where x: "x = (L, indet, e)" by (cases x)
  have adm: "px_adm p x" using Cons.prems(4) by simp
  obtain p1 where p1: "px_next cfg p x = Inr p1" "run_steps (px_next cfg) p1 xs = Inr p'"
    using Cons.prems(5) by (auto split: sum.splits)
  then obtain effs where st: "px_step cfg p (L, indet, e) = Inr (p1, effs)"
    using x by (cases "px_step cfg p x") (auto simp: px_next_def)
  have "drained p1"
    using px_step_drained [OF Cons.prems(1,2) _ _ st] Cons.prems(3) adm x by simp
  moreover have "px_inv cfg p1" using px.step_safe [OF Cons.prems(1) adm] p1(1) by auto
  ultimately show ?case using Cons.IH [of p1] Cons.prems(3,4) p1 by simp
qed

lemma drained_start: "drained (managed_Proxy junk ip prt)"
  by (simp add: drained_def from_server_def managed_Proxy_def setIdRcvClb_def setOnCloseCb_def new_Proxy_def
      new_incoming_def connection_processor.defs)

subsection \<open>The invariant\<close>

lemma prefix_take_mono: "m \<le> n \<Longrightarrow> prefix (take m xs) (take n xs)"
  using take_is_prefix [of m "take n xs"] by (simp add: min_absorb1)

lemma wire_step_ok:
  assumes inv: "wire_inv cfg w" and adm: "wire_adm w e"
  shows "\<exists>w'. wire_step cfg w e = Inr w' \<and> wire_inv cfg w' \<and>
    prefix (client_received w) (client_received w') \<and> prefix (server_received w) (server_received w')"
proof (cases e)
  case (Wire x)
  obtain L indet d where x: "x = (L, indet, d)" by (cases x)
  have i: "px_inv cfg (wi_proxy w)" and b: "px_state (wi_proxy w) = BEGIN \<Longrightarrow> px_fwd (wi_proxy w) = None"
    and L: "libevent_laws L"
    using inv adm Wire x by (auto simp: wire_inv_def px_inv_def px_adm_def)
  have "px_adm (wi_proxy w) (L, indet, d)" using adm Wire x by simp
  then obtain p' effs where st: "px_step cfg (wi_proxy w) (L, indet, d) = Inr (p', effs)" and p': "px_inv cfg p'"
    using px_step_ok [OF i] by (metis step_ok_def)
  have g: "grown (wi_proxy w) p'" by (rule px_step_grown [OF L b st])
  then have "wire_inv cfg (w\<lparr>wi_proxy := p'\<rparr>)"
    using inv p' by (auto simp: wire_inv_def grown_def dest!: prefix_length_le)
  moreover have "take (wi_client w) (cp_output p') = take (wi_client w) (cp_output (wi_proxy w))"
    "take (wi_server w) (to_server p') = take (wi_server w) (to_server (wi_proxy w))"
    using g inv by (auto simp: grown_def wire_inv_def prefix_def)
  ultimately show ?thesis
    using Wire x st by (simp add: px_next_def client_received_def server_received_def)
next
  case (Flush_client n)
  with inv show ?thesis
    by (auto simp: wire_inv_def client_received_def server_received_def intro!: prefix_take_mono)
next
  case (Flush_server n)
  with inv show ?thesis
    by (auto simp: wire_inv_def client_received_def server_received_def intro!: prefix_take_mono)
qed

interpretation wi: guarded_machine "wire_step cfg" wire_adm "wire_inv cfg" for cfg
  by unfold_locales (use wire_step_ok in blast)

lemma wire_inv_start: "wire_inv cfg (new_wire junk ip prt)"
  by (simp add: wire_inv_def new_wire_def px_inv_managed)

text \<open>The proxy of a run with sockets runs as if there were none.\<close>

lemma wire_run_proxy:
  "run_steps (wire_step cfg) w es = Inr w' \<Longrightarrow>
   run_steps (px_next cfg) (wi_proxy w) (inputs es) = Inr (wi_proxy w')"
proof (induction es arbitrary: w)
  case Nil
  then show ?case by simp
next
  case (Cons e es)
  from Cons.prems show ?case by (cases e) (auto split: sum.splits dest!: Cons.IH)
qed

lemma wire_admissible_proxy:
  "admissible_run wire_adm (wire_step cfg) w es \<Longrightarrow>
   admissible_run px_adm (px_next cfg) (wi_proxy w) (inputs es)"
proof (induction es arbitrary: w)
  case Nil
  then show ?case by simp
next
  case (Cons e es)
  from Cons.prems show ?case by (cases e) (auto split: sum.splits dest!: Cons.IH)
qed

lemma wire_run:
  assumes "admissible_run wire_adm (wire_step cfg) (new_wire junk ip prt) es"
    and "run_steps (wire_step cfg) (new_wire junk ip prt) es = Inr w"
  shows "wire_inv cfg w"
    and "to_server (wi_proxy w) @ cp_input (wi_proxy w) = client_bytes (inputs es)"
    and "cp_output (wi_proxy w) @ from_server (wi_proxy w) = server_bytes (inputs es)"
proof -
  show "wire_inv cfg w" using wi.run_safe [OF wire_inv_start assms(1)] assms(2) by auto
  have p: "admissible_run px_adm (px_next cfg) (managed_Proxy junk ip prt) (inputs es)"
    "run_steps (px_next cfg) (managed_Proxy junk ip prt) (inputs es) = Inr (wi_proxy w)"
    using wire_admissible_proxy [OF assms(1)] wire_run_proxy [OF assms(2)] by (simp_all add: new_wire_def)
  from run_streams [OF px_inv_managed p]
  show "to_server (wi_proxy w) @ cp_input (wi_proxy w) = client_bytes (inputs es)"
    and "cp_output (wi_proxy w) @ from_server (wi_proxy w) = server_bytes (inputs es)"
    by (simp_all add: to_server_def from_server_def managed_Proxy_def setIdRcvClb_def setOnCloseCb_def
        new_Proxy_def new_incoming_def connection_processor.defs)
qed

text \<open>What has been received is all of a stream exactly if as many bytes were written as it has.\<close>

lemma received_all_iff:
  "n \<le> length out \<Longrightarrow> out @ held = stream \<Longrightarrow> take n out = stream \<longleftrightarrow> n = length stream"
  by (metis append_eq_conv_conj append_take_drop_id length_append length_take le_add1 le_antisym min.absorb2 min_def take_all_iff)

subsection \<open>Properties\<close>

text \<open>
  Each peer receives a prefix of what the other one sent: at every moment of every run, the bytes that
  have been written to the server are the first bytes the client sent, and those written to the
  client the first bytes the server sent; and each is complete exactly when as many bytes as were sent
  have been written.
\<close>

theorem received_is_prefix:
  assumes "admissible_run wire_adm (wire_step cfg) (new_wire junk ip prt) es"
    and "run_steps (wire_step cfg) (new_wire junk ip prt) es = Inr w"
  shows "prefix (server_received w) (client_bytes (inputs es)) \<and>
    prefix (client_received w) (server_bytes (inputs es)) \<and>
    (server_received w = client_bytes (inputs es) \<longleftrightarrow> wi_server w = length (client_bytes (inputs es))) \<and>
    (client_received w = server_bytes (inputs es) \<longleftrightarrow> wi_client w = length (server_bytes (inputs es)))"
proof -
  note r = wire_run [OF assms]
  have n: "wi_client w \<le> length (cp_output (wi_proxy w))" "wi_server w \<le> length (to_server (wi_proxy w))"
    using r(1) by (simp_all add: wire_inv_def)
  have "prefix (server_received w) (to_server (wi_proxy w) @ cp_input (wi_proxy w))"
    "prefix (client_received w) (cp_output (wi_proxy w) @ from_server (wi_proxy w))"
    by (simp_all add: server_received_def client_received_def prefix_prefix take_is_prefix)
  then show ?thesis
    using received_all_iff [OF n(2) r(2)] received_all_iff [OF n(1) r(3)] r(2,3)
    by (simp add: server_received_def client_received_def)
qed

text \<open>A client whose request was forwarded and whose answer has been queued but not yet written.\<close>

definition example_answered :: "wire_event list" where
  "example_answered = map Wire example_run @ [Flush_server 13]"

definition answered_wire :: wire where
  "answered_wire = \<lparr>wi_proxy = example_final, wi_client = 0, wi_server = 13\<rparr>"

lemma wire_admissible_map:
  "admissible_run wire_adm (wire_step cfg) w (map Wire xs) \<longleftrightarrow>
     admissible_run px_adm (px_next cfg) (wi_proxy w) xs"
  by (induction xs arbitrary: w) (auto split: sum.splits)

lemma wire_run_map:
  "run_steps (wire_step cfg) w (map Wire xs) =
     map_sum (\<lambda>f. f) (\<lambda>p. w\<lparr>wi_proxy := p\<rparr>) (run_steps (px_next cfg) (wi_proxy w) xs)"
  by (induction xs arbitrary: w) (auto split: sum.split)

lemma example_flags:
  "cp_bev example_final" "px_fwd example_final = Some (the (px_fwd example_final))"
  "cp_bev (the (px_fwd example_final))" "\<not> cp_connecting (the (px_fwd example_final))"
  "length (to_server example_final) = 13" "cp_output example_final = [42]"
  by code_simp+

lemma example_answered_run:
  "run_steps (wire_step example_config) (new_wire (replicate 12 0) ''c'' 1) example_answered = Inr answered_wire"
  using example_run_final
  by (simp add: example_answered_def run_steps_append wire_run_map new_wire_def answered_wire_def
      example_start_def example_flags)

lemma example_answered_adm:
  "admissible_run wire_adm (wire_step example_config) (new_wire (replicate 12 0) ''c'' 1) example_answered"
  using example_run_adm example_run_final example_flags(1,3,4)
  by (simp add: example_answered_def admissible_run_append wire_admissible_map wire_run_map new_wire_def
      example_start_def) (subst example_flags(2), simp)

theorem received_is_prefix_witness:
  "prefix (server_received answered_wire) [0, 0, 0, 1, 0, 0, 0, 4, 0, 0, 0, 1, 7] \<and>
   prefix (client_received answered_wire) [42] \<and>
   server_received answered_wire = [0, 0, 0, 1, 0, 0, 0, 4, 0, 0, 0, 1, 7] \<and>
   client_received answered_wire \<noteq> [42]"
proof -
  have i: "inputs example_answered = example_run"
    by (simp add: example_answered_def example_run_def)
  show ?thesis
    using received_is_prefix [OF example_answered_adm example_answered_run]
    by (simp add: i) (simp add: example_run_def answered_wire_def)
qed

text \<open>
  C27. A connection that is closed is cut off: when either side closes, both connections are dropped in the
  same step and nothing is written any more, whatever is still queued. So the client gets all that the
  server sent exactly if all of it had been written to the client's socket before the event that
  closes the connection, and the same for the server: an answer that a server sends right before it
  closes is lost to a client that is slow to read.
\<close>

theorem close_cuts_off:
  assumes "admissible_run wire_adm (wire_step cfg) (new_wire junk ip prt) es"
    and "run_steps (wire_step cfg) (new_wire junk ip prt) es = Inr w"
    and "cp_bev (wi_proxy w)" and "px_fwd (wi_proxy w) = Some f" and "\<not> cp_connecting f"
    and "\<not> ev_connected ev" and "ev_eof ev \<or> ev_error ev"
    and "d = Client_event ev \<or> d = Server_event ev"
  shows "\<exists>w'. wire_step cfg w (Wire (L, indet, d)) = Inr w' \<and> (\<forall>e. \<not> wire_adm w' e) \<and>
    (client_received w' = server_bytes (inputs es) \<longleftrightarrow> wi_client w = length (server_bytes (inputs es))) \<and>
    (server_received w' = client_bytes (inputs es) \<longleftrightarrow> wi_server w = length (client_bytes (inputs es)))"
proof -
  note r = wire_run [OF assms(1,2)]
  have n: "wi_client w \<le> length (cp_output (wi_proxy w))" "wi_server w \<le> length (to_server (wi_proxy w))"
    and i: "px_inv cfg (wi_proxy w)"
    using r(1) by (simp_all add: wire_inv_def)
  obtain p' where p': "px_next cfg (wi_proxy w) (L, indet, d) = Inr p'" "\<not> cp_bev p'"
      "cp_output p' = cp_output (wi_proxy w)" "to_server p' = to_server (wi_proxy w)"
    using closing_steps [OF i assms(3-7), of L indet] assms(4,8)
    by (auto simp: px_next_def to_server_def)
  let ?w = "w\<lparr>wi_proxy := p'\<rparr>"
  have "\<not> wire_adm ?w e" for e
    using p'(2) by (cases e) (auto simp: px_adm_def)
  moreover have "wire_step cfg w (Wire (L, indet, d)) = Inr ?w" using p'(1) by simp
  ultimately show ?thesis
    using received_all_iff [OF n(2) r(2)] received_all_iff [OF n(1) r(3)] p'(3,4)
    by (auto simp: server_received_def client_received_def)
qed

theorem close_cuts_off_witness:
  "\<exists>w'. wire_step example_config answered_wire (Wire (libevent_ok, 0, Server_event error_event)) = Inr w' \<and>
     (\<forall>e. \<not> wire_adm w' e) \<and> client_received w' \<noteq> [42]"
proof -
  have i: "inputs example_answered = example_run"
    by (simp add: example_answered_def example_run_def)
  have b: "server_bytes example_run = [42]" by (simp add: example_run_def)
  have e: "\<not> ev_connected error_event" "ev_eof error_event \<or> ev_error error_event"
    by (simp_all add: error_event_def)
  have w: "cp_bev (wi_proxy answered_wire)"
      "px_fwd (wi_proxy answered_wire) = Some (the (px_fwd example_final))" "wi_client answered_wire = 0"
    using example_flags(1,2) by (simp_all add: answered_wire_def)
  show ?thesis
    using close_cuts_off [OF example_answered_adm example_answered_run w(1,2) example_flags(4) e disjI2 [OF refl],
        of libevent_ok 0] w(3)
    by (auto simp: i b)
qed

end
