(* ===== verification/Network.thy ===== *)
theory Network
  imports System_Props Delivery
begin

section \<open>The network: all clients of the running program with their sockets\<close>

text \<open>
  \<open>Proxy_System\<close> runs all clients and the control channel, \<open>Delivery\<close> one proxy with its two sockets.
  Here the whole program is run with the sockets of every client: which bytes libevent has written to
  the socket of each client and to the socket of its server, while other clients come and go, and
  the control channel closes some of them. The events of one client, picked out of a run of the
  program, are a run of a proxy with its sockets alone, so that what holds of one proxy holds of every
  client of the program.
\<close>

record net =
  nt_sys :: sys
  nt_client :: "addr \<Rightarrow> byte list"
  nt_server :: "addr \<Rightarrow> byte list"

datatype net_event =
    Program sys_event
  | Write_client addr nat
  | Write_server addr nat

definition net_start :: "string \<Rightarrow> net" where
  "net_start queue = \<lparr>nt_sys = sys_start queue, nt_client = (\<lambda>a. []), nt_server = (\<lambda>a. [])\<rparr>"

text \<open>libevent writes the next bytes of an output buffer, as many as the socket takes.\<close>

fun net_step ::
  "'v jsoncpp \<Rightarrow> config \<Rightarrow> control_message \<Rightarrow> net \<Rightarrow> net_event \<Rightarrow> fault + net" where
  "net_step J cfg indet n (Program e) =
     map_sum (\<lambda>f. f) (\<lambda>s. n\<lparr>nt_sys := s\<rparr>) (sys_step J cfg indet (nt_sys n) e)"
| "net_step J cfg indet n (Write_client a k) =
     (case live (nt_sys n) a of
        None \<Rightarrow> Inl Null_pointer
      | Some p \<Rightarrow>
          Inr (n\<lparr>nt_client := (nt_client n)
            (a := nt_client n a @ take k (drop (length (nt_client n a)) (cp_output p)))\<rparr>))"
| "net_step J cfg indet n (Write_server a k) =
     (case live (nt_sys n) a of
        None \<Rightarrow> Inl Null_pointer
      | Some p \<Rightarrow>
          Inr (n\<lparr>nt_server := (nt_server n)
            (a := nt_server n a @ take k (drop (length (nt_server n a)) (to_server p)))\<rparr>))"

fun net_adm :: "'v jsoncpp \<Rightarrow> control_message \<Rightarrow> net \<Rightarrow> net_event \<Rightarrow> bool" where
  "net_adm J indet n (Program e) = sys_adm J indet (nt_sys n) e"
| "net_adm J indet n (Write_client a k) =
     (case live (nt_sys n) a of None \<Rightarrow> False | Some p \<Rightarrow> cp_bev p)"
| "net_adm J indet n (Write_server a k) =
     (case live (nt_sys n) a of
        None \<Rightarrow> False
      | Some p \<Rightarrow> cp_bev p \<and> (case px_fwd p of None \<Rightarrow> False | Some f \<Rightarrow> cp_bev f \<and> \<not> cp_connecting f))"

text \<open>The events that concern the client at an address, and the events of its two bufferevents.\<close>

fun wires_at :: "addr \<Rightarrow> net_event list \<Rightarrow> wire_event list" where
  "wires_at a [] = []"
| "wires_at a (Program (On_proxy b x) # es) = (if b = a then Wire x # wires_at a es else wires_at a es)"
| "wires_at a (Write_client b k # es) = (if b = a then Flush_client k # wires_at a es else wires_at a es)"
| "wires_at a (Write_server b k # es) = (if b = a then Flush_server k # wires_at a es else wires_at a es)"
| "wires_at a (_ # es) = wires_at a es"

text \<open>The connection that was accepted as the client at an address; \<open>k\<close> is the next address.\<close>

fun accepted_as :: "addr \<Rightarrow> addr \<Rightarrow> net_event list \<Rightarrow> (byte list \<times> string \<times> u16) option" where
  "accepted_as k a [] = None"
| "accepted_as k a (Program (Accept junk ip prt) # es) =
     (if k = a then Some (junk, ip, prt) else accepted_as (Suc k) a es)"
| "accepted_as k a (_ # es) = accepted_as k a es"

subsection \<open>One client among the others\<close>

lemma apply_effect_ok: "cm_ok (pm_cm pm) \<Longrightarrow> cm_ok (pm_cm (apply_effect a eff pm))"
  using cm.ok_drop [of "pm_cm pm" a]
  by (auto simp: apply_effect_def onIdRecv_def PM_dropConnection_def Let_def split: proxy_effect.split option.split)

lemma effects_own:
  assumes "cm_ok (pm_cm pm)"
  shows "cm_processors (pm_cm (fold (apply_effect a) effs pm)) a \<in> {None, cm_processors (pm_cm pm) a}"
  using assms
proof (induction effs arbitrary: pm)
  case (Cons eff effs)
  have "cm_processors (pm_cm (apply_effect a eff pm)) a \<in> {None, cm_processors (pm_cm pm) a}"
    using Cons.prems
    by (cases eff) (auto simp: apply_effect_def onIdRecv_def PM_dropConnection_processors)
  with Cons.IH [OF apply_effect_ok [OF Cons.prems, of a eff]] show ?case by auto
qed simp

lemma controls_live:
  assumes "pm_inv cfg n pm"
  shows "cm_processors (pm_cm (fold onControlMessage ms pm)) a \<in> {None, cm_processors (pm_cm pm) a}"
  using assms
proof (induction ms arbitrary: pm)
  case (Cons m ms)
  have "cm_processors (pm_cm (onControlMessage m pm)) a \<in> {None, cm_processors (pm_cm pm) a}"
    using control_processors_sub [OF Cons.prems, of m a]
    by (cases "cm_processors (pm_cm (onControlMessage m pm)) a") auto
  with Cons.IH [OF pm_inv_onControlMessage [OF Cons.prems, of m]] show ?case by auto
qed simp

text \<open>Whatever happens to the others, a client stays as it is or is dropped.\<close>

lemma step_live_other:
  assumes inv: "sys_inv cfg s" and st: "sys_step J cfg indet s e = Inr s'"
    and a: "a < sy_next s" and e: "\<And>x. e \<noteq> On_proxy a x"
  shows "live s' a \<in> {None, live s a} \<and> sy_next s \<le> sy_next s'"
proof (cases e)
  case (Accept junk ip prt)
  with st a show ?thesis by (auto simp: live_def addProxy_def addConnection_def split: if_splits)
next
  case (On_proxy b x)
  then obtain p p' effs where p: "live s b = Some p"
    and s': "s' = s\<lparr>sy_pm := fold (apply_effect b) effs (store_proxy b p' (sy_pm s))\<rparr>"
    using st by (auto split: option.splits sum.splits)
  have ok: "cm_ok (pm_cm (store_proxy b p' (sy_pm s)))"
    using inv p by (auto simp: sys_inv_def pm_inv_def cm_ok_def store_proxy_def live_def)
  have "b \<noteq> a" using e On_proxy by blast
  with effects_processors [OF ok, of a b effs] s' show ?thesis by (simp add: live_def store_proxy_def)
next
  case (On_channel c)
  then obtain out cc where "s' = s\<lparr>sy_cc := cc, sy_pm := fold onControlMessage (controls out) (sy_pm s)\<rparr>"
    using st by (auto split: prod.splits option.splits)
  with controls_live [of cfg "sy_next s" "sy_pm s" "controls out" a] inv show ?thesis
    by (simp add: sys_inv_def live_def)
qed

lemma step_live_own:
  assumes inv: "sys_inv cfg s" and st: "sys_step J cfg indet s (On_proxy a x) = Inr s'"
    and p: "live s a = Some p"
  shows "\<exists>p'. px_next cfg p x = Inr p' \<and> live s' a \<in> {None, Some p'} \<and> sy_next s' = sy_next s"
proof -
  obtain p' effs where px: "px_step cfg p x = Inr (p', effs)"
    and s': "s' = s\<lparr>sy_pm := fold (apply_effect a) effs (store_proxy a p' (sy_pm s))\<rparr>"
    using st p by (auto split: sum.splits)
  have ok: "cm_ok (pm_cm (store_proxy a p' (sy_pm s)))"
    using inv p by (auto simp: sys_inv_def pm_inv_def cm_ok_def store_proxy_def live_def)
  have "live s' a \<in> {None, Some p'}"
    using effects_own [OF ok, of a effs] s' by (simp add: live_def store_proxy_def)
  with px s' show ?thesis by (simp add: px_next_def)
qed

lemma wire_keeps_received:
  assumes "wire_inv cfg w" and "wire_adm w (Wire x)" and "wire_step cfg w (Wire x) = Inr w'"
  shows "client_received w' = client_received w" and "server_received w' = server_received w"
proof -
  have c: "wi_client w' = wi_client w" "wi_server w' = wi_server w"
    using assms(3) by (cases "px_next cfg (wi_proxy w) x"; auto)+
  from wire_step_ok [OF assms(1,2)] assms(3)
  have i: "wire_inv cfg w'" and p: "prefix (client_received w) (client_received w')"
      "prefix (server_received w) (server_received w')"
    by auto
  have "length (client_received w) = length (client_received w')"
      "length (server_received w) = length (server_received w')"
    using assms(1) i c by (simp_all add: wire_inv_def client_received_def server_received_def)
  with p show "client_received w' = client_received w" "server_received w' = server_received w"
    by (auto simp: prefix_def)
qed

subsection \<open>The run of one client\<close>

text \<open>
  The client at an address and a proxy with its sockets that runs alone: the same bytes have been written,
  and the client is that proxy, or has been dropped.
\<close>

definition client_rel :: "config \<Rightarrow> addr \<Rightarrow> net \<Rightarrow> wire \<Rightarrow> bool" where
  "client_rel cfg a n w \<longleftrightarrow>
     wire_inv cfg w \<and> a < sy_next (nt_sys n) \<and>
     nt_client n a = client_received w \<and> nt_server n a = server_received w \<and>
     live (nt_sys n) a \<in> {None, Some (wi_proxy w)}"

lemma take_more: "c \<le> length xs \<Longrightarrow> take c xs @ take k (drop c xs) = take (min (length xs) (c + k)) xs"
  by (simp add: take_add min_def)

lemma net_step_safe:
  assumes "sys_inv cfg (nt_sys n)" and "net_adm J indet n e"
  shows "\<exists>n'. net_step J cfg indet n e = Inr n' \<and> sys_inv cfg (nt_sys n')"
proof (cases e)
  case (Program d)
  with sy.step_safe [OF assms(1)] assms(2) show ?thesis by fastforce
qed (use assms in \<open>auto split: option.splits\<close>)

interpretation nt: guarded_machine "net_step J cfg indet" "net_adm J indet" "\<lambda>n. sys_inv cfg (nt_sys n)"
  for J cfg indet
  by unfold_locales (rule net_step_safe)

text \<open>The four kinds of events: of the client, of others, and the two kinds of writing.\<close>

definition client_sim :: "config \<Rightarrow> addr \<Rightarrow> wire \<Rightarrow> net_event \<Rightarrow> net \<Rightarrow> bool" where
  "client_sim cfg a w e n' \<longleftrightarrow>
     admissible_run wire_adm (wire_step cfg) w (wires_at a [e]) \<and>
     (\<exists>w'. run_steps (wire_step cfg) w (wires_at a [e]) = Inr w' \<and> client_rel cfg a n' w')"

lemma client_own:
  assumes inv: "sys_inv cfg (nt_sys n)" and adm: "net_adm J indet n (Program (On_proxy a x))"
    and st: "net_step J cfg indet n (Program (On_proxy a x)) = Inr n'" and rel: "client_rel cfg a n w"
  shows "client_sim cfg a w (Program (On_proxy a x)) n'"
proof -
  obtain p where p: "live (nt_sys n) a = Some p" "px_adm p x" using adm by (auto split: option.splits)
  have w: "wi_proxy w = p" using rel p(1) by (simp add: client_rel_def)
  obtain s' where s': "sys_step J cfg indet (nt_sys n) (On_proxy a x) = Inr s'" "n' = n\<lparr>nt_sys := s'\<rparr>"
    using st by (cases "sys_step J cfg indet (nt_sys n) (On_proxy a x)") auto
  from step_live_own [OF inv s'(1) p(1)] obtain p' where
    p': "px_next cfg p x = Inr p'" "live s' a \<in> {None, Some p'}" "sy_next s' = sy_next (nt_sys n)" by blast
  have wi: "wire_inv cfg w" using rel by (simp add: client_rel_def)
  have wa: "wire_adm w (Wire x)" using p(2) w by simp
  have ws: "wire_step cfg w (Wire x) = Inr (w\<lparr>wi_proxy := p'\<rparr>)" using p'(1) w by simp
  have "wire_inv cfg (w\<lparr>wi_proxy := p'\<rparr>)" using wire_step_ok [OF wi wa] ws by auto
  then have "client_rel cfg a n' (w\<lparr>wi_proxy := p'\<rparr>)"
    using rel wire_keeps_received [OF wi wa ws] p'(2,3) s'(2) by (simp add: client_rel_def)
  with wa ws show ?thesis by (simp add: client_sim_def)
qed

lemma client_other:
  assumes inv: "sys_inv cfg (nt_sys n)" and st: "net_step J cfg indet n (Program d) = Inr n'"
    and rel: "client_rel cfg a n w" and d: "\<And>x. d \<noteq> On_proxy a x"
  shows "client_sim cfg a w (Program d) n'"
proof -
  have no: "wires_at a [Program d] = []" using d by (cases d) auto
  obtain s' where s': "sys_step J cfg indet (nt_sys n) d = Inr s'" "n' = n\<lparr>nt_sys := s'\<rparr>"
    using st by (cases "sys_step J cfg indet (nt_sys n) d") auto
  have "a < sy_next (nt_sys n)" using rel by (simp add: client_rel_def)
  from step_live_other [OF inv s'(1) this d] rel s'(2) no show ?thesis
    by (auto simp: client_sim_def client_rel_def)
qed

lemma client_write_client:
  assumes adm: "net_adm J indet n (Write_client b k)"
    and st: "net_step J cfg indet n (Write_client b k) = Inr n'" and rel: "client_rel cfg a n w"
  shows "client_sim cfg a w (Write_client b k) n'"
proof -
  obtain p where p: "live (nt_sys n) b = Some p" "cp_bev p" using adm by (auto split: option.splits)
  have n': "n' = n\<lparr>nt_client := (nt_client n)
      (b := nt_client n b @ take k (drop (length (nt_client n b)) (cp_output p)))\<rparr>"
    using st p by simp
  show ?thesis
  proof (cases "b = a")
    case True
    have w: "wi_proxy w = p" "wi_client w \<le> length (cp_output p)" "nt_client n a = take (wi_client w) (cp_output p)"
      using rel p(1) True by (auto simp: client_rel_def wire_inv_def client_received_def)
    have "nt_client n' a = take (min (length (cp_output p)) (wi_client w + k)) (cp_output p)"
      using take_more [OF w(2), of k] w(2,3) n' True by (simp add: min_absorb1)
    then have "client_rel cfg a n' (w\<lparr>wi_client := min (length (cp_output p)) (wi_client w + k)\<rparr>)"
      using rel n' w(1) by (simp add: client_rel_def client_received_def server_received_def wire_inv_def)
    with True w(1) p(2) show ?thesis by (simp add: client_sim_def)
  next
    case False
    with n' rel show ?thesis by (simp add: client_sim_def client_rel_def)
  qed
qed

lemma client_write_server:
  assumes adm: "net_adm J indet n (Write_server b k)"
    and st: "net_step J cfg indet n (Write_server b k) = Inr n'" and rel: "client_rel cfg a n w"
  shows "client_sim cfg a w (Write_server b k) n'"
proof -
  obtain p where p: "live (nt_sys n) b = Some p" "cp_bev p"
      "case px_fwd p of None \<Rightarrow> False | Some f \<Rightarrow> cp_bev f \<and> \<not> cp_connecting f"
    using adm by (auto split: option.splits)
  have n': "n' = n\<lparr>nt_server := (nt_server n)
      (b := nt_server n b @ take k (drop (length (nt_server n b)) (to_server p)))\<rparr>"
    using st p by simp
  show ?thesis
  proof (cases "b = a")
    case True
    have w: "wi_proxy w = p" "wi_server w \<le> length (to_server p)" "nt_server n a = take (wi_server w) (to_server p)"
      using rel p(1) True by (auto simp: client_rel_def wire_inv_def server_received_def)
    have "nt_server n' a = take (min (length (to_server p)) (wi_server w + k)) (to_server p)"
      using take_more [OF w(2), of k] w(2,3) n' True by (simp add: min_absorb1)
    then have "client_rel cfg a n' (w\<lparr>wi_server := min (length (to_server p)) (wi_server w + k)\<rparr>)"
      using rel n' w(1) by (simp add: client_rel_def client_received_def server_received_def wire_inv_def)
    with True w(1) p(2,3) show ?thesis by (simp add: client_sim_def)
  next
    case False
    with n' rel show ?thesis by (simp add: client_sim_def client_rel_def)
  qed
qed

lemma client_step:
  assumes inv: "sys_inv cfg (nt_sys n)" and adm: "net_adm J indet n e"
    and st: "net_step J cfg indet n e = Inr n'" and rel: "client_rel cfg a n w"
  shows "client_sim cfg a w e n'"
proof (cases e)
  case (Program d)
  show ?thesis
  proof (cases "\<exists>x. d = On_proxy a x")
    case True
    with client_own [OF inv] adm st rel Program show ?thesis by blast
  next
    case False
    with client_other [OF inv] st rel Program show ?thesis by blast
  qed
next
  case (Write_client b k)
  with client_write_client adm st rel show ?thesis by blast
next
  case (Write_server b k)
  with client_write_server adm st rel show ?thesis by blast
qed

lemma wires_at_Cons: "wires_at a (e # es) = wires_at a [e] @ wires_at a es"
proof (cases e)
  case (Program d)
  then show ?thesis by (cases d) simp_all
qed simp_all

lemma client_run:
  assumes "sys_inv cfg (nt_sys n)" and "admissible_run (net_adm J indet) (net_step J cfg indet) n es"
    and "run_steps (net_step J cfg indet) n es = Inr n'" and "client_rel cfg a n w"
  shows "admissible_run wire_adm (wire_step cfg) w (wires_at a es) \<and>
    (\<exists>w'. run_steps (wire_step cfg) w (wires_at a es) = Inr w' \<and> client_rel cfg a n' w')"
  using assms
proof (induction es arbitrary: n w)
  case Nil
  then show ?case by simp
next
  case (Cons e es)
  have adm: "net_adm J indet n e" using Cons.prems(2) by simp
  obtain n1 where n1: "net_step J cfg indet n e = Inr n1" "run_steps (net_step J cfg indet) n1 es = Inr n'"
    using Cons.prems(3) by (auto split: sum.splits)
  have i1: "sys_inv cfg (nt_sys n1)" using net_step_safe [OF Cons.prems(1) adm] n1(1) by auto
  have a1: "admissible_run (net_adm J indet) (net_step J cfg indet) n1 es" using Cons.prems(2) n1(1) by simp
  obtain w1 where w1: "admissible_run wire_adm (wire_step cfg) w (wires_at a [e])"
      "run_steps (wire_step cfg) w (wires_at a [e]) = Inr w1" "client_rel cfg a n1 w1"
    using client_step [OF Cons.prems(1) adm n1(1) Cons.prems(4)] by (auto simp: client_sim_def)
  from Cons.IH [OF i1 a1 n1(2) w1(3)] w1(1,2) show ?case
    by (simp add: wires_at_Cons [of a e es] admissible_run_append run_steps_append)
qed

text \<open>Before a client is accepted nothing happens at its address.\<close>

definition fresh :: "addr \<Rightarrow> net \<Rightarrow> bool" where
  "fresh a n \<longleftrightarrow> sy_next (nt_sys n) \<le> a \<and> nt_client n a = [] \<and> nt_server n a = []"

lemma fresh_live:
  assumes "sys_inv cfg (nt_sys n)" and "fresh a n"
  shows "live (nt_sys n) a = None"
proof (rule ccontr)
  assume "live (nt_sys n) a \<noteq> None"
  then obtain p where "live (nt_sys n) a = Some p" by blast
  with assms have "a < sy_next (nt_sys n)" by (auto simp: sys_inv_def pm_inv_def live_def)
  with assms(2) show False by (simp add: fresh_def)
qed

lemma fresh_step:
  assumes inv: "sys_inv cfg (nt_sys n)" and adm: "net_adm J indet n e"
    and st: "net_step J cfg indet n e = Inr n1" and fr: "fresh a n"
  shows "wires_at a [e] = [] \<and>
    (case accepted_as (sy_next (nt_sys n)) a [e] of
       None \<Rightarrow> fresh a n1 \<and> accepted_as (sy_next (nt_sys n)) a (e # es) = accepted_as (sy_next (nt_sys n1)) a es
     | Some (junk, ip, prt) \<Rightarrow> client_rel cfg a n1 (new_wire junk ip prt))"
proof -
  have no: "live (nt_sys n) a = None" by (rule fresh_live [OF inv fr])
  show ?thesis
  proof (cases e)
    case (Program d)
    show ?thesis
    proof (cases d)
      case (Accept junk ip prt)
      show ?thesis
      proof (cases "sy_next (nt_sys n) = a")
        case True
        have "live (nt_sys n1) a \<in> {None, Some (managed_Proxy junk ip prt)}"
          using st Program Accept True no
          by (auto simp: live_def addProxy_def addConnection_def managed_Proxy_def split: if_splits)
        with st Program Accept True fr wire_inv_start [of cfg junk ip prt] show ?thesis
          by (auto simp: client_rel_def fresh_def new_wire_def client_received_def server_received_def)
      next
        case False
        with st Program Accept fr show ?thesis by (auto simp: fresh_def)
      qed
    next
      case (On_proxy b x)
      with adm Program no have "b \<noteq> a" by auto
      with st Program On_proxy fr show ?thesis
        by (cases x; auto simp: fresh_def split: sum.splits option.splits prod.splits)
    next
      case (On_channel c)
      with st Program fr show ?thesis by (auto simp: fresh_def split: sum.splits option.splits prod.splits)
    qed
  next
    case (Write_client b k)
    with adm no have "b \<noteq> a" by auto
    with st Write_client fr show ?thesis by (auto simp: fresh_def split: option.splits)
  next
    case (Write_server b k)
    with adm no have "b \<noteq> a" by auto
    with st Write_server fr show ?thesis by (auto simp: fresh_def split: option.splits)
  qed
qed

lemma accepted_run:
  assumes "sys_inv cfg (nt_sys n)" and "admissible_run (net_adm J indet) (net_step J cfg indet) n es"
    and "run_steps (net_step J cfg indet) n es = Inr n'" and "fresh a n"
  shows "case accepted_as (sy_next (nt_sys n)) a es of
      None \<Rightarrow> wires_at a es = [] \<and> fresh a n' \<and> live (nt_sys n') a = None
    | Some (junk, ip, prt) \<Rightarrow>
        admissible_run wire_adm (wire_step cfg) (new_wire junk ip prt) (wires_at a es) \<and>
        (\<exists>w. run_steps (wire_step cfg) (new_wire junk ip prt) (wires_at a es) = Inr w \<and> client_rel cfg a n' w)"
  using assms
proof (induction es arbitrary: n)
  case Nil
  then show ?case by (simp add: fresh_live)
next
  case (Cons e es)
  have adm: "net_adm J indet n e" using Cons.prems(2) by simp
  obtain n1 where n1: "net_step J cfg indet n e = Inr n1" "run_steps (net_step J cfg indet) n1 es = Inr n'"
    using Cons.prems(3) by (auto split: sum.splits)
  have i1: "sys_inv cfg (nt_sys n1)" using net_step_safe [OF Cons.prems(1) adm] n1(1) by auto
  have a1: "admissible_run (net_adm J indet) (net_step J cfg indet) n1 es" using Cons.prems(2) n1(1) by simp
  note st = fresh_step [OF Cons.prems(1) adm n1(1) Cons.prems(4), of es]
  have w: "wires_at a (e # es) = wires_at a es" using st wires_at_Cons [of a e es] by simp
  show ?case
  proof (cases "accepted_as (sy_next (nt_sys n)) a [e]")
    case None
    with st Cons.IH [OF i1 a1 n1(2)] show ?thesis unfolding w by simp
  next
    case (Some acc)
    then obtain junk ip prt where e: "e = Program (Accept junk ip prt)" "sy_next (nt_sys n) = a"
      by (cases "(sy_next (nt_sys n), a, [e])" rule: accepted_as.cases) (auto split: if_splits)
    with st Some client_run [OF i1 a1 n1(2)] show ?thesis by (auto split: prod.splits)
  qed
qed

subsection \<open>Properties\<close>

text \<open>
  C2. Every client of the running program is served as if it were alone: in every run of the program with
  any number of clients and any control messages, what has been written to the socket of a client
  is a prefix of what its own server sent, what has been written to its server a prefix of what this
  client sent, and the client, unless it has been dropped, is in the state that a single proxy reaches on
  its events. At an address at which no client was accepted nothing is ever written.
\<close>

theorem clients_receive_prefixes:
  assumes "admissible_run (net_adm J indet) (net_step J cfg indet) (net_start queue) es"
    and "run_steps (net_step J cfg indet) (net_start queue) es = Inr n"
  shows "case accepted_as 0 a es of
      None \<Rightarrow> live (nt_sys n) a = None \<and> nt_client n a = [] \<and> nt_server n a = []
    | Some (junk, ip, prt) \<Rightarrow>
        prefix (nt_server n a) (client_bytes (inputs (wires_at a es))) \<and>
        prefix (nt_client n a) (server_bytes (inputs (wires_at a es))) \<and>
        (\<exists>p. run_steps (px_next cfg) (managed_Proxy junk ip prt) (inputs (wires_at a es)) = Inr p \<and>
          live (nt_sys n) a \<in> {None, Some p})"
proof -
  have "sys_inv cfg (nt_sys (net_start queue))" "fresh a (net_start queue)"
      "sy_next (nt_sys (net_start queue)) = 0"
    using sys_inv_start [of cfg queue] by (simp_all add: net_start_def fresh_def) (simp add: sys_start_def)+
  note r = accepted_run [OF this(1) assms this(2), unfolded this(3)]
  show ?thesis
  proof (cases "accepted_as 0 a es")
    case None
    with r show ?thesis by (simp add: fresh_def)
  next
    case (Some acc)
    obtain junk ip prt where acc: "acc = (junk, ip, prt)" by (cases acc)
    from r Some acc obtain w where w: "admissible_run wire_adm (wire_step cfg) (new_wire junk ip prt) (wires_at a es)"
        "run_steps (wire_step cfg) (new_wire junk ip prt) (wires_at a es) = Inr w" "client_rel cfg a n w"
      by auto
    from received_is_prefix [OF w(1,2)] wire_run_proxy [OF w(2)] w(3) Some acc show ?thesis
      by (simp add: client_rel_def new_wire_def)
  qed
qed

text \<open>
  Two clients of the same host: the first is served, the second is dropped by its peer before its
  server was reached.
\<close>

definition example_net_sys :: "sys_event list" where
  "example_net_sys =
     system_run @
     [On_proxy 0 (libevent_ok, 0, Server_event connected_event),
      On_proxy 0 (libevent_ok, 0, Server_data [42, 43]),
      On_proxy 1 (libevent_ok, 0, Client_event eof_event)]"

definition example_net :: "net_event list" where
  "example_net = map Program example_net_sys @ [Write_server 0 5, Write_client 0 1]"

lemma net_admissible_map:
  "admissible_run (net_adm J indet) (net_step J cfg indet) n (map Program xs) \<longleftrightarrow>
     admissible_run (sys_adm J indet) (sys_step J cfg indet) (nt_sys n) xs"
  by (induction xs arbitrary: n) (auto split: sum.splits)

lemma net_run_map:
  "run_steps (net_step J cfg indet) n (map Program xs) =
     map_sum (\<lambda>f. f) (\<lambda>s. n\<lparr>nt_sys := s\<rparr>) (run_steps (sys_step J cfg indet) (nt_sys n) xs)"
  by (induction xs arbitrary: n) (auto split: sum.split)

lemma example_net_sys_adm:
  "admissible_run (sys_adm example_json no_message) (sys_step example_json example_config no_message)
     (sys_start ''proxyCtl'') example_net_sys"
proof -
  have "list_all sys_lib example_net_sys"
    by (simp add: example_net_sys_def system_run_def libevent_ok_laws)
  moreover have "admissible_run (sys_events_ok example_json no_message)
      (sys_step example_json example_config no_message) (sys_start ''proxyCtl'') example_net_sys" by code_simp
  ultimately show ?thesis by (rule sys_admissibleI)
qed

lemma example_net_live:
  "map_option cp_output (live (after example_net_sys) 0) = Some [42, 43]"
  "map_option to_server (live (after example_net_sys) 0) = Some (header 1)"
  "map_option cp_bev (live (after example_net_sys) 0) = Some True"
  "map_option (\<lambda>p. map_option (\<lambda>f. cp_bev f \<and> \<not> cp_connecting f) (px_fwd p)) (live (after example_net_sys) 0) =
     Some (Some True)"
  by code_simp+

theorem clients_receive_prefixes_witness:
  "\<exists>n. run_steps (net_step example_json example_config no_message) (net_start ''proxyCtl'') example_net = Inr n \<and>
     prefix (nt_server n 0) (header 1) \<and> prefix (nt_client n 0) [42, 43] \<and>
     nt_client n 0 = [42] \<and> length (nt_server n 0) = 5"
proof -
  let ?s = "after example_net_sys"
  obtain p f where p: "live ?s 0 = Some p" "cp_output p = [42, 43]" "to_server p = header 1" "cp_bev p"
      "px_fwd p = Some f" "cp_bev f" "\<not> cp_connecting f"
    using example_net_live by (auto simp: map_option_case split: option.splits)
  have s: "run_steps (sys_step example_json example_config no_message) (sys_start ''proxyCtl'') example_net_sys = Inr ?s"
    using after_reach(1) example_net_sys_adm by (simp add: system_start_def)
  obtain n where n: "run_steps (net_step example_json example_config no_message) (net_start ''proxyCtl'') example_net = Inr n"
      "nt_client n 0 = [42]" "nt_server n 0 = take 5 (header 1)"
    using p s by (simp add: example_net_def run_steps_append net_run_map net_start_def)
  have "admissible_run (net_adm example_json no_message) (net_step example_json example_config no_message)
      (net_start ''proxyCtl'') example_net"
    using p s example_net_sys_adm
    by (simp add: example_net_def admissible_run_append net_admissible_map net_run_map net_start_def)
  note r = clients_receive_prefixes [OF this n(1), of 0]
  have "accepted_as 0 0 example_net = Some ([], ''c0'', 1)"
      "inputs (wires_at 0 example_net) =
        [(libevent_ok, 0, Client_data (header 1)), (libevent_ok, 0, Server_event connected_event),
         (libevent_ok, 0, Server_data [42, 43])]"
    by (simp_all add: example_net_def example_net_sys_def system_run_def)
  with r n show ?thesis by simp
qed

lemma written_rest: "xs = take (length xs) ys \<Longrightarrow> length ys \<le> length xs + k \<Longrightarrow> xs @ take k (drop (length xs) ys) = ys"
  by (metis append_take_drop_id diff_le_mono diff_add_inverse length_drop take_all)

text \<open>What the connections of a client that forwards hold, while the event buffers accept data.\<close>

lemma open_client:
  assumes adm: "admissible_run (net_adm J indet) (net_step J cfg indet) (net_start queue) es"
    and run: "run_steps (net_step J cfg indet) (net_start queue) es = Inr n"
    and p: "live (nt_sys n) a = Some p" "px_state p = FWD"
    and acc: "list_all (\<lambda>(L, indet, e). accepts L) (inputs (wires_at a es))"
  shows "to_server p = client_bytes (inputs (wires_at a es))"
    and "cp_output p = server_bytes (inputs (wires_at a es))"
    and "cp_bev p" and "\<exists>f. px_fwd p = Some f \<and> cp_bev f \<and> \<not> cp_connecting f"
    and "nt_client n a = take (length (nt_client n a)) (cp_output p)"
    and "nt_server n a = take (length (nt_server n a)) (to_server p)"
proof -
  have s: "sys_inv cfg (nt_sys (net_start queue))" "fresh a (net_start queue)"
      "sy_next (nt_sys (net_start queue)) = 0"
    using sys_inv_start [of cfg queue] by (simp_all add: net_start_def fresh_def) (simp add: sys_start_def)+
  have "sys_inv cfg (nt_sys n)" using nt.run_safe [OF s(1) adm] run by auto
  then have i: "px_inv cfg p" "cp_bev p" using p(1) by (auto simp: sys_inv_def pm_inv_def live_def)
  then show "cp_bev p" and "\<exists>f. px_fwd p = Some f \<and> cp_bev f \<and> \<not> cp_connecting f"
    using p(2) by (auto simp: px_inv_def fwd_ok_def)
  obtain junk ip prt w where
      w: "admissible_run wire_adm (wire_step cfg) (new_wire junk ip prt) (wires_at a es)"
        "run_steps (wire_step cfg) (new_wire junk ip prt) (wires_at a es) = Inr w" "client_rel cfg a n w"
    using accepted_run [OF s(1) adm run s(2)] p(1) by (auto split: option.splits)
  have wp: "wi_proxy w = p" using w(3) p(1) by (simp add: client_rel_def)
  have "drained p"
    using run_drained [OF px_inv_managed drained_start acc] wire_admissible_proxy [OF w(1)]
      wire_run_proxy [OF w(2)] wp by (simp add: new_wire_def)
  then have d: "cp_input p = []" "from_server p = []" using i(2) p(2) by (simp_all add: drained_def)
  from wire_run(2,3) [OF w(1,2)] d show "to_server p = client_bytes (inputs (wires_at a es))"
      "cp_output p = server_bytes (inputs (wires_at a es))" by (simp_all add: wp)
  show "nt_client n a = take (length (nt_client n a)) (cp_output p)"
      "nt_server n a = take (length (nt_server n a)) (to_server p)"
    using w(3) by (simp_all add: client_rel_def client_received_def server_received_def wp wire_inv_def)
qed

lemma example_net_run:
  "run_steps (net_step example_json example_config no_message) (net_start ''proxyCtl'') (map Program example_net_sys) =
     Inr ((net_start ''proxyCtl'')\<lparr>nt_sys := after example_net_sys\<rparr>)"
  "admissible_run (net_adm example_json no_message) (net_step example_json example_config no_message)
     (net_start ''proxyCtl'') (map Program example_net_sys)"
proof -
  have "run_steps (sys_step example_json example_config no_message) (sys_start ''proxyCtl'') example_net_sys =
      Inr (after example_net_sys)"
    using after_reach(1) example_net_sys_adm by (simp add: system_start_def)
  then show "run_steps (net_step example_json example_config no_message) (net_start ''proxyCtl'')
      (map Program example_net_sys) = Inr ((net_start ''proxyCtl'')\<lparr>nt_sys := after example_net_sys\<rparr>)"
    by (simp add: net_run_map net_start_def)
  show "admissible_run (net_adm example_json no_message) (net_step example_json example_config no_message)
      (net_start ''proxyCtl'') (map Program example_net_sys)"
    using example_net_sys_adm by (simp add: net_admissible_map net_start_def)
qed

lemma example_net_forwards: "map_option px_state (live (after example_net_sys) 0) = Some FWD"
  by code_simp

text \<open>
  C3. Nothing is held back from a client that is being served: in every run of the program in which the event
  buffers of a client accept data, once the client is connected to its server and still open, it
  suffices that the two sockets take the outstanding bytes for the server to have everything that the
  client has sent, its first message included, and for the client everything that the server has
  sent.
\<close>

theorem open_clients_get_everything:
  assumes "admissible_run (net_adm J indet) (net_step J cfg indet) (net_start queue) es"
    and "run_steps (net_step J cfg indet) (net_start queue) es = Inr n"
    and "live (nt_sys n) a = Some p" and "px_state p = FWD"
    and "list_all (\<lambda>(L, indet, e). accepts L) (inputs (wires_at a es))"
    and "length (client_bytes (inputs (wires_at a es))) \<le> length (nt_server n a) + k"
    and "length (server_bytes (inputs (wires_at a es))) \<le> length (nt_client n a) + m"
  shows "admissible_run (net_adm J indet) (net_step J cfg indet) n [Write_server a k, Write_client a m] \<and>
    (\<exists>n'. run_steps (net_step J cfg indet) n [Write_server a k, Write_client a m] = Inr n' \<and>
      nt_server n' a = client_bytes (inputs (wires_at a es)) \<and>
      nt_client n' a = server_bytes (inputs (wires_at a es)))"
proof -
  note o = open_client [OF assms(1-5)]
  have "nt_client n a @ take m (drop (length (nt_client n a)) (cp_output p)) = cp_output p"
      "nt_server n a @ take k (drop (length (nt_server n a)) (to_server p)) = to_server p"
    using written_rest [OF o(5)] written_rest [OF o(6)] o(1,2) assms(6,7) by simp_all
  with o(1-4) assms(3) show ?thesis by auto
qed

theorem open_clients_get_everything_witness:
  "\<exists>n. run_steps (net_step example_json example_config no_message) (net_start ''proxyCtl'')
      (map Program example_net_sys @ [Write_server 0 12, Write_client 0 2]) = Inr n \<and>
    nt_server n 0 = header 1 \<and> nt_client n 0 = [42, 43]"
proof -
  let ?es = "map Program example_net_sys"
  let ?n = "(net_start ''proxyCtl'')\<lparr>nt_sys := after example_net_sys\<rparr>"
  note r = example_net_run(1) and a = example_net_run(2)
  obtain p where p: "live (nt_sys ?n) 0 = Some p" "px_state p = FWD" using example_net_forwards by auto
  have i: "inputs (wires_at 0 ?es) =
      [(libevent_ok, 0, Client_data (header 1)), (libevent_ok, 0, Server_event connected_event),
       (libevent_ok, 0, Server_data [42, 43])]"
    by (simp add: example_net_sys_def system_run_def)
  have acc: "list_all (\<lambda>(L, indet, e). accepts L) (inputs (wires_at 0 ?es))"
    unfolding i by (simp add: accepts_def libevent_ok_def)
  have b: "nt_client ?n 0 = []" "nt_server ?n 0 = []" by (simp_all add: net_start_def)
  from open_clients_get_everything [OF a r p acc, of 12 2] r show ?thesis
    unfolding i b by (simp add: run_steps_append)
qed

text \<open>One byte from the server of a client, with an event buffer that accepts it.\<close>

definition server_byte :: "addr \<Rightarrow> net_event" where
  "server_byte a = Program (On_proxy a (libevent_ok, 0, Server_data [0]))"

lemma server_byte_step:
  assumes inv: "sys_inv cfg (nt_sys n)" and p: "live (nt_sys n) a = Some p" "px_state p = FWD"
  shows "net_adm J indet n (server_byte a) \<and>
    (\<exists>n' p'. net_step J cfg indet n (server_byte a) = Inr n' \<and> sys_inv cfg (nt_sys n') \<and>
      live (nt_sys n') a = Some p' \<and> px_state p' = FWD \<and> nt_client n' = nt_client n \<and>
      length (cp_output p) < length (cp_output p'))"
proof -
  have i: "px_inv cfg p" "cp_bev p" using inv p(1) by (auto simp: sys_inv_def pm_inv_def live_def)
  then obtain f where f: "px_fwd p = Some f" "cp_bev f" "\<not> cp_connecting f" "fw_destination f"
    using p(2) by (auto simp: px_inv_def fwd_ok_def)
  have adm: "net_adm J indet n (server_byte a)"
    using p f i(2) by (simp add: server_byte_def px_adm_def libevent_ok_laws)
  let ?p = "p\<lparr>cp_output := cp_output p @ cp_input f @ [0], px_fwd := Some (f\<lparr>cp_input := []\<rparr>)\<rparr>"
  have st: "px_step cfg p (libevent_ok, 0, Server_data [0]) = Inr (?p, [])"
    using f i(2) by (simp add: Forwarder_dataRecieved_def sendData_def libevent_ok_def)
  let ?n = "n\<lparr>nt_sys := (nt_sys n)\<lparr>sy_pm := store_proxy a ?p (sy_pm (nt_sys n))\<rparr>\<rparr>"
  have s: "net_step J cfg indet n (server_byte a) = Inr ?n" using p st by (simp add: server_byte_def)
  have l: "live (nt_sys ?n) a = Some ?p" by (simp add: live_def store_proxy_def)
  have "sys_inv cfg (nt_sys ?n)" using net_step_safe [OF inv adm] s by auto
  with adm s l p(2) show ?thesis by (intro conjI exI [of _ ?n] exI [of _ ?p]) simp_all
qed

lemma server_bytes_run:
  assumes "sys_inv cfg (nt_sys n)" and "live (nt_sys n) a = Some p" and "px_state p = FWD"
  shows "admissible_run (net_adm J indet) (net_step J cfg indet) n (replicate k (server_byte a)) \<and>
    (\<exists>n' p'. run_steps (net_step J cfg indet) n (replicate k (server_byte a)) = Inr n' \<and>
      live (nt_sys n') a = Some p' \<and> nt_client n' = nt_client n \<and>
      length (cp_output p) + k \<le> length (cp_output p'))"
  using assms
proof (induction k arbitrary: n p)
  case 0
  then show ?case by simp
next
  case (Suc k)
  obtain n1 p1 where n1: "net_adm J indet n (server_byte a)" "net_step J cfg indet n (server_byte a) = Inr n1"
      "sys_inv cfg (nt_sys n1)" "live (nt_sys n1) a = Some p1" "px_state p1 = FWD" "nt_client n1 = nt_client n"
      "length (cp_output p) < length (cp_output p1)"
    using server_byte_step [OF Suc.prems] by blast
  from Suc.IH [OF n1(3-5)] obtain n' p' where
    r: "admissible_run (net_adm J indet) (net_step J cfg indet) n1 (replicate k (server_byte a))"
      "run_steps (net_step J cfg indet) n1 (replicate k (server_byte a)) = Inr n'" "live (nt_sys n') a = Some p'"
      "nt_client n' = nt_client n1" "length (cp_output p1) + k \<le> length (cp_output p')" by blast
  with n1 show ?case by (intro conjI exI [of _ n'] exI [of _ p']) simp_all
qed

text \<open>
  C36. There is no bound on what the proxy holds for a client: from every reachable state in which a client is
  being served, its server can go on sending while the socket of the client takes nothing, and after
  \<open>k\<close> more bytes the proxy holds at least \<open>k\<close> bytes that are not written: it never stops reading from the
  server of a slow client.
\<close>

theorem held_bytes_are_unbounded:
  assumes "admissible_run (net_adm J indet) (net_step J cfg indet) (net_start queue) es"
    and "run_steps (net_step J cfg indet) (net_start queue) es = Inr n"
    and "live (nt_sys n) a = Some p" and "px_state p = FWD"
  shows "\<exists>n' p'. admissible_run (net_adm J indet) (net_step J cfg indet) (net_start queue)
      (es @ replicate k (server_byte a)) \<and>
    run_steps (net_step J cfg indet) (net_start queue) (es @ replicate k (server_byte a)) = Inr n' \<and>
    live (nt_sys n') a = Some p' \<and> k \<le> length (cp_output p') - length (nt_client n' a)"
proof -
  have s: "sys_inv cfg (nt_sys (net_start queue))" "fresh a (net_start queue)"
    using sys_inv_start [of cfg queue] by (simp_all add: net_start_def fresh_def) (simp add: sys_start_def)
  have inv: "sys_inv cfg (nt_sys n)" using nt.run_safe [OF s(1) assms(1)] assms(2) by auto
  obtain w where "client_rel cfg a n w"
    using accepted_run [OF s(1) assms(1,2) s(2)] assms(3) by (auto split: option.splits)
  then have "length (nt_client n a) \<le> length (cp_output p)"
    using assms(3) by (auto simp: client_rel_def client_received_def wire_inv_def)
  with server_bytes_run [OF inv assms(3,4), of J indet k] assms(1,2) show ?thesis
    by (fastforce simp: run_steps_append admissible_run_append)
qed

theorem held_bytes_are_unbounded_witness:
  "\<exists>n p. run_steps (net_step example_json example_config no_message) (net_start ''proxyCtl'')
      (map Program example_net_sys @ replicate 1000000 (server_byte 0)) = Inr n \<and>
    live (nt_sys n) 0 = Some p \<and> 1000000 \<le> length (cp_output p) - length (nt_client n 0)"
proof -
  let ?n = "(net_start ''proxyCtl'')\<lparr>nt_sys := after example_net_sys\<rparr>"
  obtain p where p: "live (nt_sys ?n) 0 = Some p" "px_state p = FWD" using example_net_forwards by auto
  from held_bytes_are_unbounded [OF example_net_run(2,1) p, of 1000000] show ?thesis by blast
qed

end
