(* ===== verification/Amqp_Properties.thy ===== *)
theory Amqp_Properties
  imports Amqp_Metadata
begin

section \<open>AMQP: the accessors of the meta data\<close>

text \<open>
  The getters of \<open>include/amqpcpp/metadata.h\<close> and the setters that take an r-value, whose argument is
  left in a state that nothing may rely on. \<open>meta_property\<close> is what a getter, a setter and a presence
  test promise together; it is interpreted for each of the fourteen properties.
\<close>

subsection \<open>Getters and setters from r-values\<close>

definition getExpiration :: "'t metadata \<Rightarrow> octets" where
  [wire_simps]: "getExpiration m = md_expiration m"

definition getReplyTo :: "'t metadata \<Rightarrow> octets" where
  [wire_simps]: "getReplyTo m = md_replyTo m"

definition getCorrelationID :: "'t metadata \<Rightarrow> octets" where
  [wire_simps]: "getCorrelationID m = md_correlationID m"

definition getPriority :: "'t metadata \<Rightarrow> u8" where
  [wire_simps]: "getPriority m = md_priority m"

definition getDeliveryMode :: "'t metadata \<Rightarrow> u8" where
  [wire_simps]: "getDeliveryMode m = md_deliveryMode m"

definition getHeaders :: "'t metadata \<Rightarrow> 't" where
  [wire_simps]: "getHeaders m = md_headers m"

definition getContentEncoding :: "'t metadata \<Rightarrow> octets" where
  [wire_simps]: "getContentEncoding m = md_contentEncoding m"

definition getContentType :: "'t metadata \<Rightarrow> octets" where
  [wire_simps]: "getContentType m = md_contentType m"

definition getClusterID :: "'t metadata \<Rightarrow> octets" where
  [wire_simps]: "getClusterID m = md_clusterID m"

definition getAppID :: "'t metadata \<Rightarrow> octets" where
  [wire_simps]: "getAppID m = md_appID m"

definition getUserID :: "'t metadata \<Rightarrow> octets" where
  [wire_simps]: "getUserID m = md_userID m"

definition getTypeName :: "'t metadata \<Rightarrow> octets" where
  [wire_simps]: "getTypeName m = md_typeName m"

definition getTimestamp :: "'t metadata \<Rightarrow> u64" where
  [wire_simps]: "getTimestamp m = md_timestamp m"

definition getMessageID :: "'t metadata \<Rightarrow> octets" where
  [wire_simps]: "getMessageID m = md_messageID m"

definition moveExpiration :: "octets \<Rightarrow> 't metadata \<Rightarrow> 't metadata" where
  [wire_simps]: "moveExpiration v m = m\<lparr>md_expiration := v, md_bools1 := bs_set 0 True (md_bools1 m)\<rparr>"

definition moveReplyTo :: "octets \<Rightarrow> 't metadata \<Rightarrow> 't metadata" where
  [wire_simps]: "moveReplyTo v m = m\<lparr>md_replyTo := v, md_bools1 := bs_set 1 True (md_bools1 m)\<rparr>"

definition moveCorrelationID :: "octets \<Rightarrow> 't metadata \<Rightarrow> 't metadata" where
  [wire_simps]: "moveCorrelationID v m = m\<lparr>md_correlationID := v, md_bools1 := bs_set 2 True (md_bools1 m)\<rparr>"

definition moveHeaders :: "'t \<Rightarrow> 't metadata \<Rightarrow> 't metadata" where
  [wire_simps]: "moveHeaders v m = m\<lparr>md_headers := v, md_bools1 := bs_set 5 True (md_bools1 m)\<rparr>"

definition moveContentEncoding :: "octets \<Rightarrow> 't metadata \<Rightarrow> 't metadata" where
  [wire_simps]: "moveContentEncoding v m = m\<lparr>md_contentEncoding := v, md_bools1 := bs_set 6 True (md_bools1 m)\<rparr>"

definition moveContentType :: "octets \<Rightarrow> 't metadata \<Rightarrow> 't metadata" where
  [wire_simps]: "moveContentType v m = m\<lparr>md_contentType := v, md_bools1 := bs_set 7 True (md_bools1 m)\<rparr>"

definition moveClusterID :: "octets \<Rightarrow> 't metadata \<Rightarrow> 't metadata" where
  [wire_simps]: "moveClusterID v m = m\<lparr>md_clusterID := v, md_bools2 := bs_set 2 True (md_bools2 m)\<rparr>"

definition moveAppID :: "octets \<Rightarrow> 't metadata \<Rightarrow> 't metadata" where
  [wire_simps]: "moveAppID v m = m\<lparr>md_appID := v, md_bools2 := bs_set 3 True (md_bools2 m)\<rparr>"

definition moveUserID :: "octets \<Rightarrow> 't metadata \<Rightarrow> 't metadata" where
  [wire_simps]: "moveUserID v m = m\<lparr>md_userID := v, md_bools2 := bs_set 4 True (md_bools2 m)\<rparr>"

definition moveTypeName :: "octets \<Rightarrow> 't metadata \<Rightarrow> 't metadata" where
  [wire_simps]: "moveTypeName v m = m\<lparr>md_typeName := v, md_bools2 := bs_set 5 True (md_bools2 m)\<rparr>"

definition moveMessageID :: "octets \<Rightarrow> 't metadata \<Rightarrow> 't metadata" where
  [wire_simps]: "moveMessageID v m = m\<lparr>md_messageID := v, md_bools2 := bs_set 7 True (md_bools2 m)\<rparr>"

subsection \<open>The interface of a property\<close>

locale meta_property =
  fixes has :: "'m \<Rightarrow> bool" and get :: "'m \<Rightarrow> 'v" and put :: "'v \<Rightarrow> 'm \<Rightarrow> 'm"
  assumes has_put: "has (put v m)"
    and get_put: "get (put v m) = v"
begin

text \<open>The optional value of the property, and its last assignment in a list of assignments.\<close>

definition stored :: "'m \<Rightarrow> 'v option" where
  "stored m = (if has m then Some (get m) else None)"

lemma stored_put: "stored (put v m) = Some v"
  by (simp add: stored_def has_put get_put)

lemma stored_fold: "stored (fold put vs m) = (if vs = [] then stored m else Some (last vs))"
  by (induction vs arbitrary: m) (simp_all add: stored_put)

end

interpretation p_expiration: meta_property hasExpiration getExpiration setExpiration
  by unfold_locales (simp_all add: wire_simps bs_get_set)

interpretation p_replyTo: meta_property hasReplyTo getReplyTo setReplyTo
  by unfold_locales (simp_all add: wire_simps bs_get_set)

interpretation p_correlationID: meta_property hasCorrelationID getCorrelationID setCorrelationID
  by unfold_locales (simp_all add: wire_simps bs_get_set)

interpretation p_priority: meta_property hasPriority getPriority setPriority
  by unfold_locales (simp_all add: wire_simps bs_get_set)

interpretation p_deliveryMode: meta_property hasDeliveryMode getDeliveryMode setDeliveryMode
  by unfold_locales (simp_all add: wire_simps bs_get_set)

interpretation p_headers: meta_property hasHeaders getHeaders setHeaders
  by unfold_locales (simp_all add: wire_simps bs_get_set)

interpretation p_contentEncoding: meta_property hasContentEncoding getContentEncoding setContentEncoding
  by unfold_locales (simp_all add: wire_simps bs_get_set)

interpretation p_contentType: meta_property hasContentType getContentType setContentType
  by unfold_locales (simp_all add: wire_simps bs_get_set)

interpretation p_clusterID: meta_property hasClusterID getClusterID setClusterID
  by unfold_locales (simp_all add: wire_simps bs_get_set)

interpretation p_appID: meta_property hasAppID getAppID setAppID
  by unfold_locales (simp_all add: wire_simps bs_get_set)

interpretation p_userID: meta_property hasUserID getUserID setUserID
  by unfold_locales (simp_all add: wire_simps bs_get_set)

interpretation p_typeName: meta_property hasTypeName getTypeName setTypeName
  by unfold_locales (simp_all add: wire_simps bs_get_set)

interpretation p_timestamp: meta_property hasTimestamp getTimestamp setTimestamp
  by unfold_locales (simp_all add: wire_simps bs_get_set)

interpretation p_messageID: meta_property hasMessageID getMessageID setMessageID
  by unfold_locales (simp_all add: wire_simps bs_get_set)

subsection \<open>The fourteen properties together\<close>

datatype meta_key =
    K_expiration | K_replyTo | K_correlationID | K_priority | K_deliveryMode | K_headers | K_contentEncoding | K_contentType | K_clusterID | K_appID | K_userID | K_typeName | K_timestamp | K_messageID

datatype 't meta_value = V_str octets | V_num u64 | V_table 't

text \<open>A value of another type than the property cannot be passed to its setter.\<close>

fun meta_set :: "meta_key \<Rightarrow> 't meta_value \<Rightarrow> 't metadata \<Rightarrow> 't metadata" where
  "meta_set K_expiration v m = (case v of V_str s \<Rightarrow> setExpiration s m | _ \<Rightarrow> m)"
| "meta_set K_replyTo v m = (case v of V_str s \<Rightarrow> setReplyTo s m | _ \<Rightarrow> m)"
| "meta_set K_correlationID v m = (case v of V_str s \<Rightarrow> setCorrelationID s m | _ \<Rightarrow> m)"
| "meta_set K_priority v m = (case v of V_num n \<Rightarrow> setPriority (ucast n) m | _ \<Rightarrow> m)"
| "meta_set K_deliveryMode v m = (case v of V_num n \<Rightarrow> setDeliveryMode (ucast n) m | _ \<Rightarrow> m)"
| "meta_set K_headers v m = (case v of V_table t \<Rightarrow> setHeaders t m | _ \<Rightarrow> m)"
| "meta_set K_contentEncoding v m = (case v of V_str s \<Rightarrow> setContentEncoding s m | _ \<Rightarrow> m)"
| "meta_set K_contentType v m = (case v of V_str s \<Rightarrow> setContentType s m | _ \<Rightarrow> m)"
| "meta_set K_clusterID v m = (case v of V_str s \<Rightarrow> setClusterID s m | _ \<Rightarrow> m)"
| "meta_set K_appID v m = (case v of V_str s \<Rightarrow> setAppID s m | _ \<Rightarrow> m)"
| "meta_set K_userID v m = (case v of V_str s \<Rightarrow> setUserID s m | _ \<Rightarrow> m)"
| "meta_set K_typeName v m = (case v of V_str s \<Rightarrow> setTypeName s m | _ \<Rightarrow> m)"
| "meta_set K_timestamp v m = (case v of V_num n \<Rightarrow> setTimestamp n m | _ \<Rightarrow> m)"
| "meta_set K_messageID v m = (case v of V_str s \<Rightarrow> setMessageID s m | _ \<Rightarrow> m)"

fun meta_get :: "meta_key \<Rightarrow> 't metadata \<Rightarrow> 't meta_value option" where
  "meta_get K_expiration m = (if hasExpiration m then Some (V_str (getExpiration m)) else None)"
| "meta_get K_replyTo m = (if hasReplyTo m then Some (V_str (getReplyTo m)) else None)"
| "meta_get K_correlationID m = (if hasCorrelationID m then Some (V_str (getCorrelationID m)) else None)"
| "meta_get K_priority m = (if hasPriority m then Some (V_num (ucast (getPriority m))) else None)"
| "meta_get K_deliveryMode m = (if hasDeliveryMode m then Some (V_num (ucast (getDeliveryMode m))) else None)"
| "meta_get K_headers m = (if hasHeaders m then Some (V_table (getHeaders m)) else None)"
| "meta_get K_contentEncoding m = (if hasContentEncoding m then Some (V_str (getContentEncoding m)) else None)"
| "meta_get K_contentType m = (if hasContentType m then Some (V_str (getContentType m)) else None)"
| "meta_get K_clusterID m = (if hasClusterID m then Some (V_str (getClusterID m)) else None)"
| "meta_get K_appID m = (if hasAppID m then Some (V_str (getAppID m)) else None)"
| "meta_get K_userID m = (if hasUserID m then Some (V_str (getUserID m)) else None)"
| "meta_get K_typeName m = (if hasTypeName m then Some (V_str (getTypeName m)) else None)"
| "meta_get K_timestamp m = (if hasTimestamp m then Some (V_num (getTimestamp m)) else None)"
| "meta_get K_messageID m = (if hasMessageID m then Some (V_str (getMessageID m)) else None)"

text \<open>The values that are of the type of a property; the two numbers of eight bits have values below 256.\<close>

fun meta_fits :: "meta_key \<Rightarrow> 't meta_value \<Rightarrow> bool" where
  "meta_fits k (V_str s) \<longleftrightarrow> k \<notin> {K_priority, K_deliveryMode, K_timestamp, K_headers}"
| "meta_fits k (V_num n) \<longleftrightarrow> k = K_timestamp \<or> k \<in> {K_priority, K_deliveryMode} \<and> n < 256"
| "meta_fits k (V_table t) \<longleftrightarrow> k = K_headers"

lemma small_ucast: "n < 256 \<Longrightarrow> ucast (ucast (n :: u64) :: u8) = n"
proof -
  assume "n < 256"
  then have "uint n < 256" by (simp add: word_less_def)
  then show ?thesis by (simp add: word_uint_eq_iff unsigned_ucast_eq unsigned_take_bit_eq take_bit_int_eq_self)
qed

lemma meta_get_set:
  "meta_fits k v \<Longrightarrow> meta_get j (meta_set k v m) = (if j = k then Some v else meta_get j m)"
  by (cases k; cases v; cases j) (simp_all add: wire_simps bs_get_set small_ucast)

subsection \<open>Properties\<close>

text \<open>
  The properties of a message are independent: after any list of assignments to new meta data, each
  property is present exactly if it was assigned, and has the value of its last assignment,
  whatever was assigned to the others.
\<close>

theorem metadata_is_last_assignment:
  assumes "\<forall>(k, v) \<in> set as. meta_fits k v"
  shows "meta_get j (fold (\<lambda>(k, v). meta_set k v) as (new_MetaData T)) = map_of (rev as) j"
  using assms
proof (induction as rule: rev_induct)
  case Nil
  have "bs_get i (BooleanSet False False False False False False False False) = False" for i
    by (simp add: BooleanSet_def bs_get_set) (simp add: bs_get_bit)
  then show ?case by (cases j) (simp_all add: wire_simps new_MetaData_def)
next
  case (snoc a as)
  obtain k v where a: "a = (k, v)" by (cases a)
  with snoc.prems have "meta_fits k v" by simp
  with snoc a show ?case by (simp add: meta_get_set)
qed

theorem metadata_is_last_assignment_witness:
  "meta_get K_priority (fold (\<lambda>(k, v). meta_set k v)
      [(K_priority, V_num 3), (K_appID, V_str [65]), (K_priority, V_num 9)] (new_MetaData unit_table)) = Some (V_num 9)"
proof -
  have f: "\<forall>(k, v) \<in> set [(K_priority, V_num 3), (K_appID, V_str [65]), (K_priority, V_num 9)]. meta_fits k v"
    by simp
  show ?thesis using metadata_is_last_assignment [OF f, of K_priority unit_table] by simp
qed

end
