(* ===== verification/Amqp_Output.thy ===== *)
theory Amqp_Output
  imports Amqp_Fields Streams
begin

section \<open>AMQP: printing fields, and reading them through proxies\<close>

text \<open>
  The virtual \<open>output\<close> of the fields, the stream operators of \<open>field.h\<close>, \<open>array.h\<close> and \<open>table.h\<close>, and
  the reading half of \<open>fieldproxy.h\<close>. A stream operator yields the characters it writes. Integers of
  8 bits are characters to a stream; a decimal is printed as a \<open>double\<close>, which is the argument \<open>dec\<close>.
  The lookups \<open>Table::get\<close> and \<open>Array::get\<close> are in the prebuilt library and are arguments.
\<close>

definition chars_of :: "octets \<Rightarrow> string" where
  "chars_of bs = map (\<lambda>b. char_of (unat b)) bs"

definition Numeric_output :: "string \<Rightarrow> string" where
  "Numeric_output shown = ''numeric('' @ shown @ '')''"

definition String_output :: "octets \<Rightarrow> string" where
  "String_output s = ''string('' @ chars_of s @ '')''"

definition Decimal_output :: "(decimal_field \<Rightarrow> string) \<Rightarrow> decimal_field \<Rightarrow> string" where
  "Decimal_output dec d = ''decimal('' @ dec d @ '')''"

text \<open>The loop \<open>for (int i=0; i<8; i++)\<close>.\<close>

function bs_output_loop :: "byte \<Rightarrow> nat \<Rightarrow> string" where
  "bs_output_loop b i =
     (if i < 8
      then (if i = 0 then '''' else '','') @ (if bs_get (of_nat i) b then ''1'' else ''0'') @ bs_output_loop b (Suc i)
      else '''')"
  by pat_completeness auto
termination
  by (relation "measure (\<lambda>(b, i). 8 - i)") simp_all

declare bs_output_loop.simps [simp del]

definition BooleanSet_output :: "byte \<Rightarrow> string" where
  "BooleanSet_output b = ''booleanset('' @ bs_output_loop b 0 @ '')''"

text \<open>The loops over the elements carry the flag \<open>first\<close>.\<close>

fun Field_output :: "(decimal_field \<Rightarrow> string) \<Rightarrow> field \<Rightarrow> string"
  and Array_output_loop :: "(decimal_field \<Rightarrow> string) \<Rightarrow> bool \<Rightarrow> field list \<Rightarrow> string"
  and Table_output_loop :: "(decimal_field \<Rightarrow> string) \<Rightarrow> bool \<Rightarrow> (octets \<times> field) list \<Rightarrow> string"
where
  "Field_output dec (F_Octet v) = Numeric_output [char_of (unat v)]"
| "Field_output dec (F_UOctet v) = Numeric_output [char_of (unat v)]"
| "Field_output dec (F_Short v) = Numeric_output (show_int (sint v))"
| "Field_output dec (F_UShort v) = Numeric_output (show_int (uint v))"
| "Field_output dec (F_Long v) = Numeric_output (show_int (sint v))"
| "Field_output dec (F_ULong v) = Numeric_output (show_int (uint v))"
| "Field_output dec (F_LongLong v) = Numeric_output (show_int (sint v))"
| "Field_output dec (F_ULongLong v) = Numeric_output (show_int (uint v))"
| "Field_output dec (F_Timestamp v) = Numeric_output (show_int (uint v))"
| "Field_output dec (F_Boolean b) = BooleanSet_output b"
| "Field_output dec (F_Decimal d) = Decimal_output dec d"
| "Field_output dec (F_ShortString s) = String_output s"
| "Field_output dec (F_LongString s) = String_output s"
| "Field_output dec (F_Array fs) = ''array('' @ Array_output_loop dec True fs @ '')''"
| "Field_output dec (F_Table t) = ''table('' @ Table_output_loop dec True t @ '')''"
| "Array_output_loop dec first [] = ''''"
| "Array_output_loop dec first (f # fs) =
     (if \<not> first then '','' else '''') @ Field_output dec f @ Array_output_loop dec False fs"
| "Table_output_loop dec first [] = ''''"
| "Table_output_loop dec first ((n, f) # t) =
     (if \<not> first then '','' else '''') @ chars_of n @ '':'' @ Field_output dec f @ Table_output_loop dec False t"

definition Array_output :: "(decimal_field \<Rightarrow> string) \<Rightarrow> field list \<Rightarrow> string" where
  "Array_output dec fs = ''array('' @ Array_output_loop dec True fs @ '')''"

definition Table_output :: "(decimal_field \<Rightarrow> string) \<Rightarrow> table \<Rightarrow> string" where
  "Table_output dec t = ''table('' @ Table_output_loop dec True t @ '')''"

subsection \<open>Reading through a proxy\<close>

definition table_proxy_get :: "(octets \<Rightarrow> table \<Rightarrow> field) \<Rightarrow> octets \<Rightarrow> table \<Rightarrow> field" where
  "table_proxy_get get name t = get name t"

definition table_proxy_cast :: "(octets \<Rightarrow> table \<Rightarrow> field) \<Rightarrow> octets \<Rightarrow> table \<Rightarrow> 'b::len word" where
  "table_proxy_cast get name t = field_to_int (get name t)"

definition array_proxy_get :: "(u8 \<Rightarrow> field list \<Rightarrow> field) \<Rightarrow> u8 \<Rightarrow> field list \<Rightarrow> field" where
  "array_proxy_get get index fs = get index fs"

definition array_proxy_cast :: "(u8 \<Rightarrow> field list \<Rightarrow> field) \<Rightarrow> u8 \<Rightarrow> field list \<Rightarrow> 'b::len word" where
  "array_proxy_cast get index fs = field_to_int (get index fs)"

definition array_proxy_output ::
  "(u8 \<Rightarrow> field list \<Rightarrow> field) \<Rightarrow> (decimal_field \<Rightarrow> string) \<Rightarrow> u8 \<Rightarrow> field list \<Rightarrow> string" where
  "array_proxy_output get dec index fs = Field_output dec (array_proxy_get get index fs)"

definition table_proxy_output ::
  "(octets \<Rightarrow> table \<Rightarrow> field) \<Rightarrow> (decimal_field \<Rightarrow> string) \<Rightarrow> octets \<Rightarrow> table \<Rightarrow> string" where
  "table_proxy_output get dec name t = Field_output dec (table_proxy_get get name t)"

text \<open>The integer a C++ value stands for.\<close>

fun cpp_int :: "cpp_value \<Rightarrow> int option" where
  "cpp_int (C_uint8 v) = Some (uint v)"
| "cpp_int (C_int8 v) = Some (sint v)"
| "cpp_int (C_uint16 v) = Some (uint v)"
| "cpp_int (C_int16 v) = Some (sint v)"
| "cpp_int (C_uint32 v) = Some (uint v)"
| "cpp_int (C_int32 v) = Some (sint v)"
| "cpp_int (C_uint64 v) = Some (uint v)"
| "cpp_int (C_int64 v) = Some (sint v)"
| "cpp_int _ = None"

lemma field_to_int_of: "field_to_int (field_of v) = (case cpp_int v of None \<Rightarrow> 0 | Some i \<Rightarrow> word_of_int i)"
  by (cases v) (simp_all add: Numeric_cast_def)

subsection \<open>The printed form\<close>

fun join :: "string \<Rightarrow> string list \<Rightarrow> string" where
  "join sep [] = ''''"
| "join sep [x] = x"
| "join sep (x # y # ys) = x @ sep @ join sep (y # ys)"

lemma join_Cons: "join sep (x # xs) = x @ concat (map (\<lambda>y. sep @ y) xs)"
  by (induction xs arbitrary: x) simp_all

lemma Array_output_loop_rest:
  "Array_output_loop dec False fs = concat (map (\<lambda>f. '','' @ Field_output dec f) fs)"
  by (induction fs) simp_all

lemma Table_output_loop_rest:
  "Table_output_loop dec False t = concat (map (\<lambda>(n, f). '','' @ chars_of n @ '':'' @ Field_output dec f) t)"
  by (induction t) auto

text \<open>
  The loops that print arrays, tables and boolean sets write what they enclose separated by commas:
  no comma before the first element, none after the last, none for an empty array or table.
\<close>

theorem containers_print_joined:
  "Array_output dec fs = ''array('' @ join '','' (map (Field_output dec) fs) @ '')'' \<and>
   Table_output dec t =
     ''table('' @ join '','' (map (\<lambda>(n, f). chars_of n @ '':'' @ Field_output dec f) t) @ '')'' \<and>
   BooleanSet_output b =
     ''booleanset('' @ join '','' (map (\<lambda>i. if bs_get i b then ''1'' else ''0'') [0, 1, 2, 3, 4, 5, 6, 7]) @ '')''"
proof (intro conjI)
  show "Array_output dec fs = ''array('' @ join '','' (map (Field_output dec) fs) @ '')''"
    by (cases fs) (simp_all add: Array_output_def join_Cons Array_output_loop_rest comp_def)
  show "Table_output dec t =
     ''table('' @ join '','' (map (\<lambda>(n, f). chars_of n @ '':'' @ Field_output dec f) t) @ '')''"
    by (cases t) (auto simp: Table_output_def join_Cons Table_output_loop_rest comp_def split_def)
  show "BooleanSet_output b =
     ''booleanset('' @ join '','' (map (\<lambda>i. if bs_get i b then ''1'' else ''0'') [0, 1, 2, 3, 4, 5, 6, 7]) @ '')''"
    by (simp add: BooleanSet_output_def bs_output_loop.simps)
qed

text \<open>
  What is assigned through a proxy of a table is read back through one: as any integer type, an
  integer comes back reduced to that type and every other value as 0; the other entries of the
  table are not concerned.
\<close>

theorem table_proxy_roundtrip:
  assumes "table_ok t" and "\<forall>n t f. map_of t n = Some f \<longrightarrow> get n t = f"
  shows "table_proxy_get get name (table_proxy_assign name v t) = field_of v \<and>
    (table_proxy_cast get name (table_proxy_assign name v t) :: 'b::len word) =
      (case cpp_int v of None \<Rightarrow> 0 | Some i \<Rightarrow> word_of_int i) \<and>
    (\<forall>m f. m \<noteq> name \<and> map_of t m = Some f \<longrightarrow> table_proxy_get get m (table_proxy_assign name v t) = f)"
proof -
  have m: "map_of (table_proxy_assign name v t) = (map_of t)(name \<mapsto> field_of v)"
    using map_assign_map_of [OF assms(1)] by (simp add: table_proxy_assign_def Table_set_def)
  then have "get name (table_proxy_assign name v t) = field_of v" by (intro assms(2) [rule_format]) simp
  moreover have "get k (table_proxy_assign name v t) = f" if "k \<noteq> name" "map_of t k = Some f" for k f
    using m that by (intro assms(2) [rule_format]) simp
  ultimately show ?thesis by (simp add: table_proxy_get_def table_proxy_cast_def field_to_int_of)
qed

definition lookup_field :: "octets \<Rightarrow> table \<Rightarrow> field" where
  "lookup_field name t = (case map_of t name of None \<Rightarrow> F_ShortString [] | Some f \<Rightarrow> f)"

theorem table_proxy_roundtrip_witness:
  "(table_proxy_cast lookup_field [5] (table_proxy_assign [5] (C_int16 (-2)) [([4], F_Boolean 1)]) :: u8) = - 2"
proof -
  have h: "table_ok [([4 :: byte], F_Boolean 1)]" "\<forall>n t f. map_of t n = Some f \<longrightarrow> lookup_field n t = f"
    by (simp_all add: table_ok_def lookup_field_def)
  show ?thesis using table_proxy_roundtrip [OF h, where name = "[5]" and v = "C_int16 (-2)" and 'b = 8] by simp
qed

text \<open>
  An integer of 8 bits is printed as the character with its code, every wider one in decimal digits.
\<close>

theorem small_integers_print_as_characters:
  "Field_output dec (F_UOctet 65) = ''numeric(A)'' \<and> Field_output dec (F_UShort 65) = ''numeric(65)''"
proof -
  have "show_int 65 = ''65''" "char_of (65 :: nat) = CHR ''A''" by code_simp+
  then show ?thesis by (simp add: Numeric_output_def)
qed

end
