(* ===== verification/Amqp_Field_Classes.thy ===== *)
theory Amqp_Field_Classes
  imports Amqp_Fields
begin

section \<open>AMQP: the field classes\<close>

text \<open>
  The constructors, copies, assignments and accessors of \<open>numericfield.h\<close>, \<open>stringfield.h\<close>,
  \<open>decimalfield.h\<close> and \<open>booleanset.h\<close>, and the constructors that read a value from a frame. An object
  of one of these classes is its value. The signed integers of a frame are read by functions of the
  prebuilt library, like the unsigned ones.
\<close>

subsection \<open>NumericField\<close>

definition new_Numeric :: "'a::len word" where
  "new_Numeric = 0"

definition Numeric_of :: "'a::len word \<Rightarrow> 'a word" where
  "Numeric_of v = v"

definition Numeric_clone :: "'a::len word \<Rightarrow> 'a word" where
  "Numeric_clone v = Numeric_of v"

definition Numeric_assign :: "'a::len word \<Rightarrow> 'a word \<Rightarrow> 'a word" where
  "Numeric_assign v self = v"

definition Numeric_value :: "'a::len word \<Rightarrow> 'a word" where
  "Numeric_value v = v"

subsection \<open>StringField\<close>

text \<open>What a string holds after it was moved from is unspecified: the argument \<open>rest\<close>.\<close>

definition new_String :: octets where
  "new_String = []"

definition String_of :: "octets \<Rightarrow> octets" where
  "String_of s = s"

definition String_take :: "octets \<Rightarrow> octets \<Rightarrow> octets \<times> octets" where
  "String_take rest s = (s, rest)"

definition String_clone :: "octets \<Rightarrow> octets" where
  "String_clone s = String_of s"

definition String_assign :: "octets \<Rightarrow> octets \<Rightarrow> octets" where
  "String_assign s self = s"

definition String_assign_take :: "octets \<Rightarrow> octets \<Rightarrow> octets \<Rightarrow> octets \<times> octets" where
  "String_assign_take rest s self = (s, rest)"

definition String_cast :: "octets \<Rightarrow> octets" where
  "String_cast s = s"

definition String_value :: "octets \<Rightarrow> octets" where
  "String_value s = s"

subsection \<open>DecimalField\<close>

definition new_Decimal :: "u8 \<Rightarrow> u32 \<Rightarrow> decimal_field" where
  "new_Decimal places number = \<lparr>dec_places = places, dec_number = number\<rparr>"

definition Decimal_clone :: "decimal_field \<Rightarrow> decimal_field" where
  "Decimal_clone d = new_Decimal (dec_places d) (dec_number d)"

text \<open>\<open>same\<close>: the argument is the object itself.\<close>

definition Decimal_assign :: "bool \<Rightarrow> decimal_field \<Rightarrow> decimal_field \<Rightarrow> decimal_field" where
  "Decimal_assign same v self =
     (if same then self else self\<lparr>dec_places := dec_places v, dec_number := dec_number v\<rparr>)"

definition Decimal_neq :: "decimal_field \<Rightarrow> decimal_field \<Rightarrow> bool" where
  "Decimal_neq a b \<longleftrightarrow> \<not> Decimal_eq a b"

definition Decimal_places :: "decimal_field \<Rightarrow> u8" where
  "Decimal_places d = dec_places d"

definition Decimal_number :: "decimal_field \<Rightarrow> u32" where
  "Decimal_number d = dec_number d"

definition Decimal_value :: "decimal_field \<Rightarrow> decimal_field" where
  "Decimal_value d = d"

subsection \<open>BooleanSet\<close>

definition BooleanSet_copy :: "byte \<Rightarrow> byte" where
  "BooleanSet_copy b = b"

definition BooleanSet_clone :: "byte \<Rightarrow> byte" where
  "BooleanSet_clone b = BooleanSet_copy b"

definition BooleanSet_value :: "byte \<Rightarrow> byte" where
  "BooleanSet_value b = b"

definition BooleanSet_decode :: "'f frame_reader \<Rightarrow> 'f \<Rightarrow> (byte \<times> 'f) option" where
  "BooleanSet_decode R = nextUint8 R"

subsection \<open>Reading a field of a class\<close>

datatype field_class =
    Cl_Octet | Cl_UOctet | Cl_Short | Cl_UShort | Cl_Long | Cl_ULong | Cl_LongLong | Cl_ULongLong
  | Cl_Timestamp | Cl_Boolean | Cl_Decimal | Cl_ShortString | Cl_LongString | Cl_Array | Cl_Table

fun class_of :: "field \<Rightarrow> field_class" where
  "class_of (F_Octet v) = Cl_Octet"
| "class_of (F_UOctet v) = Cl_UOctet"
| "class_of (F_Short v) = Cl_Short"
| "class_of (F_UShort v) = Cl_UShort"
| "class_of (F_Long v) = Cl_Long"
| "class_of (F_ULong v) = Cl_ULong"
| "class_of (F_LongLong v) = Cl_LongLong"
| "class_of (F_ULongLong v) = Cl_ULongLong"
| "class_of (F_Timestamp v) = Cl_Timestamp"
| "class_of (F_Boolean b) = Cl_Boolean"
| "class_of (F_Decimal d) = Cl_Decimal"
| "class_of (F_ShortString s) = Cl_ShortString"
| "class_of (F_LongString s) = Cl_LongString"
| "class_of (F_Array fs) = Cl_Array"
| "class_of (F_Table t) = Cl_Table"

definition scalar :: "field \<Rightarrow> bool" where
  "scalar v \<longleftrightarrow> class_of v \<noteq> Cl_Array \<and> class_of v \<noteq> Cl_Table"

record 'f signed_reader =
  nextInt8 :: "'f \<Rightarrow> (8 word \<times> 'f) option"
  nextInt16 :: "'f \<Rightarrow> (16 word \<times> 'f) option"
  nextInt32 :: "'f \<Rightarrow> (32 word \<times> 'f) option"
  nextInt64 :: "'f \<Rightarrow> (64 word \<times> 'f) option"

definition signed_laws :: "('f \<Rightarrow> octets) \<Rightarrow> 'f signed_reader \<Rightarrow> bool" where
  "signed_laws left N \<longleftrightarrow>
     (\<forall>w. reads left (nextInt8 N) w (be_of_word w)) \<and> (\<forall>w. reads left (nextInt16 N) w (be_of_word w)) \<and>
     (\<forall>w. reads left (nextInt32 N) w (be_of_word w)) \<and> (\<forall>w. reads left (nextInt64 N) w (be_of_word w))"

definition rd_map :: "('a \<Rightarrow> 'b) \<Rightarrow> ('f \<Rightarrow> ('a \<times> 'f) option) \<Rightarrow> 'f \<Rightarrow> ('b \<times> 'f) option" where
  "rd_map g m = rd_bind m (\<lambda>x. rd_return (g x))"

lemma reads_map: "reads left m x bs \<Longrightarrow> reads left (rd_map g m) (g x) bs"
  using reads_bind [of left m x bs "\<lambda>x. rd_return (g x)" "g x" "[]"] by (simp add: rd_map_def reads_return)

text \<open>The reading constructor of \<open>NumericField\<close>: its tests of the type are the cases of the class.\<close>

fun Numeric_construct ::
  "'f frame_reader \<Rightarrow> 'f signed_reader \<Rightarrow> field_class \<Rightarrow> 'f \<Rightarrow> (field \<times> 'f) option" where
  "Numeric_construct R N Cl_Octet = rd_map F_Octet (nextInt8 N)"
| "Numeric_construct R N Cl_Short = rd_map F_Short (nextInt16 N)"
| "Numeric_construct R N Cl_Long = rd_map F_Long (nextInt32 N)"
| "Numeric_construct R N Cl_LongLong = rd_map F_LongLong (nextInt64 N)"
| "Numeric_construct R N Cl_UOctet = rd_map F_UOctet (nextUint8 R)"
| "Numeric_construct R N Cl_UShort = rd_map F_UShort (nextUint16 R)"
| "Numeric_construct R N Cl_ULong = rd_map F_ULong (nextUint32 R)"
| "Numeric_construct R N Cl_ULongLong = rd_map F_ULongLong (nextUint64 R)"
| "Numeric_construct R N Cl_Timestamp = rd_map F_Timestamp (nextUint64 R)"
| "Numeric_construct R N c = (\<lambda>f. None)"

fun Field_construct ::
  "'f frame_reader \<Rightarrow> 'f signed_reader \<Rightarrow> field_class \<Rightarrow> 'f \<Rightarrow> (field \<times> 'f) option" where
  "Field_construct R N Cl_Boolean = rd_map F_Boolean (BooleanSet_decode R)"
| "Field_construct R N Cl_Decimal = rd_map F_Decimal (Decimal_decode R)"
| "Field_construct R N Cl_ShortString = rd_map F_ShortString (ShortString_decode R)"
| "Field_construct R N Cl_LongString = rd_map F_LongString (LongString_decode R)"
| "Field_construct R N c = Numeric_construct R N c"

fun scalar_ok :: "field \<Rightarrow> bool" where
  "scalar_ok (F_ShortString s) \<longleftrightarrow> short_ok s"
| "scalar_ok (F_LongString s) \<longleftrightarrow> long_ok s"
| "scalar_ok v \<longleftrightarrow> scalar v"

lemma Numeric_fill_be: "Numeric_fill w = be_of_word w"
  by (simp add: Numeric_fill_def add_word_def)

lemma Field_construct_reads:
  assumes R: "reader_laws R" and N: "signed_laws (unread R) N" and ok: "scalar_ok v"
  shows "reads (unread R) (Field_construct R N (class_of v)) v (Field_fill lib v)"
proof -
  have s: "reads (unread R) (nextInt8 N) a (be_of_word a)" "reads (unread R) (nextInt16 N) b (be_of_word b)"
      "reads (unread R) (nextInt32 N) c (be_of_word c)" "reads (unread R) (nextInt64 N) d (be_of_word d)"
    for a b c d using N by (simp_all add: signed_laws_def)
  note u = reads_words [OF R]
  show ?thesis
    using ok by (cases v)
      (auto simp: scalar_def BooleanSet_decode_def add_word_def Numeric_fill_be intro!: reads_map s [simplified] u [simplified] Decimal_reads [OF R]
        ShortString_reads [OF R] LongString_reads [OF R])
qed


definition list_signed :: "octets signed_reader" where
  "list_signed =
     \<lparr>nextInt8 = (\<lambda>bs. map_option (apfst word_of_be) (take_octets 1 bs)),
      nextInt16 = (\<lambda>bs. map_option (apfst word_of_be) (take_octets 2 bs)),
      nextInt32 = (\<lambda>bs. map_option (apfst word_of_be) (take_octets 4 bs)),
      nextInt64 = (\<lambda>bs. map_option (apfst word_of_be) (take_octets 8 bs))\<rparr>"

lemma list_signed_laws: "signed_laws (unread list_reader) list_signed"
  using list_reader_laws by (simp add: reader_laws_def signed_laws_def list_reader_def list_signed_def)


text \<open>
  What the length field of a short string does: whatever its length, the string read back from the
  octets it filled in is its prefix of the length modulo 256, and the rest of it is left in front of
  what follows; so it is read back exactly if it has at most 255 octets.
\<close>

theorem short_string_is_truncated:
  assumes "reader_laws R" and "unread R f = ShortString_fill s @ rest"
  shows "\<exists>f'. ShortString_decode R f = Some (take (length s mod 256) s, f') \<and>
    unread R f' = drop (length s mod 256) s @ rest \<and>
    (take (length s mod 256) s = s \<longleftrightarrow> length s \<le> 255)"
proof -
  let ?n = "length s mod 256" and ?w = "of_nat (length s) :: u8"
  have n: "unat (ucast ?w :: u32) = length (take ?n s)"
    by (simp add: unsigned_ucast_eq unat_of_nat take_bit_eq_mod min_absorb2)
  have "reads (unread R) (ShortString_decode R) (take ?n s) (Numeric_fill ?w @ take ?n s)"
    unfolding ShortString_decode_def
    by (rule reads_bind [OF uoctet.decode_fill [OF assms(1)]]) (rule reads_data [OF assms(1)], simp only: n)
  moreover have "unread R f = (Numeric_fill ?w @ take ?n s) @ (drop ?n s @ rest)"
    using assms(2) by (simp add: ShortString_fill_def add_block_def)
  moreover have "take ?n s = s \<longleftrightarrow> length s \<le> 255"
  proof
    assume "take ?n s = s"
    then have "length s \<le> ?n" by (metis length_take min.absorb_iff2 min.commute linorder_le_cases order_refl)
    moreover have "?n < 256" by simp
    ultimately show "length s \<le> 255" by linarith
  qed simp
  ultimately show ?thesis unfolding reads_def by blast
qed

theorem short_string_is_truncated_witness:
  "\<exists>f'. ShortString_decode list_reader (ShortString_fill (replicate 257 9) @ [1]) = Some ([9], f') \<and>
    f' = replicate 256 9 @ [1]"
proof -
  have "unread list_reader (ShortString_fill (replicate 257 9) @ [1]) = ShortString_fill (replicate 257 9) @ [1]"
    by (simp add: list_reader_def)
  from short_string_is_truncated [OF list_reader_laws this] show ?thesis
    by (simp add: list_reader_def take_replicate drop_replicate)
qed

end
