(* ===== verification/Amqp_Field_Objects.thy ===== *)
theory Amqp_Field_Objects
  imports Amqp_Field_Classes
begin

section \<open>AMQP: field objects, containers and sharing\<close>

text \<open>
  \<open>Amqp_Fields\<close> models an array or table as the value it holds. In the code its members are
  \<open>std::shared_ptr<Field>\<close>: pointers to objects that could be shared. Here a container is an object in
  a store whose members are addresses, \<open>clone\<close> is the virtual function that makes a new object, and a
  program is a sequence of C++ statements on variables. The copy constructors of \<open>Array\<close> and \<open>Table\<close> are
  in the prebuilt library and copy the members (\<open>field_lib\<close>); their laws say that the copies have the
  same values and are new objects. The theorem at the end says that with these pointers the values
  of the simple model are what a program sees.
\<close>

datatype fobj =
    Scalar_obj field
  | Array_obj "addr list"
  | Table_obj "(octets \<times> addr) list"

record store =
  st_obj :: "addr \<Rightarrow> fobj option"
  st_next :: addr

record field_lib =
  fl_copy_array :: "addr list \<Rightarrow> store \<Rightarrow> addr list \<times> store"
  fl_copy_table :: "(octets \<times> addr) list \<Rightarrow> store \<Rightarrow> (octets \<times> addr) list \<times> store"

text \<open>\<open>std::make_shared\<close>, or the declaration of a variable: an object at a new address.\<close>

definition make_obj :: "fobj \<Rightarrow> store \<Rightarrow> addr \<times> store" where
  "make_obj ob st = (st_next st, st\<lparr>st_obj := (st_obj st)(st_next st \<mapsto> ob), st_next := Suc (st_next st)\<rparr>)"

subsection \<open>Constructors and clone\<close>

definition new_Array :: fobj where
  "new_Array = Array_obj []"

definition new_Table :: fobj where
  "new_Table = Table_obj []"

text \<open>The move constructors: the new object, and what is left of the old one.\<close>

definition Array_move :: "addr list \<Rightarrow> fobj \<times> fobj" where
  "Array_move as = (Array_obj as, Array_obj [])"

definition Table_move :: "(octets \<times> addr) list \<Rightarrow> fobj \<times> fobj" where
  "Table_move es = (Table_obj es, Table_obj [])"

definition Array_clone :: "field_lib \<Rightarrow> addr list \<Rightarrow> store \<Rightarrow> addr \<times> store" where
  "Array_clone L as st = (case fl_copy_array L as st of (as', st') \<Rightarrow> make_obj (Array_obj as') st')"

definition Table_clone :: "field_lib \<Rightarrow> (octets \<times> addr) list \<Rightarrow> store \<Rightarrow> addr \<times> store" where
  "Table_clone L es st = (case fl_copy_table L es st of (es', st') \<Rightarrow> make_obj (Table_obj es') st')"

fun scalar_clone :: "field \<Rightarrow> field" where
  "scalar_clone (F_Octet v) = F_Octet (Numeric_clone v)"
| "scalar_clone (F_UOctet v) = F_UOctet (Numeric_clone v)"
| "scalar_clone (F_Short v) = F_Short (Numeric_clone v)"
| "scalar_clone (F_UShort v) = F_UShort (Numeric_clone v)"
| "scalar_clone (F_Long v) = F_Long (Numeric_clone v)"
| "scalar_clone (F_ULong v) = F_ULong (Numeric_clone v)"
| "scalar_clone (F_LongLong v) = F_LongLong (Numeric_clone v)"
| "scalar_clone (F_ULongLong v) = F_ULongLong (Numeric_clone v)"
| "scalar_clone (F_Timestamp v) = F_Timestamp (Numeric_clone v)"
| "scalar_clone (F_Boolean b) = F_Boolean (BooleanSet_clone b)"
| "scalar_clone (F_Decimal d) = F_Decimal (Decimal_clone d)"
| "scalar_clone (F_ShortString s) = F_ShortString (String_clone s)"
| "scalar_clone (F_LongString s) = F_LongString (String_clone s)"
| "scalar_clone v = v"

definition obj_clone :: "field_lib \<Rightarrow> fobj \<Rightarrow> store \<Rightarrow> addr \<times> store" where
  "obj_clone L ob st =
     (case ob of
        Scalar_obj v \<Rightarrow> make_obj (Scalar_obj (scalar_clone v)) st
      | Array_obj as \<Rightarrow> Array_clone L as st
      | Table_obj es \<Rightarrow> Table_clone L es st)"

subsection \<open>Assignment and set\<close>

text \<open>The assignment to a field object of a value of its class.\<close>

fun scalar_assign :: "field \<Rightarrow> field \<Rightarrow> field option" where
  "scalar_assign (F_Octet v) w = (case w of F_Octet u \<Rightarrow> Some (F_Octet (Numeric_assign v u)) | _ \<Rightarrow> None)"
| "scalar_assign (F_UOctet v) w = (case w of F_UOctet u \<Rightarrow> Some (F_UOctet (Numeric_assign v u)) | _ \<Rightarrow> None)"
| "scalar_assign (F_Short v) w = (case w of F_Short u \<Rightarrow> Some (F_Short (Numeric_assign v u)) | _ \<Rightarrow> None)"
| "scalar_assign (F_UShort v) w = (case w of F_UShort u \<Rightarrow> Some (F_UShort (Numeric_assign v u)) | _ \<Rightarrow> None)"
| "scalar_assign (F_Long v) w = (case w of F_Long u \<Rightarrow> Some (F_Long (Numeric_assign v u)) | _ \<Rightarrow> None)"
| "scalar_assign (F_ULong v) w = (case w of F_ULong u \<Rightarrow> Some (F_ULong (Numeric_assign v u)) | _ \<Rightarrow> None)"
| "scalar_assign (F_LongLong v) w = (case w of F_LongLong u \<Rightarrow> Some (F_LongLong (Numeric_assign v u)) | _ \<Rightarrow> None)"
| "scalar_assign (F_ULongLong v) w = (case w of F_ULongLong u \<Rightarrow> Some (F_ULongLong (Numeric_assign v u)) | _ \<Rightarrow> None)"
| "scalar_assign (F_Timestamp v) w = (case w of F_Timestamp u \<Rightarrow> Some (F_Timestamp (Numeric_assign v u)) | _ \<Rightarrow> None)"
| "scalar_assign (F_Boolean v) w = (case w of F_Boolean u \<Rightarrow> Some (F_Boolean (BooleanSet_copy v)) | _ \<Rightarrow> None)"
| "scalar_assign (F_Decimal v) w = (case w of F_Decimal u \<Rightarrow> Some (F_Decimal (Decimal_assign False v u)) | _ \<Rightarrow> None)"
| "scalar_assign (F_ShortString v) w = (case w of F_ShortString u \<Rightarrow> Some (F_ShortString (String_assign v u)) | _ \<Rightarrow> None)"
| "scalar_assign (F_LongString v) w = (case w of F_LongString u \<Rightarrow> Some (F_LongString (String_assign v u)) | _ \<Rightarrow> None)"
| "scalar_assign (F_Array fs) w = None"
| "scalar_assign (F_Table t) w = None"

text \<open>
  \<open>Array::set\<close> clones the value, stores the pointer and returns a copy of the array, which the
  statement drops; \<open>Table::set\<close> returns a reference. The argument may be the container itself.
\<close>

definition Array_obj_set :: "field_lib \<Rightarrow> addr \<Rightarrow> u8 \<Rightarrow> fobj \<Rightarrow> store \<Rightarrow> store option" where
  "Array_obj_set L x index value st =
     (case obj_clone L value st of (ptr, st1) \<Rightarrow>
        (case st_obj st1 x of
           Some (Array_obj as) \<Rightarrow>
             (let as' = (if length as \<le> unat index then as @ [ptr] else as[unat index := ptr]);
                  st2 = st1\<lparr>st_obj := (st_obj st1)(x \<mapsto> Array_obj as')\<rparr>
              in Some (snd (Array_clone L as' st2)))
         | _ \<Rightarrow> None))"

definition Table_obj_set :: "field_lib \<Rightarrow> addr \<Rightarrow> octets \<Rightarrow> fobj \<Rightarrow> store \<Rightarrow> store option" where
  "Table_obj_set L x name value st =
     (case obj_clone L value st of (ptr, st1) \<Rightarrow>
        (case st_obj st1 x of
           Some (Table_obj es) \<Rightarrow>
             Some (st1\<lparr>st_obj := (st_obj st1)(x \<mapsto> Table_obj (map_assign name ptr es))\<rparr>)
         | _ \<Rightarrow> None))"

subsection \<open>Programs\<close>

type_synonym var = string

datatype field_stmt =
    Declare_scalar var field
  | Declare_array var
  | Declare_table var
  | Declare_copy var var
  | Declare_move var var
  | Assign_scalar var field
  | Set_index var u8 var
  | Set_name var octets var

text \<open>A statement that does not compile has no effect; it ends the program.\<close>

datatype ill_formed = Ill_formed

record field_program =
  fp_vars :: "var \<Rightarrow> addr option"
  fp_store :: store

definition declare_obj :: "var \<Rightarrow> addr \<times> store \<Rightarrow> field_program \<Rightarrow> ill_formed + field_program" where
  "declare_obj x r ps =
     (if fp_vars ps x \<noteq> None then Inl Ill_formed
      else Inr (ps\<lparr>fp_vars := (fp_vars ps)(x \<mapsto> fst r), fp_store := snd r\<rparr>))"

definition obj_at :: "field_program \<Rightarrow> var \<Rightarrow> (addr \<times> fobj) option" where
  "obj_at ps x =
     (case fp_vars ps x of None \<Rightarrow> None | Some a \<Rightarrow> map_option (Pair a) (st_obj (fp_store ps) a))"

fun obj_step :: "field_lib \<Rightarrow> field_program \<Rightarrow> field_stmt \<Rightarrow> ill_formed + field_program" where
  "obj_step L ps (Declare_scalar x v) =
     (if scalar v then declare_obj x (make_obj (Scalar_obj v) (fp_store ps)) ps else Inl Ill_formed)"
| "obj_step L ps (Declare_array x) = declare_obj x (make_obj new_Array (fp_store ps)) ps"
| "obj_step L ps (Declare_table x) = declare_obj x (make_obj new_Table (fp_store ps)) ps"
| "obj_step L ps (Declare_copy x y) =
     (case obj_at ps y of
        None \<Rightarrow> Inl Ill_formed
      | Some (b, ob) \<Rightarrow> declare_obj x (obj_clone L ob (fp_store ps)) ps)"
| "obj_step L ps (Declare_move x y) =
     (case obj_at ps y of
        Some (b, Array_obj as) \<Rightarrow>
          (case Array_move as of (new, old) \<Rightarrow>
             declare_obj x (make_obj new ((fp_store ps)\<lparr>st_obj := (st_obj (fp_store ps))(b \<mapsto> old)\<rparr>)) ps)
      | Some (b, Table_obj es) \<Rightarrow>
          (case Table_move es of (new, old) \<Rightarrow>
             declare_obj x (make_obj new ((fp_store ps)\<lparr>st_obj := (st_obj (fp_store ps))(b \<mapsto> old)\<rparr>)) ps)
      | _ \<Rightarrow> Inl Ill_formed)"
| "obj_step L ps (Assign_scalar x v) =
     (case obj_at ps x of
        Some (a, Scalar_obj w) \<Rightarrow>
          (case scalar_assign v w of
             None \<Rightarrow> Inl Ill_formed
           | Some u \<Rightarrow>
               Inr (ps\<lparr>fp_store := (fp_store ps)\<lparr>st_obj := (st_obj (fp_store ps))(a \<mapsto> Scalar_obj u)\<rparr>\<rparr>))
      | _ \<Rightarrow> Inl Ill_formed)"
| "obj_step L ps (Set_index x i y) =
     (case (obj_at ps x, obj_at ps y) of
        (Some (a, Array_obj as), Some (b, ob)) \<Rightarrow>
          (case Array_obj_set L a i ob (fp_store ps) of
             None \<Rightarrow> Inl Ill_formed
           | Some st \<Rightarrow> Inr (ps\<lparr>fp_store := st\<rparr>))
      | _ \<Rightarrow> Inl Ill_formed)"
| "obj_step L ps (Set_name x n y) =
     (case (obj_at ps x, obj_at ps y) of
        (Some (a, Table_obj es), Some (b, ob)) \<Rightarrow>
          (case Table_obj_set L a n ob (fp_store ps) of
             None \<Rightarrow> Inl Ill_formed
           | Some st \<Rightarrow> Inr (ps\<lparr>fp_store := st\<rparr>))
      | _ \<Rightarrow> Inl Ill_formed)"

text \<open>The same programs on values: a variable holds a field, and no two variables share anything.\<close>

definition declare_value :: "var \<Rightarrow> field \<Rightarrow> (var \<Rightarrow> field option) \<Rightarrow> ill_formed + (var \<Rightarrow> field option)" where
  "declare_value x v env = (if env x \<noteq> None then Inl Ill_formed else Inr (env(x \<mapsto> v)))"

fun value_step :: "(var \<Rightarrow> field option) \<Rightarrow> field_stmt \<Rightarrow> ill_formed + (var \<Rightarrow> field option)" where
  "value_step env (Declare_scalar x v) = (if scalar v then declare_value x v env else Inl Ill_formed)"
| "value_step env (Declare_array x) = declare_value x (F_Array []) env"
| "value_step env (Declare_table x) = declare_value x (F_Table []) env"
| "value_step env (Declare_copy x y) =
     (case env y of None \<Rightarrow> Inl Ill_formed | Some v \<Rightarrow> declare_value x v env)"
| "value_step env (Declare_move x y) =
     (case env y of
        Some (F_Array fs) \<Rightarrow> declare_value x (F_Array fs) (env(y \<mapsto> F_Array []))
      | Some (F_Table t) \<Rightarrow> declare_value x (F_Table t) (env(y \<mapsto> F_Table []))
      | _ \<Rightarrow> Inl Ill_formed)"
| "value_step env (Assign_scalar x v) =
     (case env x of
        None \<Rightarrow> Inl Ill_formed
      | Some w \<Rightarrow> (if class_of v = class_of w \<and> scalar v then Inr (env(x \<mapsto> v)) else Inl Ill_formed))"
| "value_step env (Set_index x i y) =
     (case (env x, env y) of
        (Some (F_Array fs), Some v) \<Rightarrow> Inr (env(x \<mapsto> F_Array (fst (Array_set i v fs))))
      | _ \<Rightarrow> Inl Ill_formed)"
| "value_step env (Set_name x n y) =
     (case (env x, env y) of
        (Some (F_Table t), Some v) \<Rightarrow> Inr (env(x \<mapsto> F_Table (Table_set n v t)))
      | _ \<Rightarrow> Inl Ill_formed)"

subsection \<open>What an object stands for\<close>

text \<open>
  \<open>repr h a v S\<close>: the object at \<open>a\<close> stands for the value \<open>v\<close> and consists of the objects at the
  addresses \<open>S\<close>, none of which is used twice.
\<close>

inductive repr :: "(addr \<Rightarrow> fobj option) \<Rightarrow> addr \<Rightarrow> field \<Rightarrow> addr set \<Rightarrow> bool"
  and reprs :: "(addr \<Rightarrow> fobj option) \<Rightarrow> addr list \<Rightarrow> field list \<Rightarrow> addr set \<Rightarrow> bool"
  for h where
  repr_scalar: "h a = Some (Scalar_obj v) \<Longrightarrow> scalar v \<Longrightarrow> repr h a v {a}"
| repr_array: "h a = Some (Array_obj as) \<Longrightarrow> reprs h as fs S \<Longrightarrow> a \<notin> S \<Longrightarrow> repr h a (F_Array fs) (insert a S)"
| repr_table: "h a = Some (Table_obj es) \<Longrightarrow> map fst es = map fst t \<Longrightarrow> reprs h (map snd es) (map snd t) S \<Longrightarrow>
    a \<notin> S \<Longrightarrow> repr h a (F_Table t) (insert a S)"
| reprs_Nil: "reprs h [] [] {}"
| reprs_Cons: "repr h a v S \<Longrightarrow> reprs h as vs T \<Longrightarrow> S \<inter> T = {} \<Longrightarrow> reprs h (a # as) (v # vs) (S \<union> T)"

lemma repr_empty:
  "h a = Some (Array_obj []) \<Longrightarrow> repr h a (F_Array []) {a}"
  "h a = Some (Table_obj []) \<Longrightarrow> repr h a (F_Table []) {a}"
  using repr_array [of h a "[]" "[]" "{}"] repr_table [of h a "[]" "[]" "{}"] by (simp_all add: reprs_Nil)

inductive_simps reprs_Nil_iff: "reprs h [] vs S"
inductive_cases reprs_ConsE: "reprs h (a # as) vs S"

lemma repr_frame:
  shows "repr h a v S \<Longrightarrow> (\<And>x. x \<in> S \<Longrightarrow> h' x = h x) \<Longrightarrow> repr h' a v S"
    and "reprs h as vs S \<Longrightarrow> (\<And>x. x \<in> S \<Longrightarrow> h' x = h x) \<Longrightarrow> reprs h' as vs S"
proof (induction rule: repr_reprs.inducts)
  case (repr_scalar a v)
  then show ?case by (simp add: repr_reprs.repr_scalar)
next
  case (repr_array a as fs S)
  then show ?case by (simp add: repr_reprs.repr_array)
next
  case (repr_table a es t S)
  then show ?case by (simp add: repr_reprs.repr_table)
next
  case reprs_Nil
  show ?case by (rule repr_reprs.reprs_Nil)
next
  case (reprs_Cons a v S as vs T)
  then show ?case by (simp add: repr_reprs.reprs_Cons)
qed

lemma repr_object:
  assumes "repr h a v S"
  shows "a \<in> S" and "\<exists>ob. h a = Some ob \<and> (case ob of Scalar_obj w \<Rightarrow> scalar v \<and> w = v
    | Array_obj as \<Rightarrow> (\<exists>fs. v = F_Array fs \<and> reprs h as fs (S - {a}))
    | Table_obj es \<Rightarrow> (\<exists>t. v = F_Table t \<and> map fst es = map fst t \<and> reprs h (map snd es) (map snd t) (S - {a})))"
  using assms by (cases, auto)+

lemma reprs_length: "reprs h as vs S \<Longrightarrow> length vs = length as"
proof (induction as arbitrary: vs S)
  case Nil
  then show ?case by (simp add: reprs_Nil_iff)
next
  case (Cons a as)
  then show ?case by (auto elim: reprs_ConsE)
qed

lemma reprs_append:
  "reprs h as vs S \<Longrightarrow> repr h b v T \<Longrightarrow> S \<inter> T = {} \<Longrightarrow> reprs h (as @ [b]) (vs @ [v]) (S \<union> T)"
proof (induction as arbitrary: vs S)
  case Nil
  then have "vs = []" "S = {}" by (simp_all add: reprs_Nil_iff)
  with Nil show ?case using reprs_Cons [OF Nil.prems(2) reprs_Nil] by simp
next
  case (Cons a as)
  then obtain w ws A B where v: "vs = w # ws" "S = A \<union> B" "repr h a w A" "reprs h as ws B" "A \<inter> B = {}"
    by (auto elim: reprs_ConsE)
  have "reprs h (as @ [b]) (ws @ [v]) (B \<union> T)" using Cons.IH [OF v(4) Cons.prems(2)] Cons.prems(3) v(2) by auto
  from reprs_Cons [OF v(3) this] v Cons.prems(3) show ?case by (simp add: Int_Un_distrib Int_Un_distrib2 Un_assoc)
qed

lemma reprs_update:
  "reprs h as vs S \<Longrightarrow> repr h b v T \<Longrightarrow> S \<inter> T = {} \<Longrightarrow> i < length as \<Longrightarrow>
   \<exists>S'. reprs h (as[i := b]) (vs[i := v]) S' \<and> S' \<subseteq> S \<union> T"
proof (induction as arbitrary: vs S i)
  case Nil
  then show ?case by simp
next
  case (Cons a as)
  then obtain w ws A B where v: "vs = w # ws" "S = A \<union> B" "repr h a w A" "reprs h as ws B" "A \<inter> B = {}"
    by (auto elim: reprs_ConsE)
  show ?case
  proof (cases i)
    case 0
    have "reprs h (b # as) (v # ws) (T \<union> B)"
      using Cons.prems(3) v(2) by (intro reprs_Cons Cons.prems(2) v(4)) auto
    then show ?thesis using 0 v by auto
  next
    case (Suc j)
    then obtain B' where B': "reprs h (as[j := b]) (ws[j := v]) B'" "B' \<subseteq> B \<union> T"
      using Cons.IH [OF v(4) Cons.prems(2), of j] Cons.prems(3,4) v(2) by auto
    have "A \<inter> B' = {}" using B'(2) v(2,5) Cons.prems(3) by auto
    from reprs_Cons [OF v(3) B'(1) this] B'(2) Suc v(1,2) show ?thesis by auto
  qed
qed

lemma reprs_assign:
  "reprs h (map snd es) (map snd t) S \<Longrightarrow> map fst es = map fst t \<Longrightarrow> repr h b v T \<Longrightarrow> S \<inter> T = {} \<Longrightarrow>
   map fst (map_assign n b es) = map fst (map_assign n v t) \<and>
   (\<exists>S'. reprs h (map snd (map_assign n b es)) (map snd (map_assign n v t)) S' \<and> S' \<subseteq> S \<union> T)"
proof (induction es arbitrary: t S)
  case Nil
  then have "t = []" "S = {}" by (simp_all add: reprs_Nil_iff)
  then show ?case using reprs_Cons [OF Nil.prems(3) reprs_Nil] by auto
next
  case (Cons e es)
  obtain j a where e: "e = (j, a)" by (cases e)
  with Cons.prems(2) obtain w t' where t: "t = (j, w) # t'" "map fst es = map fst t'" by (cases t) auto
  obtain A B where v: "S = A \<union> B" "repr h a w A" "reprs h (map snd es) (map snd t') B" "A \<inter> B = {}"
    using Cons.prems(1) e t(1) by (auto elim: reprs_ConsE)
  show ?case
  proof (cases "n < j")
    case True
    have "T \<inter> S = {}" using Cons.prems(4) by auto
    from reprs_Cons [OF Cons.prems(3,1) this] True e t Cons.prems(2) show ?thesis by auto
  next
    case ge: False
    show ?thesis
    proof (cases "n = j")
      case True
      have "T \<inter> B = {}" using Cons.prems(4) v(1) by auto
      from reprs_Cons [OF Cons.prems(3) v(3) this] True e t v(1) show ?thesis by auto
    next
      case False
      obtain B' where B': "map fst (map_assign n b es) = map fst (map_assign n v t')"
          "reprs h (map snd (map_assign n b es)) (map snd (map_assign n v t')) B'" "B' \<subseteq> B \<union> T"
        using Cons.IH [OF v(3) t(2) Cons.prems(3)] Cons.prems(4) v(1) by auto
      have "A \<inter> B' = {}" using B'(3) v(1,4) Cons.prems(4) by auto
      from reprs_Cons [OF v(2) B'(2) this] B'(1,3) ge False e t v(1) show ?thesis by auto
    qed
  qed
qed

subsection \<open>Copies are new objects\<close>

definition extends :: "store \<Rightarrow> store \<Rightarrow> bool" where
  "extends st st' \<longleftrightarrow> st_next st \<le> st_next st' \<and> (\<forall>x < st_next st. st_obj st' x = st_obj st x)"

definition field_lib_laws :: "field_lib \<Rightarrow> bool" where
  "field_lib_laws L \<longleftrightarrow>
     (\<forall>st as vs S. reprs (st_obj st) as vs S \<and> S \<subseteq> {..<st_next st} \<longrightarrow>
        (case fl_copy_array L as st of (as', st') \<Rightarrow>
           extends st st' \<and> (\<exists>S'. reprs (st_obj st') as' vs S' \<and> S' \<subseteq> {st_next st..<st_next st'}))) \<and>
     (\<forall>st es vs S. reprs (st_obj st) (map snd es) vs S \<and> S \<subseteq> {..<st_next st} \<longrightarrow>
        (case fl_copy_table L es st of (es', st') \<Rightarrow>
           map fst es' = map fst es \<and> extends st st' \<and>
           (\<exists>S'. reprs (st_obj st') (map snd es') vs S' \<and> S' \<subseteq> {st_next st..<st_next st'})))"

lemma extends_refl [simp]: "extends st st"
  by (simp add: extends_def)

lemma extendsD: "extends st st' \<Longrightarrow> st_next st \<le> st_next st'" "extends st st' \<Longrightarrow> x < st_next st \<Longrightarrow> st_obj st' x = st_obj st x"
  by (simp_all add: extends_def)

lemma extends_trans: "extends a b \<Longrightarrow> extends b c \<Longrightarrow> extends a c"
  by (auto simp: extends_def)

lemma copy_array_new:
  assumes "field_lib_laws L" and "reprs (st_obj st) as vs S" and "S \<subseteq> {..<st_next st}"
  obtains as' st' S' where "fl_copy_array L as st = (as', st')" and "extends st st'"
    and "reprs (st_obj st') as' vs S'" and "S' \<subseteq> {st_next st..<st_next st'}"
proof -
  obtain as' st' where c: "fl_copy_array L as st = (as', st')" by fastforce
  have "case fl_copy_array L as st of (as', st') \<Rightarrow>
      extends st st' \<and> (\<exists>S'. reprs (st_obj st') as' vs S' \<and> S' \<subseteq> {st_next st..<st_next st'})"
    using assms(1) [unfolded field_lib_laws_def, THEN conjunct1, rule_format, of st as vs S] assms(2,3) by simp
  with c show thesis using that by auto
qed

lemma copy_table_new:
  assumes "field_lib_laws L" and "reprs (st_obj st) (map snd es) vs S" and "S \<subseteq> {..<st_next st}"
  obtains es' st' S' where "fl_copy_table L es st = (es', st')" and "map fst es' = map fst es"
    and "extends st st'" and "reprs (st_obj st') (map snd es') vs S'" and "S' \<subseteq> {st_next st..<st_next st'}"
proof -
  obtain es' st' where c: "fl_copy_table L es st = (es', st')" by fastforce
  have "case fl_copy_table L es st of (es', st') \<Rightarrow> map fst es' = map fst es \<and>
      extends st st' \<and> (\<exists>S'. reprs (st_obj st') (map snd es') vs S' \<and> S' \<subseteq> {st_next st..<st_next st'})"
    using assms(1) [unfolded field_lib_laws_def, THEN conjunct2, rule_format, of st es vs S] assms(2,3) by simp
  with c show thesis using that by auto
qed

text \<open>An object built at the next address from members that are themselves new.\<close>

lemma make_obj_extends:
  assumes "make_obj ob st = (b, st')"
  shows "extends st st'" and "b = st_next st" and "st_next st' = Suc b" and "st_obj st' b = Some ob"
    and "x \<noteq> b \<Longrightarrow> st_obj st' x = st_obj st x"
  using assms by (auto simp: make_obj_def extends_def)

lemma made_over:
  assumes "extends st st1" and "make_obj ob st1 = (b, st')" and "S' \<subseteq> {st_next st..<st_next st1}"
    and "\<And>h. h b = Some ob \<Longrightarrow> (\<And>x. x \<in> S' \<Longrightarrow> h x = st_obj st1 x) \<Longrightarrow> repr h b v (insert b S')"
  shows "extends st st' \<and> (\<exists>S. repr (st_obj st') b v S \<and> S \<subseteq> {st_next st..<st_next st'})"
proof -
  note m = make_obj_extends [OF assms(2)]
  have "st_obj st' x = st_obj st1 x" if "x \<in> S'" for x
  proof (rule m(5))
    show "x \<noteq> b" using that assms(3) m(2) by auto
  qed
  then have "repr (st_obj st') b v (insert b S')" by (intro assms(4) m(4))
  moreover have "insert b S' \<subseteq> {st_next st..<st_next st'}"
    using assms(1,3) m(2,3) by (auto simp: extends_def)
  ultimately show ?thesis using extends_trans [OF assms(1) m(1)] by blast
qed

lemma scalar_clone_id: "scalar v \<Longrightarrow> scalar_clone v = v"
  by (cases v) (simp_all add: Numeric_clone_def Numeric_of_def BooleanSet_clone_def BooleanSet_copy_def
      Decimal_clone_def new_Decimal_def String_clone_def String_of_def)

lemma obj_clone_new:
  assumes L: "field_lib_laws L" and r: "repr (st_obj st) a v S" and S: "S \<subseteq> {..<st_next st}"
    and ob: "st_obj st a = Some ob" and c: "obj_clone L ob st = (b, st')"
  shows "extends st st' \<and> (\<exists>S'. repr (st_obj st') b v S' \<and> S' \<subseteq> {st_next st..<st_next st'})"
proof (cases ob)
  case (Scalar_obj w)
  with repr_object(2) [OF r] ob have w: "scalar v" "w = v" by auto
  with c Scalar_obj have m: "make_obj (Scalar_obj v) st = (b, st')"
    by (simp add: obj_clone_def scalar_clone_id)
  show ?thesis
    by (rule made_over [OF extends_refl m, of "{}"]) (simp_all add: repr_scalar w)
next
  case (Array_obj as)
  with repr_object(2) [OF r] ob obtain fs where v: "v = F_Array fs" "reprs (st_obj st) as fs (S - {a})" by auto
  have "S - {a} \<subseteq> {..<st_next st}" using S by blast
  then obtain as' st1 S' where cp: "fl_copy_array L as st = (as', st1)"
    and s: "extends st st1" "reprs (st_obj st1) as' fs S'" "S' \<subseteq> {st_next st..<st_next st1}"
    by (rule copy_array_new [OF L v(2)])
  from c cp Array_obj have m: "make_obj (Array_obj as') st1 = (b, st')"
    by (simp add: obj_clone_def Array_clone_def)
  have "b \<notin> S'" using s(3) make_obj_extends(2) [OF m] by auto
  show ?thesis unfolding v(1)
  proof (rule made_over [OF s(1) m s(3)])
    fix h assume "h b = Some (Array_obj as')" and "\<And>x. x \<in> S' \<Longrightarrow> h x = st_obj st1 x"
    then show "repr h b (F_Array fs) (insert b S')"
      using \<open>b \<notin> S'\<close> by (intro repr_array [of _ _ as'] repr_frame(2) [OF s(2)]) simp_all
  qed
next
  case (Table_obj es)
  with repr_object(2) [OF r] ob obtain t where v: "v = F_Table t" "map fst es = map fst t"
      "reprs (st_obj st) (map snd es) (map snd t) (S - {a})" by auto
  have "S - {a} \<subseteq> {..<st_next st}" using S by blast
  then obtain es' st1 S' where cp: "fl_copy_table L es st = (es', st1)" and s: "map fst es' = map fst es"
      "extends st st1" "reprs (st_obj st1) (map snd es') (map snd t) S'" "S' \<subseteq> {st_next st..<st_next st1}"
    by (rule copy_table_new [OF L v(3)])
  from c cp Table_obj have m: "make_obj (Table_obj es') st1 = (b, st')"
    by (simp add: obj_clone_def Table_clone_def)
  have "b \<notin> S'" using s(4) make_obj_extends(2) [OF m] by auto
  show ?thesis unfolding v(1)
  proof (rule made_over [OF s(2) m s(4)])
    fix h assume "h b = Some (Table_obj es')" and "\<And>x. x \<in> S' \<Longrightarrow> h x = st_obj st1 x"
    then show "repr h b (F_Table t) (insert b S')"
      using \<open>b \<notin> S'\<close> s(1) v(2) by (intro repr_table [of _ _ es'] repr_frame(2) [OF s(3)]) simp_all
  qed
qed

subsection \<open>Variables share nothing\<close>

definition separate ::
  "store \<Rightarrow> (var \<Rightarrow> addr option) \<Rightarrow> (var \<Rightarrow> field option) \<Rightarrow> (var \<Rightarrow> addr set) \<Rightarrow> bool" where
  "separate st vars env F \<longleftrightarrow>
     (\<forall>x. F x \<subseteq> {..<st_next st}) \<and> (\<forall>x y. x \<noteq> y \<longrightarrow> F x \<inter> F y = {}) \<and>
     (\<forall>x. case vars x of None \<Rightarrow> env x = None \<and> F x = {}
          | Some a \<Rightarrow> (\<exists>v. env x = Some v \<and> repr (st_obj st) a v (F x)))"

text \<open>A statement that gives one variable a new object or changes the one it has.\<close>

lemma separate_update:
  assumes sep: "separate st vars env F" and n: "st_next st \<le> st_next st'"
    and keep: "\<And>y q. y \<noteq> x \<Longrightarrow> q \<in> F y \<Longrightarrow> st_obj st' q = st_obj st q"
    and r: "repr (st_obj st') a v S" and S: "S \<subseteq> {..<st_next st'}" and dis: "\<And>y. y \<noteq> x \<Longrightarrow> S \<inter> F y = {}"
  shows "separate st' (vars(x \<mapsto> a)) (env(x \<mapsto> v)) (F(x := S))"
proof -
  have F: "F y \<subseteq> {..<st_next st'}" for y
    using sep n unfolding separate_def by (meson lessThan_subset_iff subset_trans)
  have R: "case vars y of None \<Rightarrow> env y = None \<and> F y = {}
      | Some a \<Rightarrow> (\<exists>v. env y = Some v \<and> repr (st_obj st') a v (F y))" if "y \<noteq> x" for y
  proof -
    have "case vars y of None \<Rightarrow> env y = None \<and> F y = {}
      | Some a \<Rightarrow> (\<exists>v. env y = Some v \<and> repr (st_obj st) a v (F y))"
      using sep unfolding separate_def by blast
    then show ?thesis using repr_frame(1) [where S = "F y"] keep [OF that] by (auto split: option.splits)
  qed
  show ?thesis
    unfolding separate_def
  proof (intro conjI allI impI)
    fix y show "(F(x := S)) y \<subseteq> {..<st_next st'}" using F S by simp
  next
    fix y z :: var assume "y \<noteq> z"
    moreover have "F y \<inter> F z = {}" using sep \<open>y \<noteq> z\<close> unfolding separate_def by blast
    ultimately show "(F(x := S)) y \<inter> (F(x := S)) z = {}" using dis [of y] dis [of z] by auto
  next
    fix y show "case (vars(x \<mapsto> a)) y of None \<Rightarrow> (env(x \<mapsto> v)) y = None \<and> (F(x := S)) y = {}
      | Some a \<Rightarrow> (\<exists>w. (env(x \<mapsto> v)) y = Some w \<and> repr (st_obj st') a w ((F(x := S)) y))"
      using R [of y] r by (cases "y = x") (simp_all split: option.splits)
  qed
qed

definition obj_rel :: "field_lib \<Rightarrow> unit \<Rightarrow> field_program \<Rightarrow> (var \<Rightarrow> field option) \<Rightarrow> bool" where
  "obj_rel L u ps env \<longleftrightarrow> field_lib_laws L \<and> (\<exists>F. separate (fp_store ps) (fp_vars ps) env F)"

definition related ::
  "field_lib \<Rightarrow> ill_formed + field_program \<Rightarrow> ill_formed + (var \<Rightarrow> field option) \<Rightarrow> bool" where
  "related L r q \<longleftrightarrow>
     (case r of Inl f \<Rightarrow> q = Inl f | Inr ps \<Rightarrow> (\<exists>env. q = Inr env \<and> obj_rel L () ps env))"

lemma related_Inl [simp]: "related L (Inl f) q = (q = Inl f)"
  by (simp add: related_def)

lemma related_Inr: "obj_rel L () ps env \<Longrightarrow> related L (Inr ps) (Inr env)"
  by (simp add: related_def)

lemma separate_var:
  assumes "separate st vars env F"
  shows "case vars x of None \<Rightarrow> env x = None \<and> F x = {}
    | Some a \<Rightarrow> (\<exists>v. env x = Some v \<and> repr (st_obj st) a v (F x))"
  using assms unfolding separate_def by blast

lemma separate_vars: "separate st vars env F \<Longrightarrow> vars x = None \<longleftrightarrow> env x = None"
  using separate_var [of st vars env F x] by (auto split: option.splits)

lemma separate_in: "separate st vars env F \<Longrightarrow> F x \<subseteq> {..<st_next st}"
  by (simp add: separate_def)

lemma obj_at_None:
  assumes "separate (fp_store ps) (fp_vars ps) env F" and "obj_at ps y = None"
  shows "env y = None"
proof (cases "fp_vars ps y")
  case None
  with assms(1) show ?thesis by (simp add: separate_vars [symmetric])
next
  case (Some a)
  with separate_var [OF assms(1), of y] obtain v where "repr (st_obj (fp_store ps)) a v (F y)" by auto
  from repr_object(2) [OF this] Some assms(2) show ?thesis by (auto simp: obj_at_def)
qed

lemma obj_at_Some:
  assumes "separate (fp_store ps) (fp_vars ps) env F" and "obj_at ps y = Some (b, ob)"
  obtains v where "env y = Some v" and "fp_vars ps y = Some b" and "st_obj (fp_store ps) b = Some ob"
    and "repr (st_obj (fp_store ps)) b v (F y)"
proof -
  have b: "fp_vars ps y = Some b" "st_obj (fp_store ps) b = Some ob"
    using assms(2) by (auto simp: obj_at_def split: option.splits)
  with separate_var [OF assms(1), of y] that show thesis by auto
qed

text \<open>A declaration with an object that is new.\<close>

lemma declare_related:
  assumes L: "field_lib_laws L" and sep: "separate (fp_store ps) (fp_vars ps) env F"
    and ext: "extends (fp_store ps) st'"
    and r: "repr (st_obj st') b v S" and S: "S \<subseteq> {st_next (fp_store ps)..<st_next st'}"
  shows "related L (declare_obj x (b, st') ps) (declare_value x v env)"
proof (cases "fp_vars ps x")
  case None
  have keep: "st_obj st' q = st_obj (fp_store ps) q" if "q \<in> F y" for y q
  proof (rule extendsD(2) [OF ext])
    show "q < st_next (fp_store ps)" using separate_in [OF sep, of y] that by auto
  qed
  have "separate st' ((fp_vars ps)(x \<mapsto> b)) (env(x \<mapsto> v)) (F(x := S))"
  proof (rule separate_update [OF sep extendsD(1) [OF ext] keep r])
    show "S \<subseteq> {..<st_next st'}" using S by auto
    show "S \<inter> F y = {}" for y using S separate_in [OF sep, of y] by fastforce
  qed
  then show ?thesis
    using L None separate_vars [OF sep, of x]
    by (auto simp: declare_obj_def declare_value_def obj_rel_def intro!: related_Inr)
next
  case (Some a)
  then show ?thesis using separate_vars [OF sep, of x] by (simp add: declare_obj_def declare_value_def)
qed

lemma declare_made:
  assumes L: "field_lib_laws L" and sep: "separate (fp_store ps) (fp_vars ps) env F"
    and r: "\<And>h a. h a = Some ob \<Longrightarrow> repr h a v {a}"
  shows "related L (declare_obj x (make_obj ob (fp_store ps)) ps) (declare_value x v env)"
proof -
  obtain b st' where m: "make_obj ob (fp_store ps) = (b, st')" by fastforce
  note d = make_obj_extends [OF m]
  show ?thesis unfolding m
    by (rule declare_related [OF L sep d(1), of b v "{b}"], rule r, rule d(4)) (simp add: d(2,3))
qed

lemma scalar_assign_class: "scalar_assign v w = (if class_of v = class_of w \<and> scalar v then Some v else None)"
  by (cases v)
    (auto simp: scalar_def Numeric_assign_def String_assign_def BooleanSet_copy_def Decimal_assign_def
      split: field.split)

text \<open>A change of the object of a variable.\<close>

lemma change_related:
  assumes L: "field_lib_laws L" and sep: "separate (fp_store ps) (fp_vars ps) env F"
    and a: "fp_vars ps x = Some a" and n: "st_next (fp_store ps) \<le> st_next st'"
    and keep: "\<And>q. q < st_next (fp_store ps) \<Longrightarrow> q \<notin> F x \<Longrightarrow> st_obj st' q = st_obj (fp_store ps) q"
    and r: "repr (st_obj st') a v S" and S: "S \<subseteq> F x \<union> {st_next (fp_store ps)..<st_next st'}"
  shows "related L (Inr (ps\<lparr>fp_store := st'\<rparr>)) (Inr (env(x \<mapsto> v)))"
proof -
  have dis: "F x \<inter> F y = {}" if "y \<noteq> x" for y using sep that unfolding separate_def by blast
  have "separate st' ((fp_vars ps)(x \<mapsto> a)) (env(x \<mapsto> v)) (F(x := S))"
  proof (rule separate_update [OF sep n _ r])
    show "st_obj st' q = st_obj (fp_store ps) q" if "y \<noteq> x" "q \<in> F y" for y q
      using that dis [OF that(1)] separate_in [OF sep, of y] by (intro keep) auto
    show "S \<subseteq> {..<st_next st'}" using S separate_in [OF sep, of x] n by fastforce
    show "S \<inter> F y = {}" if "y \<noteq> x" for y using S dis [OF that] separate_in [OF sep, of y] by fastforce
  qed
  moreover have "(fp_vars ps)(x \<mapsto> a) = fp_vars ps" using a by auto
  ultimately show ?thesis using L by (auto simp: obj_rel_def intro!: related_Inr)
qed

subsection \<open>Every statement\<close>

lemma clone_in_place:
  assumes "field_lib_laws L" and "separate (fp_store ps) (fp_vars ps) env F" and "obj_at ps y = Some (b, ob)"
    and "obj_clone L ob (fp_store ps) = (ptr, st1)"
  obtains v S where "env y = Some v" and "extends (fp_store ps) st1" and "repr (st_obj st1) ptr v S"
    and "S \<subseteq> {st_next (fp_store ps)..<st_next st1}"
proof -
  obtain v where v: "env y = Some v" "st_obj (fp_store ps) b = Some ob" "repr (st_obj (fp_store ps)) b v (F y)"
    by (rule obj_at_Some [OF assms(2,3)])
  have "extends (fp_store ps) st1 \<and> (\<exists>S. repr (st_obj st1) ptr v S \<and> S \<subseteq> {st_next (fp_store ps)..<st_next st1})"
    by (rule obj_clone_new [OF assms(1) v(3) separate_in [OF assms(2)] v(2) assms(4)])
  with v(1) that show thesis by blast
qed

lemma copy_related:
  assumes L: "field_lib_laws L" and sep: "separate (fp_store ps) (fp_vars ps) env F"
  shows "related L (obj_step L ps (Declare_copy x y)) (value_step env (Declare_copy x y))"
proof (cases "obj_at ps y")
  case None
  with obj_at_None [OF sep None] show ?thesis by simp
next
  case (Some bo)
  obtain b ob where bo: "bo = (b, ob)" by (cases bo)
  obtain ptr st1 where c: "obj_clone L ob (fp_store ps) = (ptr, st1)" by fastforce
  obtain v S where v: "env y = Some v" "extends (fp_store ps) st1" "repr (st_obj st1) ptr v S"
      "S \<subseteq> {st_next (fp_store ps)..<st_next st1}"
    by (rule clone_in_place [OF L sep Some [unfolded bo] c])
  show ?thesis using declare_related [OF L sep v(2-4)] Some bo c v(1) by simp
qed

text \<open>The statement \<open>x.set(..., y)\<close>: the state before the members of \<open>x\<close> change, and after it.\<close>

lemma set_prepare:
  assumes L: "field_lib_laws L" and sep: "separate (fp_store ps) (fp_vars ps) env F"
    and x: "obj_at ps x = Some (a, xo)" and y: "obj_at ps y = Some (b, ob)"
    and c: "obj_clone L ob (fp_store ps) = (ptr, st1)"
  obtains w v S where "env x = Some w" and "env y = Some v" and "extends (fp_store ps) st1"
    and "st_obj st1 a = Some xo" and "repr (st_obj st1) a w (F x)" and "repr (st_obj st1) ptr v S"
    and "S \<subseteq> {st_next (fp_store ps)..<st_next st1}" and "F x \<inter> S = {}" and "fp_vars ps x = Some a"
proof -
  obtain w where w: "env x = Some w" "fp_vars ps x = Some a" "st_obj (fp_store ps) a = Some xo"
      "repr (st_obj (fp_store ps)) a w (F x)" by (rule obj_at_Some [OF sep x])
  obtain v S where v: "env y = Some v" "extends (fp_store ps) st1" "repr (st_obj st1) ptr v S"
      "S \<subseteq> {st_next (fp_store ps)..<st_next st1}" by (rule clone_in_place [OF L sep y c])
  have lt: "F x \<subseteq> {..<st_next (fp_store ps)}" by (rule separate_in [OF sep])
  have same: "st_obj st1 q = st_obj (fp_store ps) q" if "q \<in> F x" for q
    using lt that by (intro extendsD(2) [OF v(2)]) auto
  show thesis
  proof (rule that [OF w(1) v(1,2) _ _ v(3,4) _ w(2)])
    show "st_obj st1 a = Some xo" using same [OF repr_object(1) [OF w(4)]] w(3) by simp
    show "repr (st_obj st1) a w (F x)" by (rule repr_frame(1) [OF w(4) same])
    show "F x \<inter> S = {}" using lt v(4) by fastforce
  qed
qed

lemma set_finish:
  assumes L: "field_lib_laws L" and sep: "separate (fp_store ps) (fp_vars ps) env F"
    and x: "fp_vars ps x = Some a" "a \<in> F x" and e1: "extends (fp_store ps) st1"
    and st2: "st2 = st1\<lparr>st_obj := (st_obj st1)(a \<mapsto> ob)\<rparr>" and e3: "extends st2 st3"
    and r: "repr (st_obj st2) a w (insert a S')" and S': "S' \<subseteq> F x \<union> {st_next (fp_store ps)..<st_next st1}"
  shows "related L (Inr (ps\<lparr>fp_store := st3\<rparr>)) (Inr (env(x \<mapsto> w)))"
proof -
  have n: "st_next (fp_store ps) \<le> st_next st1" "st_next st1 = st_next st2" "st_next st2 \<le> st_next st3"
    using extendsD(1) [OF e1] extendsD(1) [OF e3] st2 by simp_all
  have lt: "insert a S' \<subseteq> {..<st_next st2}" using S' x(2) separate_in [OF sep, of x] n by fastforce
  have r3: "repr (st_obj st3) a w (insert a S')"
    by (rule repr_frame(1) [OF r]) (use extendsD(2) [OF e3] lt in auto)
  show ?thesis
  proof (rule change_related [OF L sep x(1) _ _ r3])
    show "st_next (fp_store ps) \<le> st_next st3" using n by simp
    show "insert a S' \<subseteq> F x \<union> {st_next (fp_store ps)..<st_next st3}" using S' n x(2) by fastforce
    fix q assume q: "q < st_next (fp_store ps)" "q \<notin> F x"
    have "st_obj st3 q = st_obj st2 q" using q(1) n by (intro extendsD(2) [OF e3]) simp
    also have "\<dots> = st_obj st1 q" unfolding st2 using q(2) x(2) by auto
    also have "\<dots> = st_obj (fp_store ps) q" by (rule extendsD(2) [OF e1 q(1)])
    finally show "st_obj st3 q = st_obj (fp_store ps) q" .
  qed
qed

lemma obj_kind:
  assumes "repr h a w S" and "h a = Some ob"
  shows "(\<exists>as. ob = Array_obj as) = (\<exists>fs. w = F_Array fs)" and "(\<exists>es. ob = Table_obj es) = (\<exists>t. w = F_Table t)"
proof -
  have k: "case ob of Scalar_obj u \<Rightarrow> scalar w \<and> u = w | Array_obj as \<Rightarrow> (\<exists>fs. w = F_Array fs)
      | Table_obj es \<Rightarrow> (\<exists>t. w = F_Table t)"
    using assms(1) by cases (use assms(2) in simp_all)
  then show "(\<exists>as. ob = Array_obj as) = (\<exists>fs. w = F_Array fs)" by (cases ob) (auto simp: scalar_def)
  show "(\<exists>es. ob = Table_obj es) = (\<exists>t. w = F_Table t)" using k by (cases ob) (auto simp: scalar_def)
qed

lemma reprs_set:
  assumes "reprs h as fs A" and "repr h ptr v S" and "A \<inter> S = {}"
  shows "\<exists>S'. reprs h (if length as \<le> unat i then as @ [ptr] else as[unat i := ptr]) (fst (Array_set i v fs)) S' \<and>
    S' \<subseteq> A \<union> S"
proof (cases "length as \<le> unat i")
  case True
  with reprs_append [OF assms] reprs_length [OF assms(1)] show ?thesis by (auto simp: Array_set_def Let_def)
next
  case False
  with reprs_update [OF assms, of "unat i"] reprs_length [OF assms(1)] show ?thesis
    by (simp add: Array_set_def Let_def)
qed

lemma set_index_related:
  assumes L: "field_lib_laws L" and sep: "separate (fp_store ps) (fp_vars ps) env F"
    and x: "obj_at ps x = Some (a, Array_obj as)" and y: "obj_at ps y = Some (b, ob)"
  shows "related L (obj_step L ps (Set_index x i y)) (value_step env (Set_index x i y))"
proof -
  obtain ptr st1 where c: "obj_clone L ob (fp_store ps) = (ptr, st1)" by fastforce
  obtain w v S where p: "env x = Some w" "env y = Some v" "extends (fp_store ps) st1" "st_obj st1 a = Some (Array_obj as)"
      "repr (st_obj st1) a w (F x)" "repr (st_obj st1) ptr v S" "S \<subseteq> {st_next (fp_store ps)..<st_next st1}"
      "F x \<inter> S = {}" "fp_vars ps x = Some a" by (rule set_prepare [OF L sep x y c])
  obtain fs where fs: "w = F_Array fs" "reprs (st_obj st1) as fs (F x - {a})"
    using repr_object(2) [OF p(5)] p(4) by auto
  define as' where "as' = (if length as \<le> unat i then as @ [ptr] else as[unat i := ptr])"
  define st2 where "st2 = st1\<lparr>st_obj := (st_obj st1)(a \<mapsto> Array_obj as')\<rparr>"
  have aF: "a \<in> F x" by (rule repr_object(1) [OF p(5)])
  have "(F x - {a}) \<inter> S = {}" using p(8) by auto
  then obtain S' where S': "reprs (st_obj st1) as' (fst (Array_set i v fs)) S'" "S' \<subseteq> (F x - {a}) \<union> S"
    using reprs_set [OF fs(2) p(6)] unfolding as'_def by blast
  have aS': "a \<notin> S'" using S'(2) aF p(8) by auto
  have "reprs (st_obj st2) as' (fst (Array_set i v fs)) S'"
    by (rule repr_frame(2) [OF S'(1)]) (use aS' in \<open>auto simp: st2_def\<close>)
  then have r: "repr (st_obj st2) a (F_Array (fst (Array_set i v fs))) (insert a S')"
    by (intro repr_array [of _ _ as'] aS') (simp add: st2_def)
  obtain tmp st3 where t: "Array_clone L as' st2 = (tmp, st3)" by fastforce
  have "insert a S' \<subseteq> {..<st_next st2}"
    using S'(2) aF p(7) separate_in [OF sep, of x] extendsD(1) [OF p(3)] by (fastforce simp: st2_def)
  then have e3: "extends st2 st3"
    using t obj_clone_new [OF L r, of "Array_obj as'" tmp st3] by (simp add: st2_def obj_clone_def)
  have "related L (Inr (ps\<lparr>fp_store := st3\<rparr>)) (Inr (env(x \<mapsto> F_Array (fst (Array_set i v fs)))))"
    using S'(2) p(7) by (intro set_finish [OF L sep p(9) aF p(3) st2_def e3 r]) auto
  then show ?thesis
    using x y c p(1,2,4) t fs(1) by (simp add: Array_obj_set_def as'_def st2_def Let_def)
qed

lemma set_name_related:
  assumes L: "field_lib_laws L" and sep: "separate (fp_store ps) (fp_vars ps) env F"
    and x: "obj_at ps x = Some (a, Table_obj es)" and y: "obj_at ps y = Some (b, ob)"
  shows "related L (obj_step L ps (Set_name x n y)) (value_step env (Set_name x n y))"
proof -
  obtain ptr st1 where c: "obj_clone L ob (fp_store ps) = (ptr, st1)" by fastforce
  obtain w v S where p: "env x = Some w" "env y = Some v" "extends (fp_store ps) st1" "st_obj st1 a = Some (Table_obj es)"
      "repr (st_obj st1) a w (F x)" "repr (st_obj st1) ptr v S" "S \<subseteq> {st_next (fp_store ps)..<st_next st1}"
      "F x \<inter> S = {}" "fp_vars ps x = Some a" by (rule set_prepare [OF L sep x y c])
  obtain t where t: "w = F_Table t" "map fst es = map fst t" "reprs (st_obj st1) (map snd es) (map snd t) (F x - {a})"
    using repr_object(2) [OF p(5)] p(4) by auto
  define st2 where "st2 = st1\<lparr>st_obj := (st_obj st1)(a \<mapsto> Table_obj (map_assign n ptr es))\<rparr>"
  have aF: "a \<in> F x" by (rule repr_object(1) [OF p(5)])
  have "(F x - {a}) \<inter> S = {}" using p(8) by auto
  then obtain S' where S': "map fst (map_assign n ptr es) = map fst (map_assign n v t)"
      "reprs (st_obj st1) (map snd (map_assign n ptr es)) (map snd (map_assign n v t)) S'" "S' \<subseteq> (F x - {a}) \<union> S"
    using reprs_assign [OF t(3,2) p(6)] by blast
  have aS': "a \<notin> S'" using S'(3) aF p(8) by auto
  have "reprs (st_obj st2) (map snd (map_assign n ptr es)) (map snd (map_assign n v t)) S'"
    by (rule repr_frame(2) [OF S'(2)]) (use aS' in \<open>auto simp: st2_def\<close>)
  then have r: "repr (st_obj st2) a (F_Table (Table_set n v t)) (insert a S')"
    using S'(1) by (intro repr_table [of _ _ "map_assign n ptr es"] aS') (simp_all add: st2_def Table_set_def)
  have "related L (Inr (ps\<lparr>fp_store := st2\<rparr>)) (Inr (env(x \<mapsto> F_Table (Table_set n v t))))"
    using S'(3) p(7) by (intro set_finish [OF L sep p(9) aF p(3) st2_def extends_refl r]) auto
  then show ?thesis
    using x y c p(1,2,4) t(1) by (simp add: Table_obj_set_def st2_def)
qed

lemma move_related:
  assumes L: "field_lib_laws L" and sep: "separate (fp_store ps) (fp_vars ps) env F"
    and y: "obj_at ps y = Some (b, ob)" and w: "env y = Some w" "repr (st_obj (fp_store ps)) b w (F y)" "fp_vars ps y = Some b"
    and old: "\<And>h. h b = Some old \<Longrightarrow> repr h b w0 {b}"
    and new: "\<And>h a. h a = Some ob \<Longrightarrow> a \<notin> F y - {b} \<Longrightarrow>
      (\<And>q. q \<in> F y - {b} \<Longrightarrow> h q = st_obj (fp_store ps) q) \<Longrightarrow> repr h a w (insert a (F y - {b}))"
  shows "related L
      (declare_obj x (make_obj ob ((fp_store ps)\<lparr>st_obj := (st_obj (fp_store ps))(b \<mapsto> old)\<rparr>)) ps)
      (declare_value x w (env(y \<mapsto> w0)))"
proof (cases "fp_vars ps x")
  case None
  let ?st0 = "fp_store ps"
  let ?st1 = "?st0\<lparr>st_obj := (st_obj ?st0)(b \<mapsto> old)\<rparr>"
  obtain a st2 where m: "make_obj ob ?st1 = (a, st2)" by fastforce
  note d = make_obj_extends [OF m]
  have a: "a = st_next ?st0" "st_next st2 = Suc (st_next ?st0)" using d(2,3) by simp_all
  have bF: "b \<in> F y" by (rule repr_object(1) [OF w(2)])
  have xy: "x \<noteq> y" using None w(3) by auto
  have lt: "F z \<subseteq> {..<st_next ?st0}" for z by (rule separate_in [OF sep])
  have dis: "F z \<inter> F y = {}" if "z \<noteq> y" for z using sep that unfolding separate_def by blast
  have s1: "separate ?st1 ((fp_vars ps)(y \<mapsto> b)) (env(y \<mapsto> w0)) (F(y := {b}))"
    using bF lt dis by (intro separate_update [OF sep] old) auto
  have v1: "(fp_vars ps)(y \<mapsto> b) = fp_vars ps" using w(3) by auto
  have keep: "st_obj st2 q = st_obj ?st1 q" if "q \<in> F z \<or> q = b" for q z
    using d(5) [of q] that lt [of z] lt [of y] bF a(1) by auto
  have "repr (st_obj st2) a w (insert a (F y - {b}))"
  proof (rule new)
    show "st_obj st2 a = Some ob" by (rule d(4))
    show "a \<notin> F y - {b}" using lt [of y] a(1) by auto
    show "st_obj st2 q = st_obj ?st0 q" if "q \<in> F y - {b}" for q using keep [of q y] that by auto
  qed
  then have "separate st2 (((fp_vars ps)(y \<mapsto> b))(x \<mapsto> a)) ((env(y \<mapsto> w0))(x \<mapsto> w)) ((F(y := {b}))(x := insert a (F y - {b})))"
  proof (intro separate_update [OF s1])
    show "st_next ?st1 \<le> st_next st2" using a(2) by simp
    show "st_obj st2 q = st_obj ?st1 q" if "z \<noteq> x" "q \<in> (F(y := {b})) z" for z q
      using that by (intro keep [of q z]) (auto split: if_splits)
    show "insert a (F y - {b}) \<subseteq> {..<st_next st2}" using a lt [of y] by auto
    show "insert a (F y - {b}) \<inter> (F(y := {b})) z = {}" if "z \<noteq> x" for z
      using lt [of z] lt [of y] bF a(1) dis [of z] by (cases "z = y") auto
  qed
  then have "separate st2 ((fp_vars ps)(x \<mapsto> a)) ((env(y \<mapsto> w0))(x \<mapsto> w)) ((F(y := {b}))(x := insert a (F y - {b})))"
    unfolding v1 .
  then show ?thesis
    using L m None xy separate_vars [OF sep, of x]
    by (auto simp: declare_obj_def declare_value_def obj_rel_def intro!: related_Inr)
next
  case (Some a)
  then show ?thesis using separate_vars [OF sep, of x] by (auto simp: declare_obj_def declare_value_def)
qed

lemma move_step_related:
  assumes L: "field_lib_laws L" and sep: "separate (fp_store ps) (fp_vars ps) env F"
  shows "related L (obj_step L ps (Declare_move x y)) (value_step env (Declare_move x y))"
proof (cases "obj_at ps y")
  case None
  with obj_at_None [OF sep None] show ?thesis by simp
next
  case (Some bo)
  obtain b ob where bo: "bo = (b, ob)" by (cases bo)
  note y = Some [unfolded bo]
  obtain w where w: "env y = Some w" "fp_vars ps y = Some b" "st_obj (fp_store ps) b = Some ob"
      "repr (st_obj (fp_store ps)) b w (F y)" by (rule obj_at_Some [OF sep y])
  show ?thesis
  proof (cases ob)
    case (Scalar_obj u)
    then have "\<not> (\<exists>fs. w = F_Array fs)" "\<not> (\<exists>t. w = F_Table t)" using obj_kind [OF w(4,3)] by auto
    then have "value_step env (Declare_move x y) = Inl Ill_formed" using w(1) by (cases w) auto
    with y Scalar_obj show ?thesis by simp
  next
    case (Array_obj as)
    with repr_object(2) [OF w(4)] w(3) obtain fs where fs: "w = F_Array fs" "reprs (st_obj (fp_store ps)) as fs (F y - {b})"
      by auto
    have "related L
        (declare_obj x (make_obj ob ((fp_store ps)\<lparr>st_obj := (st_obj (fp_store ps))(b \<mapsto> Array_obj [])\<rparr>)) ps)
        (declare_value x w (env(y \<mapsto> F_Array [])))"
    proof (rule move_related [OF L sep y w(1,4,2)])
      show "repr h b (F_Array []) {b}" if "h b = Some (Array_obj [])" for h using that by (rule repr_empty)
      fix h a assume h: "h a = Some ob" "a \<notin> F y - {b}" "\<And>q. q \<in> F y - {b} \<Longrightarrow> h q = st_obj (fp_store ps) q"
      show "repr h a w (insert a (F y - {b}))"
        unfolding fs(1) using h(1) Array_obj by (intro repr_array [OF _ repr_frame(2) [OF fs(2) h(3)] h(2)]) simp_all
    qed
    then show ?thesis using y w(1) fs(1) Array_obj by (simp add: Array_move_def)
  next
    case (Table_obj es)
    with repr_object(2) [OF w(4)] w(3) obtain t where t: "w = F_Table t" "map fst es = map fst t"
        "reprs (st_obj (fp_store ps)) (map snd es) (map snd t) (F y - {b})" by auto
    have "related L
        (declare_obj x (make_obj ob ((fp_store ps)\<lparr>st_obj := (st_obj (fp_store ps))(b \<mapsto> Table_obj [])\<rparr>)) ps)
        (declare_value x w (env(y \<mapsto> F_Table [])))"
    proof (rule move_related [OF L sep y w(1,4,2)])
      show "repr h b (F_Table []) {b}" if "h b = Some (Table_obj [])" for h using that by (rule repr_empty)
      fix h a assume h: "h a = Some ob" "a \<notin> F y - {b}" "\<And>q. q \<in> F y - {b} \<Longrightarrow> h q = st_obj (fp_store ps) q"
      show "repr h a w (insert a (F y - {b}))"
        unfolding t(1) using h(1) Table_obj t(2)
        by (intro repr_table [OF _ _ repr_frame(2) [OF t(3) h(3)] h(2)]) simp_all
    qed
    then show ?thesis using y w(1) t(1) Table_obj by (simp add: Table_move_def)
  qed
qed

lemma assign_related:
  assumes L: "field_lib_laws L" and sep: "separate (fp_store ps) (fp_vars ps) env F"
  shows "related L (obj_step L ps (Assign_scalar x v)) (value_step env (Assign_scalar x v))"
proof (cases "obj_at ps x")
  case None
  with obj_at_None [OF sep None] show ?thesis by simp
next
  case (Some ao)
  obtain a ob where ao: "ao = (a, ob)" by (cases ao)
  note x = Some [unfolded ao]
  obtain w where w: "env x = Some w" "fp_vars ps x = Some a" "st_obj (fp_store ps) a = Some ob"
      "repr (st_obj (fp_store ps)) a w (F x)" by (rule obj_at_Some [OF sep x])
  show ?thesis
  proof (cases "\<exists>u. ob = Scalar_obj u")
    case True
    then obtain u where u: "ob = Scalar_obj u" by blast
    with repr_object(2) [OF w(4)] w(3) have uw: "u = w" by auto
    show ?thesis
    proof (cases "class_of v = class_of w \<and> scalar v")
      case False
      then show ?thesis using x u uw w(1) by (auto simp: scalar_assign_class)
    next
      case cl: True
      let ?st = "(fp_store ps)\<lparr>st_obj := (st_obj (fp_store ps))(a \<mapsto> Scalar_obj v)\<rparr>"
      have aF: "a \<in> F x" by (rule repr_object(1) [OF w(4)])
      have "repr (st_obj ?st) a v {a}" using cl by (intro repr_scalar) simp_all
      then have "related L (Inr (ps\<lparr>fp_store := ?st\<rparr>)) (Inr (env(x \<mapsto> v)))"
        using aF by (intro change_related [OF L sep w(2)]) auto
      then show ?thesis using x u uw w(1) cl by (simp add: scalar_assign_class)
    qed
  next
    case False
    then have "(\<exists>fs. w = F_Array fs) \<or> (\<exists>t. w = F_Table t)" using obj_kind [OF w(4,3)] by (cases ob) auto
    then have "value_step env (Assign_scalar x v) = Inl Ill_formed" using w(1) by (auto simp: scalar_def)
    with False x show ?thesis by (cases ob) simp_all
  qed
qed

lemma set_related:
  assumes L: "field_lib_laws L" and sep: "separate (fp_store ps) (fp_vars ps) env F"
  shows "related L (obj_step L ps (Set_index x i y)) (value_step env (Set_index x i y))"
    and "related L (obj_step L ps (Set_name x n y)) (value_step env (Set_name x n y))"
proof -
  have "related L (obj_step L ps (Set_index x i y)) (value_step env (Set_index x i y)) \<and>
    related L (obj_step L ps (Set_name x n y)) (value_step env (Set_name x n y))"
  proof (cases "obj_at ps x")
    case None
    with obj_at_None [OF sep None] show ?thesis by simp
  next
    case (Some ao)
    obtain a ob where ao: "ao = (a, ob)" by (cases ao)
    note x = Some [unfolded ao]
    obtain w where w: "env x = Some w" "st_obj (fp_store ps) a = Some ob" "repr (st_obj (fp_store ps)) a w (F x)"
      by (rule obj_at_Some [OF sep x])
    note k = obj_kind [OF w(3,2)]
    show ?thesis
    proof (cases "obj_at ps y")
      case None
      then show ?thesis using obj_at_None [OF sep None] x k w(1) by (cases ob; cases w) auto
    next
      case (Some bo)
      obtain b yo where y: "obj_at ps y = Some (b, yo)" using Some by (cases bo) auto
      obtain v where v: "env y = Some v" by (rule obj_at_Some [OF sep y])
      show ?thesis
      proof (cases ob)
        case (Scalar_obj u)
        with x y k w(1) v show ?thesis by (cases w) auto
      next
        case (Array_obj as)
        with set_index_related [OF L sep x [unfolded Array_obj] y] x y k w(1) v show ?thesis by (cases w) auto
      next
        case (Table_obj es)
        with set_name_related [OF L sep x [unfolded Table_obj] y] x y k w(1) v show ?thesis by (cases w) auto
      qed
    qed
  qed
  then show "related L (obj_step L ps (Set_index x i y)) (value_step env (Set_index x i y))"
    and "related L (obj_step L ps (Set_name x n y)) (value_step env (Set_name x n y))" by blast+
qed

lemma step_related:
  assumes "obj_rel L () ps env"
  shows "related L (obj_step L ps e) (value_step env e)"
proof -
  obtain F where L: "field_lib_laws L" and sep: "separate (fp_store ps) (fp_vars ps) env F"
    using assms by (auto simp: obj_rel_def)
  show ?thesis
  proof (cases e)
    case (Declare_scalar x v)
    then show ?thesis using declare_made [OF L sep repr_scalar, where x = x and v = v] by simp
  next
    case (Declare_array x)
    then show ?thesis using declare_made [OF L sep repr_empty(1), where x = x] by (simp add: new_Array_def)
  next
    case (Declare_table x)
    then show ?thesis using declare_made [OF L sep repr_empty(2), where x = x] by (simp add: new_Table_def)
  next
    case (Declare_copy x y)
    with copy_related [OF L sep] show ?thesis by simp
  next
    case (Declare_move x y)
    with move_step_related [OF L sep] show ?thesis by simp
  next
    case (Assign_scalar x v)
    with assign_related [OF L sep] show ?thesis by simp
  next
    case (Set_index x i y)
    with set_related(1) [OF L sep] show ?thesis by simp
  next
    case (Set_name x n y)
    with set_related(2) [OF L sep] show ?thesis by simp
  qed
qed

interpretation fo: fault_simulation "obj_step L" value_step "\<lambda>u e. Some ()" "obj_rel L" "\<lambda>e. [e]" for L
proof
  fix p ps env e p' f
  assume r: "obj_rel L p ps env" and "obj_step L ps e = Inl f"
  with step_related [of L ps env e] show "run_steps value_step env [e] = Inl f" by simp
next
  fix p ps env e p' ps'
  assume r: "obj_rel L p ps env" and "obj_step L ps e = Inr ps'"
  with step_related [of L ps env e] show "\<exists>env'. run_steps value_step env [e] = Inr env' \<and> obj_rel L p' ps' env'"
    by (auto simp: related_def)
qed

subsection \<open>Properties\<close>

definition no_variables :: field_program where
  "no_variables = \<lparr>fp_vars = Map.empty, fp_store = \<lparr>st_obj = Map.empty, st_next = 0\<rparr>\<rparr>"

definition stands_for :: "field_program \<Rightarrow> var \<Rightarrow> field \<Rightarrow> bool" where
  "stands_for ps x v \<longleftrightarrow> (\<exists>a S. fp_vars ps x = Some a \<and> repr (st_obj (fp_store ps)) a v S)"

lemma obj_rel_start: "field_lib_laws L \<Longrightarrow> obj_rel L () no_variables Map.empty"
  by (auto simp: obj_rel_def separate_def no_variables_def intro!: exI [of _ "\<lambda>_. {}"])

text \<open>
  C17. Fields are values although their members are shared pointers: a program of declarations, copies,
  moves, assignments and calls of \<open>set\<close> on arrays and tables, nested in any way and with a container
  set into itself, compiles exactly if the program on plain values does, and every variable stands
  at the end for the value it has there; a later change of one variable never shows in another.
\<close>

theorem fields_are_values:
  assumes "field_lib_laws L"
  shows "case run_steps (obj_step L) no_variables ss of
      Inl f \<Rightarrow> run_steps value_step Map.empty ss = Inl f
    | Inr ps \<Rightarrow> \<exists>env. run_steps value_step Map.empty ss = Inr env \<and>
        (\<forall>x. case env x of None \<Rightarrow> fp_vars ps x = None | Some v \<Rightarrow> stands_for ps x v)"
proof -
  have "case run_steps (obj_step L) no_variables ss of
      Inl f \<Rightarrow> run_steps value_step Map.empty ss = Inl f
    | Inr ps \<Rightarrow> \<exists>env. run_steps value_step Map.empty ss = Inr env \<and> obj_rel L () ps env"
    using fo.run_sim [OF obj_rel_start [OF assms] protocol_ok_free, of ss] by (simp split: sum.splits)
  moreover have "case env x of None \<Rightarrow> fp_vars ps x = None | Some v \<Rightarrow> stands_for ps x v"
    if "obj_rel L () ps env" for ps env x
  proof -
    obtain F where "separate (fp_store ps) (fp_vars ps) env F" using \<open>obj_rel L () ps env\<close> by (auto simp: obj_rel_def)
    from separate_var [OF this, of x] show ?thesis by (auto simp: stands_for_def split: option.splits)
  qed
  ultimately show ?thesis by (fastforce split: sum.splits)
qed

subsection \<open>A library that copies\<close>

fun obj_value :: "nat \<Rightarrow> (addr \<Rightarrow> fobj option) \<Rightarrow> addr \<Rightarrow> field option" where
  "obj_value 0 h a = None"
| "obj_value (Suc n) h a =
     (case h a of
        None \<Rightarrow> None
      | Some (Scalar_obj v) \<Rightarrow> Some v
      | Some (Array_obj as) \<Rightarrow> map_option F_Array (those (map (obj_value n h) as))
      | Some (Table_obj es) \<Rightarrow>
          map_option (\<lambda>vs. F_Table (zip (map fst es) vs)) (those (map (obj_value n h) (map snd es))))"

lemma size_map_snd: "size_list (size \<circ> snd) t \<le> size_list (size_prod (\<lambda>_. 0) size) t"
  by (induction t) auto

function (sequential) build :: "field \<Rightarrow> store \<Rightarrow> addr \<times> store"
  and builds :: "field list \<Rightarrow> store \<Rightarrow> addr list \<times> store" where
  "build (F_Array fs) st = (case builds fs st of (as, st1) \<Rightarrow> make_obj (Array_obj as) st1)"
| "build (F_Table t) st = (case builds (map snd t) st of (as, st1) \<Rightarrow> make_obj (Table_obj (zip (map fst t) as)) st1)"
| "build v st = make_obj (Scalar_obj v) st"
| "builds [] st = ([], st)"
| "builds (v # vs) st = (case build v st of (a, st1) \<Rightarrow> case builds vs st1 of (as, st2) \<Rightarrow> (a # as, st2))"
  by pat_completeness auto

termination
  by (relation "measure (case_sum (\<lambda>(v, st). size v) (\<lambda>(vs, st). size_list size vs))")
    (auto simp: size_map_snd less_Suc_eq_le)

lemma build_scalar: "scalar v \<Longrightarrow> build v st = make_obj (Scalar_obj v) st"
  by (cases v) (simp_all add: scalar_def)

lemma made_scalar:
  assumes "make_obj (Scalar_obj v) st = (a, st')" and "scalar v"
  shows "extends st st' \<and> (\<exists>S. repr (st_obj st') a v S \<and> S \<subseteq> {st_next st..<st_next st'})"
  by (rule made_over [OF extends_refl assms(1), of "{}"]) (simp_all add: repr_scalar assms(2))

lemma build_new:
  shows "build v st = (a, st') \<Longrightarrow>
      extends st st' \<and> (\<exists>S. repr (st_obj st') a v S \<and> S \<subseteq> {st_next st..<st_next st'})"
    and "builds vs st = (as, st') \<Longrightarrow>
      extends st st' \<and> (\<exists>S. reprs (st_obj st') as vs S \<and> S \<subseteq> {st_next st..<st_next st'})"
proof (induction v st and vs st arbitrary: a st' and as st' rule: build_builds.induct)
  case (1 fs st)
  obtain as st1 where b: "builds fs st = (as, st1)" by fastforce
  obtain S' where s: "extends st st1" "reprs (st_obj st1) as fs S'" "S' \<subseteq> {st_next st..<st_next st1}"
    using "1.IH" [OF b] by blast
  have m: "make_obj (Array_obj as) st1 = (a, st')" using "1.prems" b by simp
  have "a \<notin> S'" using s(3) make_obj_extends(2) [OF m] by auto
  then show ?case
    by (intro made_over [OF s(1) m s(3)] repr_array [of _ _ as] repr_frame(2) [OF s(2)]) simp_all
next
  case (2 t st)
  obtain as st1 where b: "builds (map snd t) st = (as, st1)" by fastforce
  obtain S' where s: "extends st st1" "reprs (st_obj st1) as (map snd t) S'" "S' \<subseteq> {st_next st..<st_next st1}"
    using "2.IH" [OF b] by blast
  have m: "make_obj (Table_obj (zip (map fst t) as)) st1 = (a, st')" using "2.prems" b by simp
  have l: "length as = length t" using reprs_length [OF s(2)] by simp
  have "a \<notin> S'" using s(3) make_obj_extends(2) [OF m] by auto
  with l show ?case
    by (intro made_over [OF s(1) m s(3)] repr_table [of _ _ "zip (map fst t) as"])
      (simp_all add: repr_frame(2) [OF s(2)])
next
  case (4 st)
  then show ?case using reprs_Nil by auto
next
  case (5 v vs st)
  obtain b st1 where b: "build v st = (b, st1)" by fastforce
  obtain bs st2 where bs: "builds vs st1 = (bs, st2)" by fastforce
  from "5.IH"(1) [OF b] obtain S where S: "extends st st1" "repr (st_obj st1) b v S" "S \<subseteq> {st_next st..<st_next st1}"
    by blast
  from "5.IH"(2) [OF b [symmetric] bs] obtain T where T: "extends st1 st2" "reprs (st_obj st2) bs vs T"
      "T \<subseteq> {st_next st1..<st_next st2}" by blast
  have "repr (st_obj st2) b v S"
    by (rule repr_frame(1) [OF S(2)]) (use S(3) extendsD(2) [OF T(1)] in auto)
  moreover have "S \<inter> T = {}" using S(3) T(3) by fastforce
  ultimately have "reprs (st_obj st2) (b # bs) (v # vs) (S \<union> T)" by (rule reprs_Cons [OF _ T(2)])
  moreover have "S \<union> T \<subseteq> {st_next st..<st_next st2}" using S(1,3) T(1,3) extendsD(1) by fastforce
  moreover have "as = b # bs" "st' = st2" using "5.prems" b bs by simp_all
  ultimately show ?case using extends_trans [OF S(1) T(1)] by blast
qed (simp_all add: made_scalar scalar_def)

lemma card_insert_le: "finite S \<Longrightarrow> a \<notin> S \<Longrightarrow> card (insert a S) \<le> n \<Longrightarrow> \<exists>m. n = Suc m \<and> card S \<le> m"
  by (cases n) auto

lemma repr_value:
  shows "repr h a v S \<Longrightarrow> finite S \<and> (\<forall>n \<ge> card S. obj_value n h a = Some v)"
    and "reprs h as vs S \<Longrightarrow> finite S \<and> (\<forall>n \<ge> card S. those (map (obj_value n h) as) = Some vs)"
proof (induction rule: repr_reprs.inducts)
  case (repr_scalar a v)
  then show ?case by (auto simp: Suc_le_eq gr0_conv_Suc)
next
  case (repr_array a as fs S)
  then have "obj_value n h a = Some (F_Array fs)" if "card (insert a S) \<le> n" for n
    using card_insert_le [OF _ _ that] by fastforce
  with repr_array show ?case by blast
next
  case (repr_table a es t S)
  have "zip (map fst t) (map snd t) = t" by (simp add: zip_map_fst_snd)
  with repr_table have "obj_value n h a = Some (F_Table t)" if "card (insert a S) \<le> n" for n
    using card_insert_le [OF _ _ that] by fastforce
  with repr_table show ?case by blast
next
  case reprs_Nil
  show ?case by simp
next
  case (reprs_Cons a v S as vs T)
  have "card (S \<union> T) = card S + card T" using reprs_Cons by (intro card_Un_disjoint) auto
  with reprs_Cons show ?case by auto
qed

definition copy_lib :: field_lib where
  "copy_lib =
     \<lparr>fl_copy_array = (\<lambda>as st.
        case those (map (obj_value (st_next st) (st_obj st)) as) of
          None \<Rightarrow> (as, st)
        | Some vs \<Rightarrow> builds vs st),
      fl_copy_table = (\<lambda>es st.
        case those (map (obj_value (st_next st) (st_obj st)) (map snd es)) of
          None \<Rightarrow> (es, st)
        | Some vs \<Rightarrow> (case builds vs st of (as, st') \<Rightarrow> (zip (map fst es) as, st')))\<rparr>"

lemma reprs_values:
  assumes "reprs (st_obj st) as vs S" and "S \<subseteq> {..<st_next st}"
  shows "those (map (obj_value (st_next st) (st_obj st)) as) = Some vs"
  using repr_value(2) [OF assms(1)] card_mono [OF _ assms(2)] by simp

lemma copy_lib_laws: "field_lib_laws copy_lib"
  unfolding field_lib_laws_def
proof (intro conjI allI impI)
  fix st :: store and as vs S
  assume "reprs (st_obj st) as vs S \<and> S \<subseteq> {..<st_next st}"
  then have v: "those (map (obj_value (st_next st) (st_obj st)) as) = Some vs" using reprs_values by blast
  obtain as' st' where b: "builds vs st = (as', st')" by fastforce
  from build_new(2) [OF b] v b
  show "case fl_copy_array copy_lib as st of (as', st') \<Rightarrow>
      extends st st' \<and> (\<exists>S'. reprs (st_obj st') as' vs S' \<and> S' \<subseteq> {st_next st..<st_next st'})"
    by (simp add: copy_lib_def)
next
  fix st :: store and es :: "(octets \<times> addr) list" and vs S
  assume r: "reprs (st_obj st) (map snd es) vs S \<and> S \<subseteq> {..<st_next st}"
  then have v: "those (map (obj_value (st_next st) (st_obj st)) (map snd es)) = Some vs" using reprs_values by blast
  obtain as' st' where b: "builds vs st = (as', st')" by fastforce
  obtain S' where S': "extends st st'" "reprs (st_obj st') as' vs S'" "S' \<subseteq> {st_next st..<st_next st'}"
    using build_new(2) [OF b] by blast
  have "length as' = length es" using reprs_length [OF S'(2)] reprs_length r by fastforce
  with S' v b show "case fl_copy_table copy_lib es st of (es', st') \<Rightarrow> map fst es' = map fst es \<and>
      extends st st' \<and> (\<exists>S'. reprs (st_obj st') (map snd es') vs S' \<and> S' \<subseteq> {st_next st..<st_next st'})"
    by (auto simp: copy_lib_def)
qed

text \<open>A table set into itself, and a member changed after it was stored.\<close>

definition sharing_program :: "field_stmt list" where
  "sharing_program =
     [Declare_table ''t'', Declare_scalar ''v'' (F_UOctet 1), Set_name ''t'' [1] ''v'',
      Assign_scalar ''v'' (F_UOctet 2), Set_name ''t'' [2] ''t'', Declare_move ''u'' ''t'']"

theorem fields_are_values_witness:
  "case run_steps (obj_step copy_lib) no_variables sharing_program of
     Inl f \<Rightarrow> False
   | Inr ps \<Rightarrow> stands_for ps ''t'' (F_Table []) \<and> stands_for ps ''v'' (F_UOctet 2) \<and>
       stands_for ps ''u'' (F_Table [([1], F_UOctet 1), ([2], F_Table [([1], F_UOctet 1)])])"
proof -
  let ?run = "run_steps (obj_step copy_lib) no_variables sharing_program"
  have v: "run_steps value_step Map.empty sharing_program =
      Inr [''t'' \<mapsto> F_Table [], ''v'' \<mapsto> F_UOctet 2,
        ''u'' \<mapsto> F_Table [([1], F_UOctet 1), ([2], F_Table [([1], F_UOctet 1)])]]"
    by (simp add: sharing_program_def declare_value_def scalar_def Table_set_def fun_upd_twist)
  note r = fields_are_values [OF copy_lib_laws, of sharing_program, unfolded v]
  show ?thesis
  proof (cases ?run)
    case (Inl f)
    with r show ?thesis by simp
  next
    case (Inr ps)
    with r obtain env where env: "env = [''t'' \<mapsto> F_Table [], ''v'' \<mapsto> F_UOctet 2,
        ''u'' \<mapsto> F_Table [([1], F_UOctet 1), ([2], F_Table [([1], F_UOctet 1)])]]"
      "\<And>x. case env x of None \<Rightarrow> fp_vars ps x = None | Some v \<Rightarrow> stands_for ps x v" by auto
    show ?thesis using env(2) [of "''t''"] env(2) [of "''v''"] env(2) [of "''u''"] Inr by (simp add: env(1))
  qed
qed

end
