(* ===== verification/Amqp_Tcp.thy ===== *)
theory Amqp_Tcp
  imports Amqp_Facade
begin

section \<open>AMQP: the TCP connection and the interfaces of its handlers\<close>

text \<open>
  \<open>include/amqpcpp/connectionhandler.h\<close>, \<open>linux_tcp/tcphandler.h\<close>, \<open>tcpparent.h\<close>, \<open>tcpconnection.h\<close> and
  the inline part of \<open>receivedframe.h\<close>. An interface with virtual functions is a record of functions
  on the state \<open>'h\<close> of the object that implements it; a function that fails yields an element of \<open>'e\<close>.
  The default functions are those of the base class. A TCP connection passes what its AMQP
  connection and its socket report on to its handler; its functions that are not inline (\<open>onData\<close>,
  \<open>onError\<close>, \<open>onClosed\<close>, \<open>onLost\<close>, \<open>process\<close>, \<open>close\<close>) are in the prebuilt library.
\<close>

subsection \<open>ConnectionHandler and TcpHandler\<close>

record ('e, 'h) connection_handler =
  hd_onProperties :: "table \<Rightarrow> table \<Rightarrow> 'h \<Rightarrow> 'e + table \<times> 'h"
  hd_onNegotiate :: "u16 \<Rightarrow> 'h \<Rightarrow> 'e + u16 \<times> 'h"
  hd_onData :: "octets \<Rightarrow> 'h \<Rightarrow> 'e + 'h"
  hd_onHeartbeat :: "'h \<Rightarrow> 'e + 'h"
  hd_onError :: "string \<Rightarrow> 'h \<Rightarrow> 'e + 'h"
  hd_onReady :: "'h \<Rightarrow> 'e + 'h"
  hd_onClosed :: "'h \<Rightarrow> 'e + 'h"

text \<open>\<open>onData\<close> has no default.\<close>

definition default_ConnectionHandler :: "(octets \<Rightarrow> 'h \<Rightarrow> 'e + 'h) \<Rightarrow> ('e, 'h) connection_handler" where
  "default_ConnectionHandler dat =
     \<lparr>hd_onProperties = (\<lambda>server client h. Inr (client, h)),
      hd_onNegotiate = (\<lambda>interval h. Inr (0, h)),
      hd_onData = dat,
      hd_onHeartbeat = (\<lambda>h. Inr h),
      hd_onError = (\<lambda>msg h. Inr h),
      hd_onReady = (\<lambda>h. Inr h),
      hd_onClosed = (\<lambda>h. Inr h)\<rparr>"

record ('e, 'h) tcp_handler =
  th_onAttached :: "addr \<Rightarrow> 'h \<Rightarrow> 'e + 'h"
  th_onConnected :: "addr \<Rightarrow> 'h \<Rightarrow> 'e + 'h"
  th_onSecured :: "addr \<Rightarrow> 'h \<Rightarrow> 'e + bool \<times> 'h"
  th_onProperties :: "addr \<Rightarrow> table \<Rightarrow> table \<Rightarrow> 'h \<Rightarrow> 'e + table \<times> 'h"
  th_onNegotiate :: "addr \<Rightarrow> u16 \<Rightarrow> 'h \<Rightarrow> 'e + u16 \<times> 'h"
  th_onReady :: "addr \<Rightarrow> 'h \<Rightarrow> 'e + 'h"
  th_onHeartbeat :: "addr \<Rightarrow> 'h \<Rightarrow> 'e + 'h"
  th_onError :: "addr \<Rightarrow> string \<Rightarrow> 'h \<Rightarrow> 'e + 'h"
  th_onClosed :: "addr \<Rightarrow> 'h \<Rightarrow> 'e + 'h"
  th_onLost :: "addr \<Rightarrow> 'h \<Rightarrow> 'e + 'h"
  th_onDetached :: "addr \<Rightarrow> 'h \<Rightarrow> 'e + 'h"
  th_monitor :: "addr \<Rightarrow> c_int \<Rightarrow> c_int \<Rightarrow> 'h \<Rightarrow> 'e + 'h"

definition default_TcpHandler :: "(addr \<Rightarrow> c_int \<Rightarrow> c_int \<Rightarrow> 'h \<Rightarrow> 'e + 'h) \<Rightarrow> ('e, 'h) tcp_handler" where
  "default_TcpHandler mon =
     \<lparr>th_onAttached = (\<lambda>conn h. Inr h),
      th_onConnected = (\<lambda>conn h. Inr h),
      th_onSecured = (\<lambda>conn h. Inr (True, h)),
      th_onProperties = (\<lambda>conn server client h. Inr (client, h)),
      th_onNegotiate = (\<lambda>conn interval h. Inr (interval, h)),
      th_onReady = (\<lambda>conn h. Inr h),
      th_onHeartbeat = (\<lambda>conn h. Inr h),
      th_onError = (\<lambda>conn msg h. Inr h),
      th_onClosed = (\<lambda>conn h. Inr h),
      th_onLost = (\<lambda>conn h. Inr h),
      th_onDetached = (\<lambda>conn h. Inr h),
      th_monitor = mon\<rparr>"

text \<open>What \<open>LibEventHandler\<close> overrides.\<close>

definition LibEventHandler :: "c_int \<Rightarrow> c_int \<Rightarrow> (handler_fault, libevent_handler) tcp_handler" where
  "LibEventHandler rd wr =
     (default_TcpHandler (\<lambda>conn fd flags h. Inr (monitor rd wr conn fd flags h)))
       \<lparr>th_onNegotiate := \<lambda>conn interval h. Inr (lh_onNegotiate conn interval h),
        th_onLost := lh_onLost\<rparr>"

subsection \<open>TcpConnection\<close>

record ('e, 'h) tcp_connection =
  tc_self :: addr
  tc_handler :: "('e, 'h) tcp_handler"
  tc_state :: "addr option"
  tc_connection :: connection_impl

definition tc_onHeartbeat :: "('e, 'h) tcp_connection \<Rightarrow> 'h \<Rightarrow> 'e + 'h" where
  "tc_onHeartbeat tc = th_onHeartbeat (tc_handler tc) (tc_self tc)"

definition tc_onReady :: "('e, 'h) tcp_connection \<Rightarrow> 'h \<Rightarrow> 'e + 'h" where
  "tc_onReady tc = th_onReady (tc_handler tc) (tc_self tc)"

definition tc_onConnected :: "('e, 'h) tcp_connection \<Rightarrow> 'h \<Rightarrow> 'e + 'h" where
  "tc_onConnected tc = th_onConnected (tc_handler tc) (tc_self tc)"

definition tc_onSecured :: "('e, 'h) tcp_connection \<Rightarrow> 'h \<Rightarrow> 'e + bool \<times> 'h" where
  "tc_onSecured tc = th_onSecured (tc_handler tc) (tc_self tc)"

definition tc_onReceived ::
  "(byte_buffer \<Rightarrow> connection_impl \<Rightarrow> u64 \<times> connection_impl) \<Rightarrow> byte_buffer \<Rightarrow>
   ('e, 'h) tcp_connection \<Rightarrow> u64 \<times> ('e, 'h) tcp_connection" where
  "tc_onReceived lib_parse buffer tc =
     (case Connection_parse lib_parse buffer (tc_connection tc) of
        (n, c) \<Rightarrow> (n, tc\<lparr>tc_connection := c\<rparr>))"

definition tc_onIdle :: "c_int \<Rightarrow> c_int \<Rightarrow> ('e, 'h) tcp_connection \<Rightarrow> 'h \<Rightarrow> 'e + 'h" where
  "tc_onIdle fd events tc = th_monitor (tc_handler tc) (tc_self tc) fd events"

text \<open>The virtual \<open>expected\<close> of \<open>TcpParent\<close> yields a \<open>size_t\<close>.\<close>

definition tc_parent_expected :: "('e, 'h) tcp_connection \<Rightarrow> u64" where
  "tc_parent_expected tc = ucast (Connection_expected (tc_connection tc))"

definition tc_ready :: "('e, 'h) tcp_connection \<Rightarrow> bool" where
  "tc_ready tc = Connection_ready (tc_connection tc)"

definition tc_usable :: "('e, 'h) tcp_connection \<Rightarrow> bool" where
  "tc_usable tc = Connection_usable (tc_connection tc)"

definition tc_maxFrame :: "('e, 'h) tcp_connection \<Rightarrow> u32" where
  "tc_maxFrame tc = Connection_maxFrame (tc_connection tc)"

definition tc_expected :: "('e, 'h) tcp_connection \<Rightarrow> u32" where
  "tc_expected tc = Connection_expected (tc_connection tc)"

definition tc_channels :: "('e, 'h) tcp_connection \<Rightarrow> nat" where
  "tc_channels tc = Connection_channels (tc_connection tc)"

definition tc_heartbeat ::
  "(connection_impl \<Rightarrow> bool \<times> connection_impl) \<Rightarrow> ('e, 'h) tcp_connection \<Rightarrow>
   bool \<times> ('e, 'h) tcp_connection" where
  "tc_heartbeat lib_heartbeat tc =
     (case Connection_heartbeat lib_heartbeat (tc_connection tc) of
        (ok, c) \<Rightarrow> (ok, tc\<lparr>tc_connection := c\<rparr>))"

text \<open>
  \<open>TcpParent\<close> is the interface through which a TCP state (at an address) reports; the TCP connection
  implements it, with its own functions for errors and lost connections in the prebuilt library.
\<close>

record ('e, 's) tcp_parent =
  tp_onConnected :: "addr \<Rightarrow> 's \<Rightarrow> 'e + 's"
  tp_onSecured :: "addr \<Rightarrow> 's \<Rightarrow> 'e + bool \<times> 's"
  tp_onReceived :: "addr \<Rightarrow> byte_buffer \<Rightarrow> 's \<Rightarrow> 'e + u64 \<times> 's"
  tp_onIdle :: "addr \<Rightarrow> c_int \<Rightarrow> c_int \<Rightarrow> 's \<Rightarrow> 'e + 's"
  tp_onError :: "addr \<Rightarrow> string \<Rightarrow> bool \<Rightarrow> 's \<Rightarrow> 'e + 's"
  tp_onLost :: "addr \<Rightarrow> 's \<Rightarrow> 'e + 's"
  tp_expected :: "'s \<Rightarrow> u64"

definition TcpConnection_parent ::
  "(byte_buffer \<Rightarrow> connection_impl \<Rightarrow> u64 \<times> connection_impl) \<Rightarrow>
   (addr \<Rightarrow> string \<Rightarrow> bool \<Rightarrow> ('e, 'h) tcp_connection \<times> 'h \<Rightarrow> 'e + ('e, 'h) tcp_connection \<times> 'h) \<Rightarrow>
   (addr \<Rightarrow> ('e, 'h) tcp_connection \<times> 'h \<Rightarrow> 'e + ('e, 'h) tcp_connection \<times> 'h) \<Rightarrow>
   ('e, ('e, 'h) tcp_connection \<times> 'h) tcp_parent" where
  "TcpConnection_parent lib_parse lib_error lib_lost =
     \<lparr>tp_onConnected = (\<lambda>state (tc, h). map_sum (\<lambda>e. e) (Pair tc) (tc_onConnected tc h)),
      tp_onSecured = (\<lambda>state (tc, h). map_sum (\<lambda>e. e) (\<lambda>(ok, h'). (ok, tc, h')) (tc_onSecured tc h)),
      tp_onReceived = (\<lambda>state buffer (tc, h).
         case tc_onReceived lib_parse buffer tc of (n, tc') \<Rightarrow> Inr (n, tc', h)),
      tp_onIdle = (\<lambda>state fd events (tc, h). map_sum (\<lambda>e. e) (Pair tc) (tc_onIdle fd events tc h)),
      tp_onError = lib_error,
      tp_onLost = lib_lost,
      tp_expected = (\<lambda>(tc, h). tc_parent_expected tc)\<rparr>"

text \<open>A channel of a TCP connection is a channel of its AMQP connection.\<close>

definition TcpChannel_new ::
  "(connection_impl \<Rightarrow> addr option \<times> connection_impl) \<Rightarrow> ('e, 'h) tcp_connection \<Rightarrow>
   channel_handle option \<times> ('e, 'h) tcp_connection" where
  "TcpChannel_new attach tc =
     (case attach (tc_connection tc) of (impl, c) \<Rightarrow> (Channel_new impl, tc\<lparr>tc_connection := c\<rparr>))"

text \<open>What the layers below report to the TCP connections that share one handler, in order.\<close>

datatype tcp_event =
    Te_idle c_int c_int
  | Te_connected
  | Te_secured
  | Te_ready
  | Te_heartbeat

fun tcp_report :: "('e, 'h) tcp_connection \<Rightarrow> tcp_event \<Rightarrow> 'h \<Rightarrow> 'e + 'h" where
  "tcp_report tc (Te_idle fd events) h = tc_onIdle fd events tc h"
| "tcp_report tc Te_connected h = tc_onConnected tc h"
| "tcp_report tc Te_secured h = map_sum (\<lambda>e. e) snd (tc_onSecured tc h)"
| "tcp_report tc Te_ready h = tc_onReady tc h"
| "tcp_report tc Te_heartbeat h = tc_onHeartbeat tc h"

fun tcp_reports :: "(('e, 'h) tcp_connection \<times> tcp_event) list \<Rightarrow> 'h \<Rightarrow> 'e + 'h" where
  "tcp_reports [] h = Inr h"
| "tcp_reports ((tc, e) # es) h =
     (case tcp_report tc e h of Inl f \<Rightarrow> Inl f | Inr h' \<Rightarrow> tcp_reports es h')"

text \<open>
  Who is told of the events of a descriptor: the connection that asked for it first since it was last
  given up, and for which events: those asked for last.
\<close>

fun watching ::
  "c_int \<Rightarrow> (addr \<times> c_int) option \<Rightarrow> (('e, 'h) tcp_connection \<times> tcp_event) list \<Rightarrow> (addr \<times> c_int) option" where
  "watching fd w [] = w"
| "watching fd w ((tc, Te_idle fd' events) # es) =
     watching fd
       (if fd' \<noteq> fd then w
        else if events = 0 then None
        else Some (case w of None \<Rightarrow> tc_self tc | Some (conn, old) \<Rightarrow> conn, events)) es"
| "watching fd w ((tc, _) # es) = watching fd w es"

lemma LibEventHandler_report:
  assumes "tc_handler tc = LibEventHandler rd wr"
  shows "tcp_report tc e h =
    Inr (case e of Te_idle fd events \<Rightarrow> monitor rd wr (tc_self tc) fd events h | _ \<Rightarrow> h)"
  using assms
  by (cases e)
    (simp_all add: tc_onIdle_def tc_onConnected_def tc_onSecured_def tc_onReady_def tc_onHeartbeat_def
      LibEventHandler_def default_TcpHandler_def)

lemma tcp_reports_watching:
  assumes "\<forall>(tc, e) \<in> set es. tc_handler tc = LibEventHandler rd wr"
    and "lh_watchers h fd = map_option (apsnd (event_flags_of rd wr)) w"
  shows "\<exists>h'. tcp_reports es h = Inr h' \<and>
    lh_watchers h' fd = map_option (apsnd (event_flags_of rd wr)) (watching fd w es)"
  using assms
proof (induction es arbitrary: h w)
  case Nil
  then show ?case by simp
next
  case (Cons x es)
  obtain tc e where x: "x = (tc, e)" by (cases x)
  have hd: "tc_handler tc = LibEventHandler rd wr" using Cons.prems x by simp
  show ?case
  proof (cases e)
    case (Te_idle fd' events)
    let ?w = "if fd' \<noteq> fd then w else if events = 0 then None
        else Some (case w of None \<Rightarrow> tc_self tc | Some (conn, old) \<Rightarrow> conn, events)"
    have "lh_watchers (monitor rd wr (tc_self tc) fd' events h) fd =
        map_option (apsnd (event_flags_of rd wr)) ?w"
      using Cons.prems(2) by (auto simp: monitor_def split: option.splits prod.splits)
    then show ?thesis
      using Cons.IH [of "monitor rd wr (tc_self tc) fd' events h" ?w] Cons.prems(1) x Te_idle hd
      by (simp add: LibEventHandler_report [OF hd] del: tcp_report.simps split del: if_split)
  qed (use Cons x hd in \<open>simp_all add: LibEventHandler_report del: tcp_report.simps\<close>)
qed

subsection \<open>ReceivedFrame\<close>

text \<open>The header of a frame that was received; \<open>totalSize\<close> adds in 32 bits and widens the sum.\<close>

record received_frame =
  rf_buffer :: byte_buffer
  rf_skip :: u32
  rf_type :: u8
  rf_channel :: u16
  rf_payloadSize :: u32

definition rf_get_channel :: "received_frame \<Rightarrow> u16" where
  "rf_get_channel fr = rf_channel fr"

definition totalSize :: "received_frame \<Rightarrow> u64" where
  "totalSize fr = ucast (rf_payloadSize fr + 8)"

definition payloadSize :: "received_frame \<Rightarrow> u32" where
  "payloadSize fr = rf_payloadSize fr"

lemma unat_totalSize: "unat (totalSize fr) = (unat (rf_payloadSize fr) + 8) mod 2 ^ 32"
proof -
  have "unat (rf_payloadSize fr + 8) < 2 ^ 32" using unsigned_less [of "rf_payloadSize fr + 8"] by simp
  then have "unat (totalSize fr) = unat (rf_payloadSize fr + 8)"
    by (simp add: totalSize_def unsigned_ucast_eq take_bit_nat_eq_self)
  then show ?thesis by (simp add: unat_word_ariths)
qed

subsection \<open>Properties\<close>

text \<open>
  Watching through the TCP layer: for any sequence of reports from any TCP connections to the libevent
  handler they share, a descriptor is watched exactly if its last report asked for events, for
  exactly these events, and they are passed to the connection that asked first since the descriptor
  was last given up; so a descriptor that is used again before it was given up is still reported to
  its old connection.
\<close>

theorem tcp_watches_descriptors:
  assumes "\<forall>(tc, e) \<in> set es. tc_handler tc = LibEventHandler rd wr"
  shows "\<exists>h. tcp_reports es new_LibEventHandler = Inr h \<and>
    (\<forall>fd. lh_watchers h fd = map_option (apsnd (event_flags_of rd wr)) (watching fd None es))"
proof -
  have r: "\<exists>h. tcp_reports es new_LibEventHandler = Inr h \<and>
      lh_watchers h fd = map_option (apsnd (event_flags_of rd wr)) (watching fd None es)" for fd
    using tcp_reports_watching [OF assms, of new_LibEventHandler fd None]
    by (simp add: new_LibEventHandler_def)
  then obtain h where h: "tcp_reports es new_LibEventHandler = Inr h" by blast
  have "lh_watchers h fd = map_option (apsnd (event_flags_of rd wr)) (watching fd None es)" for fd
    using r [of fd] h by auto
  with h show ?thesis by blast
qed

definition example_tcp :: "addr \<Rightarrow> (handler_fault, libevent_handler) tcp_connection" where
  "example_tcp a =
     \<lparr>tc_self = a, tc_handler = LibEventHandler 1 2, tc_state = None, tc_connection = Connection_new Cn_default\<rparr>"

theorem tcp_watches_descriptors_witness:
  "\<exists>h. tcp_reports [(example_tcp 7, Te_idle 3 1), (example_tcp 7, Te_connected), (example_tcp 8, Te_idle 3 2)]
      new_LibEventHandler = Inr h \<and> map_option fst (lh_watchers h 3) = Some 7"
proof -
  have e: "\<forall>(tc, e) \<in> set [(example_tcp 7, Te_idle 3 1), (example_tcp 7, Te_connected), (example_tcp 8, Te_idle 3 2)].
      tc_handler tc = LibEventHandler 1 2"
    by (simp add: example_tcp_def)
  have "watching 3 None [(example_tcp 7, Te_idle 3 1), (example_tcp 7, Te_connected), (example_tcp 8, Te_idle 3 2)] =
      Some (7, 2)"
    by (simp add: example_tcp_def)
  with tcp_watches_descriptors [OF e] show ?thesis by auto
qed

text \<open>
  The size of a received frame: within a capacity of at least 8 octets, a payload the connection
  allows gives a frame of 8 octets more, within the capacity. With the capacity 0, by which a server
  says that there is no limit, payloads of up to \<open>2 ^ 32 - 8\<close> octets are allowed, and the total
  size of a frame with the largest one is 0.
\<close>

theorem frame_total_size:
  "(8 \<le> unat sz \<and> payloadSize fr \<le> maxPayload (setCapacity n sz c) \<longrightarrow>
      unat (totalSize fr) = unat (payloadSize fr) + 8 \<and> unat (totalSize fr) \<le> unat sz) \<and>
   (sz = 0 \<and> payloadSize fr = maxPayload (setCapacity n sz c) \<longrightarrow>
      unat (payloadSize fr) = 2 ^ 32 - 8 \<and> totalSize fr = 0)"
proof -
  have "unat (totalSize fr) = unat (payloadSize fr) + 8 \<and> unat (totalSize fr) \<le> unat sz"
    if "8 \<le> unat sz" "payloadSize fr \<le> maxPayload (setCapacity n sz c)"
  proof -
    have "unat (maxPayload (setCapacity n sz c)) + 8 = unat sz"
      using that(1) by (simp add: maxPayload_def setCapacity_def unat_sub word_le_nat_alt)
    moreover have "unat (payloadSize fr) \<le> unat (maxPayload (setCapacity n sz c))"
      using that(2) by (simp add: word_le_nat_alt)
    moreover have "unat sz < 2 ^ 32" using unsigned_less [of sz] by simp
    ultimately show ?thesis by (simp add: unat_totalSize payloadSize_def)
  qed
  moreover have "unat (payloadSize fr) = 2 ^ 32 - 8 \<and> totalSize fr = 0"
    if "sz = 0" "payloadSize fr = maxPayload (setCapacity n sz c)"
  proof -
    have "payloadSize fr = - 8" using that by (simp add: maxPayload_def setCapacity_def)
    then show ?thesis by (simp add: totalSize_def payloadSize_def)
  qed
  ultimately show ?thesis by blast
qed

theorem frame_total_size_witness:
  "totalSize \<lparr>rf_buffer = ByteBuffer [] 0, rf_skip = 0, rf_type = 0, rf_channel = 0, rf_payloadSize = - 8\<rparr> = 0"
  using frame_total_size [of 0 "\<lparr>rf_buffer = ByteBuffer [] 0, rf_skip = 0, rf_type = 0, rf_channel = 0, rf_payloadSize = - 8\<rparr>"
      5 "Connection_new Cn_default"]
  by (simp add: payloadSize_def maxPayload_def setCapacity_def)

end
