(* ===== verification/Amqp_Libev.thy ===== *)
theory Amqp_Libev
  imports Complex_Main Amqp_Connection
begin

section \<open>AMQP: the libev handler and its heartbeat timer\<close>

text \<open>
  \<open>include/amqpcpp/libev.h\<close>. Every connection of the handler has a wrapper with the watchers of its
  descriptors and one timer, which first limits the time for setting the connection up and then
  paces the heartbeats. The calls to libev and to the connection are the output of the operations;
  the time that \<open>ev_now\<close> returns and whether the connection is \<open>ready()\<close> are arguments. A time is a
  \<open>double\<close> in the code and an exact rational here. The connection may call back: \<open>back\<close> is the
  wrapper after a call to it, or \<open>None\<close> if the connection was destroyed in the call and the wrapper
  with it.
\<close>

type_synonym tstamp = rat

datatype ev_call =
    Ev_ref
  | Ev_unref
  | Ev_timer_start tstamp tstamp
  | Ev_timer_again tstamp
  | Ev_timer_stop
  | Ev_io_start c_int c_int
  | Ev_io_stop c_int c_int
  | Tcp_close bool
  | Tcp_heartbeat
  | Tcp_process c_int c_int

record wrapper =
  wr_connection :: addr
  wr_repeat :: tstamp
  wr_watchers :: "(c_int \<times> c_int) list"
  wr_next :: tstamp
  wr_expire :: tstamp
  wr_timeout :: u16

subsection \<open>Watcher\<close>

text \<open>
  A watcher is the descriptor and the events of its \<open>ev_io\<close>: the constructor and the destructor start
  and stop it, and its callback tells the wrapper.
\<close>

definition Ev_Watcher :: "c_int \<Rightarrow> c_int \<Rightarrow> (c_int \<times> c_int) \<times> ev_call list" where
  [simp]: "Ev_Watcher fd events = ((fd, events), [Ev_io_start fd events])"

definition Ev_Watcher_destroy :: "c_int \<times> c_int \<Rightarrow> ev_call list" where
  [simp]: "Ev_Watcher_destroy wt = [Ev_io_stop (fst wt) (snd wt)]"

definition Ev_Watcher_contains :: "c_int \<Rightarrow> c_int \<times> c_int \<Rightarrow> bool" where
  [simp]: "Ev_Watcher_contains fd wt \<longleftrightarrow> fst wt = fd"

definition Ev_Watcher_events :: "c_int \<Rightarrow> c_int \<times> c_int \<Rightarrow> (c_int \<times> c_int) \<times> ev_call list" where
  [simp]: "Ev_Watcher_events events wt =
     ((fst wt, events), [Ev_io_stop (fst wt) (snd wt), Ev_io_start (fst wt) events])"

subsection \<open>Wrapper\<close>

definition new_Wrapper :: "tstamp \<Rightarrow> addr \<Rightarrow> u16 \<Rightarrow> wrapper \<times> ev_call list" where
  "new_Wrapper now conn timeout =
     (\<lparr>wr_connection = conn, wr_repeat = 0, wr_watchers = [], wr_next = 0,
       wr_expire = now + of_nat (unat timeout), wr_timeout = 0\<rparr>,
      [Ev_timer_start (of_nat (unat timeout)) 0, Ev_unref])"

text \<open>The destructor; the watchers are members and stop their events after its body.\<close>

definition Wrapper_destroy :: "wrapper \<Rightarrow> ev_call list" where
  "Wrapper_destroy w =
     (if wr_timeout w = 0 then [] else [Ev_ref, Ev_timer_stop])
     @ concat (map Ev_Watcher_destroy (wr_watchers w))"

definition beat_period :: "wrapper \<Rightarrow> tstamp" where
  "beat_period w = of_nat (max (unat (wr_timeout w) div 2) 1)"

text \<open>Setting the timer to the earlier of the next heartbeat and the expiry.\<close>

definition rearm :: "tstamp \<Rightarrow> wrapper \<Rightarrow> wrapper \<times> ev_call list" where
  "rearm now w =
     (let r = min (wr_next w) (wr_expire w) - now in (w\<lparr>wr_repeat := r\<rparr>, [Ev_timer_again r]))"

definition onExpired ::
  "(ev_call \<Rightarrow> wrapper \<Rightarrow> wrapper option) \<Rightarrow> tstamp \<Rightarrow> bool \<Rightarrow> wrapper \<Rightarrow>
   handler_fault + wrapper option \<times> ev_call list" where
  "onExpired back now ready w =
     (if wr_timeout w = 0 then
        (if ready then Inr (Some w, [Ev_ref])
         else Inr (back (Tcp_close True) w, [Tcp_close True]))
      else if wr_expire w \<le> now then Inr (back (Tcp_close False) w, [Tcp_close False])
      else if wr_next w \<le> now then
        (case back Tcp_heartbeat w of
           None \<Rightarrow> Inl Use_after_free
         | Some w' \<Rightarrow>
             (case rearm now (w'\<lparr>wr_next := wr_next w' + beat_period w'\<rparr>) of
                (w'', calls) \<Rightarrow> Inr (Some w'', Tcp_heartbeat # calls)))
      else (case rearm now w of (w'', calls) \<Rightarrow> Inr (Some w'', calls)))"

definition onActive ::
  "c_int \<Rightarrow> (ev_call \<Rightarrow> wrapper \<Rightarrow> wrapper option) \<Rightarrow> tstamp \<Rightarrow> c_int \<Rightarrow> c_int \<Rightarrow> wrapper \<Rightarrow>
   wrapper option \<times> ev_call list" where
  "onActive ev_read back now fd events w =
     (let w' = (if wr_timeout w \<noteq> 0 \<and> and events ev_read \<noteq> 0
                then w\<lparr>wr_expire := now + of_nat (unat (wr_timeout w)) * (3 / 2)\<rparr> else w)
      in (back (Tcp_process fd events) w', [Tcp_process fd events]))"

definition Wrapper_start :: "tstamp \<Rightarrow> u16 \<Rightarrow> wrapper \<Rightarrow> u16 \<times> wrapper \<times> ev_call list" where
  "Wrapper_start now timeout w =
     (let w1 = w\<lparr>wr_timeout := timeout\<rparr>
      in if timeout = 0 then (0, w1, [])
         else
           let w2 = w1\<lparr>wr_next := now + beat_period w1\<rparr>
           in (timeout, rearm now w2))"

text \<open>The callback of a watcher.\<close>

definition Ev_Watcher_callback ::
  "c_int \<Rightarrow> (ev_call \<Rightarrow> wrapper \<Rightarrow> wrapper option) \<Rightarrow> tstamp \<Rightarrow> c_int \<times> c_int \<Rightarrow> c_int \<Rightarrow> wrapper \<Rightarrow>
   wrapper option \<times> ev_call list" where
  "Ev_Watcher_callback ev_read back now wt revents object = onActive ev_read back now (fst wt) revents object"

fun set_events :: "c_int \<Rightarrow> c_int \<Rightarrow> (c_int \<times> c_int) list \<Rightarrow> ((c_int \<times> c_int) list \<times> ev_call list) option" where
  "set_events fd events [] = None"
| "set_events fd events (wt # ws) =
     (if Ev_Watcher_contains fd wt then
        (case Ev_Watcher_events events wt of (wt', calls) \<Rightarrow> Some (wt' # ws, calls))
      else map_option (map_prod (Cons wt) (\<lambda>calls. calls)) (set_events fd events ws))"

definition Wrapper_monitor :: "c_int \<Rightarrow> c_int \<Rightarrow> wrapper \<Rightarrow> wrapper \<times> ev_call list" where
  "Wrapper_monitor fd events w =
     (if events = 0 then
        (w\<lparr>wr_watchers := filter (\<lambda>wt. \<not> Ev_Watcher_contains fd wt) (wr_watchers w)\<rparr>,
         concat (map Ev_Watcher_destroy (filter (Ev_Watcher_contains fd) (wr_watchers w))))
      else
        (case set_events fd events (wr_watchers w) of
           Some (ws, calls) \<Rightarrow> (w\<lparr>wr_watchers := ws\<rparr>, calls)
         | None \<Rightarrow>
             (case Ev_Watcher fd events of
                (wt, calls) \<Rightarrow> (w\<lparr>wr_watchers := wr_watchers w @ [wt]\<rparr>, calls))))"

subsection \<open>The handler\<close>

fun lv_lookup :: "tstamp \<Rightarrow> addr \<Rightarrow> wrapper list \<Rightarrow> wrapper list \<times> ev_call list" where
  "lv_lookup now conn ws =
     (if \<exists>w \<in> set ws. wr_connection w = conn then (ws, [])
      else (case new_Wrapper now conn 60 of (w, calls) \<Rightarrow> (ws @ [w], calls)))"

text \<open>An operation on the first wrapper of a connection, which \<open>lookup\<close> returned.\<close>

fun on_wrapper :: "addr \<Rightarrow> (wrapper \<Rightarrow> wrapper \<times> 'c) \<Rightarrow> 'c \<Rightarrow> wrapper list \<Rightarrow> wrapper list \<times> 'c" where
  "on_wrapper conn f dflt [] = ([], dflt)"
| "on_wrapper conn f dflt (w # ws) =
     (if wr_connection w = conn then (case f w of (w', c) \<Rightarrow> (w' # ws, c))
      else (case on_wrapper conn f dflt ws of (ws', c) \<Rightarrow> (w # ws', c)))"

definition lv_monitor :: "tstamp \<Rightarrow> addr \<Rightarrow> c_int \<Rightarrow> c_int \<Rightarrow> wrapper list \<Rightarrow> wrapper list \<times> ev_call list" where
  "lv_monitor now conn fd flags ws =
     (case lv_lookup now conn ws of
        (ws1, calls1) \<Rightarrow>
          (case on_wrapper conn (Wrapper_monitor fd flags) [] ws1 of
             (ws2, calls2) \<Rightarrow> (ws2, calls1 @ calls2)))"

definition lv_onNegotiate :: "tstamp \<Rightarrow> addr \<Rightarrow> u16 \<Rightarrow> wrapper list \<Rightarrow> u16 \<times> wrapper list \<times> ev_call list" where
  "lv_onNegotiate now conn timeout ws =
     (case lv_lookup now conn ws of
        (ws1, calls1) \<Rightarrow>
          (case on_wrapper conn (\<lambda>w. case Wrapper_start now timeout w of (r, w', calls) \<Rightarrow> (w', r, calls)) (0, []) ws1 of
             (ws2, r, calls2) \<Rightarrow> (r, ws2, calls1 @ calls2)))"

definition lv_onDetached :: "addr \<Rightarrow> wrapper list \<Rightarrow> wrapper list \<times> ev_call list" where
  "lv_onDetached conn ws =
     (filter (\<lambda>w. wr_connection w \<noteq> conn) ws,
      concat (map Wrapper_destroy (filter (\<lambda>w. wr_connection w = conn) ws)))"

subsection \<open>Watchers and wrappers\<close>

lemma set_events_None: "set_events fd events ws = None \<longleftrightarrow> fd \<notin> fst ` set ws"
  by (induction ws) (auto split: if_splits)

lemma set_events_Some:
  "set_events fd events ws = Some (ws', calls) \<Longrightarrow>
     map fst ws' = map fst ws \<and> map_of ws' = (map_of ws)(fd \<mapsto> events)"
  by (induction ws arbitrary: ws') (fastforce simp: fun_eq_iff split: if_splits)+

lemma map_of_filter_fst: "map_of (filter (\<lambda>kv. fst kv \<noteq> j) xs) = (map_of xs)(j := None)"
  by (induction xs) (auto simp: fun_eq_iff)

lemma map_of_snoc: "k \<notin> fst ` set xs \<Longrightarrow> map_of (xs @ [(k, v)]) = (map_of xs)(k \<mapsto> v)"
  by (induction xs) (auto simp: fun_eq_iff)

interpretation lw: fd_monitor "\<lambda>conn fd flags w. fst (Wrapper_monitor fd flags w)"
  "\<lambda>fd w. map_of (wr_watchers w) fd" "\<lambda>flags. flags" "\<lambda>w. distinct (map fst (wr_watchers w))"
  by unfold_locales
    (auto simp: Wrapper_monitor_def map_of_filter_fst map_of_snoc distinct_map_filter set_events_None
      simp del: map_of_append dest: set_events_Some split: option.splits)

theorem wrapper_follows_last_flags:
  "map_of (wr_watchers (fold (\<lambda>(conn, fd, flags) w. fst (Wrapper_monitor fd flags w)) cs (fst (new_Wrapper now conn timeout)))) fd =
     (let flags = last_flags fd cs 0 in if flags = 0 then None else Some flags)"
  using lw.follows_last_flags [where s = "fst (new_Wrapper now conn timeout)" and old = 0] by (simp add: new_Wrapper_def)

text \<open>
  One wrapper per connection: \<open>lookup\<close> never adds a second one, so the first wrapper found is the
  only one, and \<open>onDetached\<close> leaves none.
\<close>

lemma on_wrapper_connections:
  assumes "\<And>w. wr_connection (fst (f w)) = wr_connection w"
  shows "map wr_connection (fst (on_wrapper conn f dflt ws)) = map wr_connection ws"
proof (induction ws)
  case Nil
  then show ?case by simp
next
  case (Cons w ws)
  then show ?case using assms [of w] by (cases "f w"; cases "on_wrapper conn f dflt ws") auto
qed

lemma lv_lookup_connections:
  "distinct (map wr_connection ws) \<Longrightarrow> distinct (map wr_connection (fst (lv_lookup now conn ws)))"
  by (auto simp: new_Wrapper_def)

lemma Wrapper_monitor_connection: "wr_connection (fst (Wrapper_monitor fd flags w)) = wr_connection w"
  by (simp add: Wrapper_monitor_def split: option.splits)

lemma Wrapper_start_connection: "wr_connection (fst (snd (Wrapper_start now timeout w))) = wr_connection w"
  by (simp add: Wrapper_start_def rearm_def Let_def)

datatype handler_op = Lv_monitor tstamp addr c_int c_int | Lv_negotiate tstamp addr u16 | Lv_detached addr

fun lv_step :: "wrapper list \<Rightarrow> handler_op \<Rightarrow> wrapper list" where
  "lv_step ws (Lv_monitor now conn fd flags) = fst (lv_monitor now conn fd flags ws)"
| "lv_step ws (Lv_negotiate now conn timeout) = fst (snd (lv_onNegotiate now conn timeout ws))"
| "lv_step ws (Lv_detached conn) = fst (lv_onDetached conn ws)"

lemma lv_step_distinct:
  assumes "distinct (map wr_connection ws)"
  shows "distinct (map wr_connection (lv_step ws e))"
proof (cases e)
  case (Lv_monitor now conn fd flags)
  have "map wr_connection (lv_step ws e) = map wr_connection (fst (lv_lookup now conn ws))"
    using on_wrapper_connections [of "Wrapper_monitor fd flags" conn "[]" "fst (lv_lookup now conn ws)"]
    by (simp add: Lv_monitor lv_monitor_def Wrapper_monitor_connection split_def del: lv_lookup.simps)
  with lv_lookup_connections [OF assms] show ?thesis by metis
next
  case (Lv_negotiate now conn timeout)
  let ?f = "\<lambda>w. case Wrapper_start now timeout w of (r, w', calls) \<Rightarrow> (w', r, calls)"
  have "wr_connection (fst (?f w)) = wr_connection w" for w
    using Wrapper_start_connection [of now timeout w] by (simp add: split_def)
  then have "map wr_connection (lv_step ws e) = map wr_connection (fst (lv_lookup now conn ws))"
    using on_wrapper_connections [of ?f conn "(0, [])" "fst (lv_lookup now conn ws)"]
    by (simp add: Lv_negotiate lv_onNegotiate_def split_def del: lv_lookup.simps)
  with lv_lookup_connections [OF assms] show ?thesis by metis
next
  case (Lv_detached conn)
  with assms show ?thesis by (simp add: lv_onDetached_def distinct_map_filter)
qed

subsection \<open>Heartbeats\<close>

text \<open>The expiries at the given times, with a connection that does not call back.\<close>

fun run_expiries :: "bool \<Rightarrow> tstamp list \<Rightarrow> wrapper \<Rightarrow> ev_call list" where
  "run_expiries ready [] w = []"
| "run_expiries ready (t # ts) w =
     (case onExpired (\<lambda>c w. Some w) t ready w of
        Inr (Some w', calls) \<Rightarrow> calls @ run_expiries ready ts w'
      | _ \<Rightarrow> [])"

text \<open>Whole periods between two times.\<close>

definition periods :: "tstamp \<Rightarrow> tstamp \<Rightarrow> tstamp \<Rightarrow> int" where
  "periods p t0 t = \<lfloor>(t - t0) / p\<rfloor>"

fun no_period_missed :: "tstamp \<Rightarrow> tstamp \<Rightarrow> tstamp \<Rightarrow> tstamp list \<Rightarrow> bool" where
  "no_period_missed p t0 prev [] = True"
| "no_period_missed p t0 prev (t # ts) =
     (prev \<le> t \<and> periods p t0 t \<le> periods p t0 prev + 1 \<and> no_period_missed p t0 t ts)"

lemma beat_period_pos: "0 < beat_period w"
  by (simp add: beat_period_def max_def)

lemma periods_less: "0 < p \<Longrightarrow> periods p t0 t < k \<longleftrightarrow> t < t0 + of_int k * p"
  by (simp add: periods_def floor_less_iff pos_divide_less_eq less_diff_eq algebra_simps)

lemma expiries_keep_pace:
  assumes "wr_timeout w \<noteq> 0" and "wr_next w = t0 + of_int (periods (beat_period w) t0 prev + 1) * beat_period w"
    and "no_period_missed (beat_period w) t0 prev ts" and "\<forall>t \<in> set ts. t < wr_expire w"
  shows "int (count_list (run_expiries ready ts w) Tcp_heartbeat) =
      periods (beat_period w) t0 (last (prev # ts)) - periods (beat_period w) t0 prev \<and>
    (\<forall>r. Ev_timer_again r \<in> set (run_expiries ready ts w) \<longrightarrow> 0 < r)"
  using assms
proof (induction ts arbitrary: w prev)
  case Nil
  then show ?case by simp
next
  case (Cons t ts)
  let ?p = "beat_period w" and ?k = "periods (beat_period w) t0 prev"
  have p: "0 < ?p" by (rule beat_period_pos)
  have t: "prev \<le> t" "periods ?p t0 t \<le> ?k + 1" "t < wr_expire w" "no_period_missed ?p t0 t ts"
    using Cons.prems by auto
  have due: "periods ?p t0 t < ?k + 1 \<longleftrightarrow> t < wr_next w"
    unfolding Cons.prems(2) by (rule periods_less [OF p])
  have mono: "?k \<le> periods ?p t0 t"
    using t(1) p unfolding periods_def by (intro floor_mono divide_right_mono) auto
  show ?case
  proof (cases "wr_next w \<le> t")
    case True
    then have k: "periods ?p t0 t = ?k + 1" using t(2) due by linarith
    let ?n = "wr_next w + ?p"
    let ?w = "w\<lparr>wr_next := ?n, wr_repeat := min ?n (wr_expire w) - t\<rparr>"
    have b: "beat_period ?w = ?p" by (simp add: beat_period_def)
    have n: "wr_next ?w = t0 + of_int (periods (beat_period ?w) t0 t + 1) * beat_period ?w"
      unfolding b k using Cons.prems(2) by (simp add: algebra_simps)
    have e: "run_expiries ready (t # ts) w =
        Tcp_heartbeat # Ev_timer_again (min ?n (wr_expire w) - t) # run_expiries ready ts ?w"
      using Cons.prems(1) t(3) True by (simp add: onExpired_def rearm_def Let_def)
    have pos: "t < wr_next w + ?p"
      using periods_less [OF p, of t0 t "?k + 2"] k t(3) Cons.prems(2) by (simp add: algebra_simps)
    have "no_period_missed (beat_period ?w) t0 t ts" using t(4) unfolding b .
    from Cons.IH [OF _ n this] Cons.prems(1,4) show ?thesis unfolding e by (auto simp: b k pos)
  next
    case False
    then have k: "periods ?p t0 t = ?k" using mono due by linarith
    let ?w = "w\<lparr>wr_repeat := min (wr_next w) (wr_expire w) - t\<rparr>"
    have b: "beat_period ?w = ?p" by (simp add: beat_period_def)
    have n: "wr_next ?w = t0 + of_int (periods (beat_period ?w) t0 t + 1) * beat_period ?w"
      unfolding b k using Cons.prems(2) by simp
    have e: "run_expiries ready (t # ts) w =
        Ev_timer_again (min (wr_next w) (wr_expire w) - t) # run_expiries ready ts ?w"
      using Cons.prems(1) t(3) False by (simp add: onExpired_def rearm_def Let_def)
    have pos: "t < wr_next w" using False by simp
    have "no_period_missed (beat_period ?w) t0 t ts" using t(4) unfolding b .
    from Cons.IH [OF _ n this] Cons.prems(1,4) show ?thesis unfolding e by (auto simp: b k pos)
  qed
qed

subsection \<open>Properties\<close>



text \<open>
  The timer is set to a positive delay after an expiry exactly if the expiry came less than one
  period after the heartbeat was due. With a later one (the loop was blocked) the delay is 0 or
  negative; libev stops a timer that is set again with the delay 0.
\<close>

theorem late_expiry_delay:
  assumes "wr_timeout w \<noteq> 0" and "now < wr_expire w" and "wr_next w \<le> now"
  shows "\<exists>delay w'. onExpired (\<lambda>c w. Some w) now ready w = Inr (Some w', [Tcp_heartbeat, Ev_timer_again delay]) \<and>
    (0 < delay \<longleftrightarrow> now < wr_next w + beat_period w) \<and> (delay = 0 \<longleftrightarrow> now = wr_next w + beat_period w)"
  using assms by (auto simp: onExpired_def rearm_def Let_def min_def)

theorem late_expiry_delay_witness:
  "\<exists>w'. onExpired (\<lambda>c w. Some w) 20 False (fst (snd (Wrapper_start 0 20 (fst (new_Wrapper 0 7 60))))) =
     Inr (Some w', [Tcp_heartbeat, Ev_timer_again 0])"
proof -
  let ?w = "fst (snd (Wrapper_start 0 20 (fst (new_Wrapper 0 7 60))))"
  have w: "wr_timeout ?w = 20" "wr_next ?w = 10" "wr_expire ?w = 60"
    by (simp_all add: Wrapper_start_def new_Wrapper_def rearm_def Let_def beat_period_def)
  have h: "wr_timeout ?w \<noteq> 0" "20 < wr_expire ?w" "wr_next ?w \<le> 20" by (simp_all add: w)
  show ?thesis using late_expiry_delay [OF h, of False] by (auto simp: w beat_period_def)
qed

subsection \<open>The life of a wrapper\<close>

datatype wrapper_event =
    W_expired tstamp bool
  | W_active tstamp c_int c_int
  | W_start tstamp u16
  | W_monitor c_int c_int

text \<open>One event, with a connection that does not call back (its calls come as later events).\<close>

fun wr_step :: "c_int \<Rightarrow> wrapper \<Rightarrow> wrapper_event \<Rightarrow> wrapper \<times> ev_call list" where
  "wr_step rd w (W_expired now ready) =
     (case onExpired (\<lambda>c w. Some w) now ready w of
        Inr (Some w', calls) \<Rightarrow> (w', calls)
      | _ \<Rightarrow> (w, []))"
| "wr_step rd w (W_active now fd events) =
     (case find (Ev_Watcher_contains fd) (wr_watchers w) of
        None \<Rightarrow> (w, [])
      | Some wt \<Rightarrow>
          (case Ev_Watcher_callback rd (\<lambda>c w. Some w) now wt events w of
             (Some w', calls) \<Rightarrow> (w', calls)
           | _ \<Rightarrow> (w, [])))"
| "wr_step rd w (W_start now timeout) = snd (Wrapper_start now timeout w)"
| "wr_step rd w (W_monitor fd events) = Wrapper_monitor fd events w"

fun wr_life :: "c_int \<Rightarrow> wrapper \<Rightarrow> wrapper_event list \<Rightarrow> ev_call list" where
  "wr_life rd w [] = Wrapper_destroy w"
| "wr_life rd w (e # es) = (case wr_step rd w e of (w', calls) \<Rightarrow> calls @ wr_life rd w' es)"

text \<open>The timeout in force after some events, and the expiries that found the connection ready without one.\<close>

fun negotiated :: "u16 \<Rightarrow> wrapper_event list \<Rightarrow> u16" where
  "negotiated u [] = u"
| "negotiated u (W_start now v # es) = negotiated v es"
| "negotiated u (_ # es) = negotiated u es"

fun idle_expiries :: "u16 \<Rightarrow> wrapper_event list \<Rightarrow> nat" where
  "idle_expiries u [] = 0"
| "idle_expiries u (W_expired now ready # es) = (if u = 0 \<and> ready then 1 else 0) + idle_expiries u es"
| "idle_expiries u (W_start now v # es) = idle_expiries v es"
| "idle_expiries u (_ # es) = idle_expiries u es"

fun io_call :: "ev_call \<Rightarrow> bool" where
  "io_call (Ev_io_start fd events) = True"
| "io_call (Ev_io_stop fd events) = True"
| "io_call _ = False"

lemma set_events_io: "set_events fd events ws = Some (ws', calls) \<Longrightarrow> \<forall>c \<in> set calls. io_call c"
  by (induction ws arbitrary: ws') (auto split: if_splits)

lemma Wrapper_monitor_io: "\<forall>c \<in> set (snd (Wrapper_monitor fd events w)). io_call c"
  by (auto simp: Wrapper_monitor_def dest: set_events_io split: option.splits)

lemma Wrapper_monitor_timeout: "wr_timeout (fst (Wrapper_monitor fd events w)) = wr_timeout w"
  by (simp add: Wrapper_monitor_def split: option.splits)

lemma wr_step_calls:
  "Ev_timer_stop \<notin> set (snd (wr_step rd w e)) \<and> Ev_unref \<notin> set (snd (wr_step rd w e)) \<and>
   count_list (snd (wr_step rd w e)) Ev_ref =
     (case e of W_expired now ready \<Rightarrow> if wr_timeout w = 0 \<and> ready then 1 else 0 | _ \<Rightarrow> 0) \<and>
   wr_timeout (fst (wr_step rd w e)) = (case e of W_start now v \<Rightarrow> v | _ \<Rightarrow> wr_timeout w)"
proof (cases e)
  case (W_monitor fd events)
  have "c \<notin> set (snd (Wrapper_monitor fd events w))" if "\<not> io_call c" for c
    using Wrapper_monitor_io [of fd events w] that by blast
  then show ?thesis by (simp add: W_monitor count_list_0_iff Wrapper_monitor_timeout)
qed (auto simp: onExpired_def Ev_Watcher_callback_def onActive_def rearm_def Wrapper_start_def Let_def split: option.split)

lemma wr_life_calls:
  "(Ev_timer_stop \<in> set (wr_life rd w es) \<longleftrightarrow> negotiated (wr_timeout w) es \<noteq> 0) \<and>
   Ev_unref \<notin> set (wr_life rd w es) \<and>
   count_list (wr_life rd w es) Ev_ref =
     idle_expiries (wr_timeout w) es + (if negotiated (wr_timeout w) es = 0 then 0 else 1)"
proof (induction es arbitrary: w)
  case Nil
  have "c \<notin> set (concat (map Ev_Watcher_destroy (wr_watchers w)))" if "\<not> io_call c" for c
    using that by auto
  then show ?case by (simp add: Wrapper_destroy_def count_list_0_iff)
next
  case (Cons e es)
  obtain w' calls where s: "wr_step rd w e = (w', calls)" by fastforce
  show ?case
    using wr_step_calls [of rd w e] Cons.IH [of w'] s by (cases e) (simp_all del: wr_step.simps)
qed

text \<open>
  What a wrapper leaves behind. Over its life, from the constructor to the destructor and whatever
  happens in between, its timer is stopped exactly if the last timeout that was negotiated is not 0;
  a connection that goes away before that leaves a timer running whose data is the destroyed
  wrapper. The reference to the loop that the constructor gives up is taken back once for a
  negotiated timeout, and once for every expiry that finds the connection ready without one.
\<close>

theorem timer_stopped_iff_negotiated:
  "let (w, started) = new_Wrapper now conn timeout; calls = started @ wr_life rd w es
   in count_list calls Ev_unref = 1 \<and> Ev_timer_start (of_nat (unat timeout)) 0 \<in> set calls \<and>
      (Ev_timer_stop \<in> set calls \<longleftrightarrow> negotiated 0 es \<noteq> 0) \<and>
      count_list calls Ev_ref = idle_expiries 0 es + (if negotiated 0 es = 0 then 0 else 1)"
proof -
  obtain w started where n: "new_Wrapper now conn timeout = (w, started)" by fastforce
  have w: "wr_timeout w = 0" "started = [Ev_timer_start (of_nat (unat timeout)) 0, Ev_unref]"
    using n by (auto simp: new_Wrapper_def)
  show ?thesis using wr_life_calls [of rd w es] by (simp add: n w count_list_0_iff)
qed

subsection \<open>What the loop watches\<close>

text \<open>The active watchers of the loop after a call, as libev documents it.\<close>

fun loop_io :: "ev_call \<Rightarrow> (c_int \<rightharpoonup> c_int) \<Rightarrow> (c_int \<rightharpoonup> c_int)" where
  "loop_io (Ev_io_start fd events) m = m(fd \<mapsto> events)"
| "loop_io (Ev_io_stop fd events) m = m(fd := None)"
| "loop_io _ m = m"

fun wr_run :: "c_int \<Rightarrow> wrapper \<Rightarrow> wrapper_event list \<Rightarrow> wrapper \<times> ev_call list" where
  "wr_run rd w [] = (w, [])"
| "wr_run rd w (e # es) =
     (case wr_step rd w e of (w', calls) \<Rightarrow> case wr_run rd w' es of (w'', calls') \<Rightarrow> (w'', calls @ calls'))"

lemma wr_life_run: "wr_life rd w es = snd (wr_run rd w es) @ Wrapper_destroy (fst (wr_run rd w es))"
  by (induction es arbitrary: w) (simp_all split: prod.split)

lemma stop_all_io:
  "fold loop_io (concat (map Ev_Watcher_destroy ws)) m = (\<lambda>fd. if fd \<in> fst ` set ws then None else m fd)"
  by (induction ws arbitrary: m) (auto simp: fun_eq_iff)

lemma set_events_loop:
  "set_events fd events ws = Some (ws', calls) \<Longrightarrow> fold loop_io calls m = m(fd \<mapsto> events)"
  by (induction ws arbitrary: ws') (auto split: if_splits)

lemma wr_step_loop:
  assumes "distinct (map fst (wr_watchers w))"
  shows "fold loop_io (snd (wr_step rd w e)) (map_of (wr_watchers w)) = map_of (wr_watchers (fst (wr_step rd w e))) \<and>
    distinct (map fst (wr_watchers (fst (wr_step rd w e))))"
proof (cases e)
  case (W_monitor fd events)
  have "(\<lambda>k. if k \<in> fst ` set (filter (\<lambda>wt. fst wt = fd) ws) then None else map_of ws k) = (map_of ws)(fd := None)"
    for ws :: "(c_int \<times> c_int) list"
    by (auto simp: fun_eq_iff map_of_eq_None_iff)
  then show ?thesis
    using W_monitor assms lw.ok_mon [of w fd events]
    by (auto simp: Wrapper_monitor_def stop_all_io map_of_filter_fst set_events_None map_of_snoc set_events_loop
        simp del: map_of_append dest: set_events_Some split: option.splits)
qed (use assms in \<open>auto simp: onExpired_def Ev_Watcher_callback_def onActive_def rearm_def Wrapper_start_def Let_def
    split: option.splits\<close>)

lemma wr_run_loop:
  assumes "distinct (map fst (wr_watchers w))"
  shows "fold loop_io (snd (wr_run rd w es)) (map_of (wr_watchers w)) = map_of (wr_watchers (fst (wr_run rd w es))) \<and>
    distinct (map fst (wr_watchers (fst (wr_run rd w es))))"
  using assms
proof (induction es arbitrary: w)
  case Nil
  then show ?case by simp
next
  case (Cons e es)
  obtain w' calls where s: "wr_step rd w e = (w', calls)" by fastforce
  obtain w'' calls' where r: "wr_run rd w' es = (w'', calls')" by fastforce
  from wr_step_loop [OF Cons.prems, of rd e] Cons.IH [of w'] s r show ?case by simp
qed

text \<open>
  At any time of the life of a wrapper the loop watches exactly the descriptors of its watchers, each
  for the events of the last request, and once the wrapper is destroyed it watches none.
\<close>

theorem loop_watches_the_watchers:
  "let (w, started) = new_Wrapper now conn timeout; (w', calls) = wr_run rd w es
   in fold loop_io (started @ calls) Map.empty = map_of (wr_watchers w') \<and>
      fold loop_io (started @ wr_life rd w es) Map.empty = Map.empty"
proof -
  obtain w started where n: "new_Wrapper now conn timeout = (w, started)" by fastforce
  obtain w' calls where r: "wr_run rd w es = (w', calls)" by fastforce
  have w: "wr_watchers w = []" "fold loop_io started Map.empty = Map.empty"
    using n by (auto simp: new_Wrapper_def)
  have c: "fold loop_io calls Map.empty = map_of (wr_watchers w')"
    using wr_run_loop [of w rd es] w(1) r by simp
  have "fold loop_io (Wrapper_destroy w') (map_of (wr_watchers w')) = Map.empty"
    by (auto simp: Wrapper_destroy_def stop_all_io fun_eq_iff map_of_eq_None_iff)
  then show ?thesis using n r w c by (simp add: wr_life_run)
qed

end
