(* ===== verification/Amqp_Libuv.thy ===== *)
theory Amqp_Libuv
  imports Amqp_Connection
begin

section \<open>AMQP: the libuv handler\<close>

text \<open>
  \<open>include/amqpcpp/libuv.h\<close>: one poll handle per descriptor, with the conversion of event flags in both
  directions. The constants of libuv (\<open>ur\<close>, \<open>uw\<close> for \<open>UV_READABLE\<close>, \<open>UV_WRITABLE\<close>) and of the prebuilt
  AMQP library (\<open>rd\<close>, \<open>wr\<close>) are arguments.
\<close>

record uv_watcher =
  uv_connection :: addr
  uv_events :: c_int

type_synonym uv_handler = "c_int \<rightharpoonup> uv_watcher"

definition uv_to_amqp_events :: "c_int \<Rightarrow> c_int \<Rightarrow> c_int \<Rightarrow> c_int \<Rightarrow> c_int \<Rightarrow> c_int \<Rightarrow> c_int" where
  "uv_to_amqp_events rd wr ur uw status events =
     (if status \<noteq> 0 then or rd wr
      else
        let e0 = (if and events ur \<noteq> 0 then or 0 rd else 0)
        in if and events uw \<noteq> 0 then or e0 wr else e0)"

definition amqp_to_uv_events :: "c_int \<Rightarrow> c_int \<Rightarrow> c_int \<Rightarrow> c_int \<Rightarrow> c_int \<Rightarrow> c_int" where
  "amqp_to_uv_events rd wr ur uw events =
     (let e0 = (if and events rd \<noteq> 0 then or 0 ur else 0)
      in if and events wr \<noteq> 0 then or e0 uw else e0)"

text \<open>The callback of a poll handle: the call \<open>connection->process(fd, events)\<close> that it makes.\<close>

definition uv_callback ::
  "c_int \<Rightarrow> c_int \<Rightarrow> c_int \<Rightarrow> c_int \<Rightarrow> c_int \<Rightarrow> c_int \<Rightarrow> c_int \<Rightarrow> uv_watcher \<Rightarrow> addr \<times> c_int \<times> c_int" where
  "uv_callback rd wr ur uw fd status events w =
     (uv_connection w, fd, uv_to_amqp_events rd wr ur uw status events)"

definition uv_monitor ::
  "c_int \<Rightarrow> c_int \<Rightarrow> c_int \<Rightarrow> c_int \<Rightarrow> addr \<Rightarrow> c_int \<Rightarrow> c_int \<Rightarrow> uv_handler \<Rightarrow> uv_handler" where
  "uv_monitor rd wr ur uw conn fd flags h =
     (case h fd of
        None \<Rightarrow>
          if flags = 0 then h
          else h(fd \<mapsto> \<lparr>uv_connection = conn, uv_events = amqp_to_uv_events rd wr ur uw flags\<rparr>)
      | Some w \<Rightarrow>
          if flags = 0 then h(fd := None)
          else h(fd \<mapsto> w\<lparr>uv_events := amqp_to_uv_events rd wr ur uw flags\<rparr>))"

definition uv_watched :: "c_int \<Rightarrow> uv_handler \<Rightarrow> c_int option" where
  "uv_watched fd h = map_option uv_events (h fd)"

interpretation uv: fd_monitor "uv_monitor rd wr ur uw" uv_watched "amqp_to_uv_events rd wr ur uw" "\<lambda>h. True"
  for rd wr ur uw
  by unfold_locales (auto simp: uv_watched_def uv_monitor_def split: option.splits)

subsection \<open>Properties\<close>

lemma and_or_absorb: "and (or a b) a = (a :: 'a::len word)" "and (or a b) b = b"
  by (rule bit_word_eqI, auto simp: bit_simps)+

text \<open>
  A descriptor is polled for what the last call of \<open>monitor\<close> asked for, and an event that libuv
  reports for it reaches the connection as the flags that were asked for and nothing else; an error
  reaches it as both flags.
\<close>

theorem uv_reports_what_was_asked:
  assumes "and ur uw = 0" and "ur \<noteq> 0" and "uw \<noteq> 0" and "last_flags fd cs 0 \<noteq> 0"
  shows "\<exists>w. fold (\<lambda>(conn, fd, flags). uv_monitor rd wr ur uw conn fd flags) cs Map.empty fd = Some w \<and>
    (let flags = last_flags fd cs 0
     in snd (snd (uv_callback rd wr ur uw fd 0 (uv_events w) w)) =
          or (if and flags rd \<noteq> 0 then rd else 0) (if and flags wr \<noteq> 0 then wr else 0)) \<and>
    (\<forall>status events. status \<noteq> 0 \<longrightarrow> snd (snd (uv_callback rd wr ur uw fd status events w)) = or rd wr)"
proof -
  let ?h = "fold (\<lambda>(conn, fd, flags). uv_monitor rd wr ur uw conn fd flags) cs Map.empty"
  have "uv_watched fd ?h = Some (amqp_to_uv_events rd wr ur uw (last_flags fd cs 0))"
    using uv.follows_last_flags [where s = Map.empty and old = 0] assms(4) by (simp add: uv_watched_def Let_def)
  then obtain w where w: "?h fd = Some w" "uv_events w = amqp_to_uv_events rd wr ur uw (last_flags fd cs 0)"
    by (auto simp: uv_watched_def)
  have "and uw ur = 0" using assms(1) by (simp add: and.commute)
  then show ?thesis
    using w assms(1-3)
    by (auto simp: uv_callback_def uv_to_amqp_events_def amqp_to_uv_events_def Let_def and_or_absorb)
qed

theorem uv_reports_what_was_asked_witness:
  "\<exists>w. fold (\<lambda>(conn, fd, flags). uv_monitor 1 2 4 8 conn fd flags) [(7, 5, 1), (7, 5, 3)] Map.empty 5 = Some w \<and>
     snd (snd (uv_callback 1 2 4 8 5 0 (uv_events w) w)) = 3"
proof -
  have h: "and (4 :: c_int) 8 = 0" "(4 :: c_int) \<noteq> 0" "(8 :: c_int) \<noteq> 0"
      "last_flags 5 [(7, 5, 1), (7, 5, 3)] 0 \<noteq> 0"
    by simp_all
  show ?thesis using uv_reports_what_was_asked [OF h, of 1 2] by (auto simp: Let_def)
qed

end
