(* ===== verification/Amqp_Boostasio.thy ===== *)
theory Amqp_Boostasio
  imports Amqp_Connection
begin

section \<open>AMQP: the Boost.Asio handler\<close>

text \<open>
  \<open>include/amqpcpp/libboostasio.h\<close>. Asio knows no standing watchers: the handler posts an asynchronous
  read or write without buffers, whose completion tells that the descriptor is ready, and posts the
  next one in the completion handler. \<open>bs_posted\<close> is the list of the operations that were posted and
  whose handlers have not run yet, each with the watcher, connection and descriptor bound into its
  handler. A watcher is owned by the map \<open>_watchers\<close> alone, under its descriptor, so locking the weak
  pointer of a handler succeeds exactly if the map still has the watcher; during a handler the
  object is kept, so its record stays in \<open>bs_objs\<close>. \<open>bs_log\<close> lists the calls of
  \<open>connection->process\<close>.
\<close>

datatype io_kind = Io_read | Io_write

record bwatcher =
  bw_read :: bool
  bw_read_pending :: bool
  bw_write :: bool
  bw_write_pending :: bool

record boost_handler =
  bs_watchers :: "c_int \<rightharpoonup> addr"
  bs_objs :: "addr \<Rightarrow> bwatcher"
  bs_next :: addr
  bs_posted :: "(io_kind \<times> addr \<times> addr \<times> c_int) list"
  bs_log :: "(addr \<times> c_int \<times> io_kind) list"

definition new_bwatcher :: bwatcher where
  "new_bwatcher = \<lparr>bw_read = False, bw_read_pending = False, bw_write = False, bw_write_pending = False\<rparr>"

definition new_BoostHandler :: boost_handler where
  "new_BoostHandler =
     \<lparr>bs_watchers = Map.empty, bs_objs = (\<lambda>a. new_bwatcher), bs_next = 0, bs_posted = [], bs_log = []\<rparr>"

text \<open>\<open>Watcher::events\<close>; \<open>rd\<close> and \<open>wr\<close> are \<open>AMQP::readable\<close> and \<open>AMQP::writable\<close>.\<close>

definition bw_events ::
  "c_int \<Rightarrow> c_int \<Rightarrow> addr \<Rightarrow> addr \<Rightarrow> c_int \<Rightarrow> c_int \<Rightarrow> boost_handler \<Rightarrow> boost_handler" where
  "bw_events rd wr a conn fd flags s =
     (let w0 = bs_objs s a;
          w1 = w0\<lparr>bw_read := (and flags rd \<noteq> 0)\<rparr>;
          (w2, posts1) =
            (if bw_read w1 \<and> \<not> bw_read_pending w1
             then (w1\<lparr>bw_read_pending := True\<rparr>, [(Io_read, a, conn, fd)]) else (w1, []));
          w3 = w2\<lparr>bw_write := (and flags wr \<noteq> 0)\<rparr>;
          (w4, posts2) =
            (if bw_write w3 \<and> \<not> bw_write_pending w3
             then (w3\<lparr>bw_write_pending := True\<rparr>, [(Io_write, a, conn, fd)]) else (w3, []))
      in s\<lparr>bs_objs := (bs_objs s)(a := w4), bs_posted := bs_posted s @ posts1 @ posts2\<rparr>)"

definition bs_monitor ::
  "c_int \<Rightarrow> c_int \<Rightarrow> addr \<Rightarrow> c_int \<Rightarrow> c_int \<Rightarrow> boost_handler \<Rightarrow> boost_handler" where
  "bs_monitor rd wr conn fd flags s =
     (case bs_watchers s fd of
        None \<Rightarrow>
          if flags = 0 then s
          else
            let a = bs_next s;
                s1 = s\<lparr>bs_next := Suc a, bs_objs := (bs_objs s)(a := new_bwatcher),
                        bs_watchers := (bs_watchers s)(fd \<mapsto> a)\<rparr>
            in bw_events rd wr a conn fd flags s1
      | Some a \<Rightarrow>
          if flags = 0 then s\<lparr>bs_watchers := (bs_watchers s)(fd := None)\<rparr>
          else bw_events rd wr a conn fd flags s)"

text \<open>
  The two completion handlers. \<open>ok\<close> is that there was no error or it was \<open>would_block\<close>; \<open>calls\<close> are
  the calls of \<open>monitor\<close> that the connection makes while it processes the event.
\<close>

definition read_handler ::
  "c_int \<Rightarrow> c_int \<Rightarrow> bool \<Rightarrow> (addr \<times> c_int \<times> c_int) list \<Rightarrow> addr \<Rightarrow> addr \<Rightarrow> c_int \<Rightarrow>
   boost_handler \<Rightarrow> boost_handler" where
  "read_handler rd wr ok calls a conn fd s =
     (if bs_watchers s fd \<noteq> Some a then s
      else
        let w = bs_objs s a;
            s1 = s\<lparr>bs_objs := (bs_objs s)(a := w\<lparr>bw_read_pending := False\<rparr>)\<rparr>
        in if ok \<and> bw_read w then
             let s2 = s1\<lparr>bs_log := bs_log s1 @ [(conn, fd, Io_read)]\<rparr>;
                 s3 = fold (\<lambda>(conn, fd, flags). bs_monitor rd wr conn fd flags) calls s2
             in s3\<lparr>bs_objs := (bs_objs s3)(a := (bs_objs s3 a)\<lparr>bw_read_pending := True\<rparr>),
                    bs_posted := bs_posted s3 @ [(Io_read, a, conn, fd)]\<rparr>
           else s1)"

definition write_handler ::
  "c_int \<Rightarrow> c_int \<Rightarrow> bool \<Rightarrow> (addr \<times> c_int \<times> c_int) list \<Rightarrow> addr \<Rightarrow> addr \<Rightarrow> c_int \<Rightarrow>
   boost_handler \<Rightarrow> boost_handler" where
  "write_handler rd wr ok calls a conn fd s =
     (if bs_watchers s fd \<noteq> Some a then s
      else
        let w = bs_objs s a;
            s1 = s\<lparr>bs_objs := (bs_objs s)(a := w\<lparr>bw_write_pending := False\<rparr>)\<rparr>
        in if ok \<and> bw_write w then
             let s2 = s1\<lparr>bs_log := bs_log s1 @ [(conn, fd, Io_write)]\<rparr>;
                 s3 = fold (\<lambda>(conn, fd, flags). bs_monitor rd wr conn fd flags) calls s2
             in s3\<lparr>bs_objs := (bs_objs s3)(a := (bs_objs s3 a)\<lparr>bw_write_pending := True\<rparr>),
                    bs_posted := bs_posted s3 @ [(Io_write, a, conn, fd)]\<rparr>
           else s1)"

text \<open>The completion of the posted operation at a position of the list.\<close>

definition bs_complete ::
  "c_int \<Rightarrow> c_int \<Rightarrow> bool \<Rightarrow> (addr \<times> c_int \<times> c_int) list \<Rightarrow> nat \<Rightarrow> boost_handler \<Rightarrow> boost_handler" where
  "bs_complete rd wr ok calls i s =
     (if i < length (bs_posted s) then
        (case bs_posted s ! i of
           (k, a, conn, fd) \<Rightarrow>
             (let s' = s\<lparr>bs_posted := take i (bs_posted s) @ drop (Suc i) (bs_posted s)\<rparr>
              in case k of
                   Io_read \<Rightarrow> read_handler rd wr ok calls a conn fd s'
                 | Io_write \<Rightarrow> write_handler rd wr ok calls a conn fd s'))
      else s)"

datatype boost_event =
    B_monitor addr c_int c_int
  | B_complete bool "(addr \<times> c_int \<times> c_int) list" nat

fun bs_step :: "c_int \<Rightarrow> c_int \<Rightarrow> boost_handler \<Rightarrow> boost_event \<Rightarrow> boost_handler" where
  "bs_step rd wr s (B_monitor conn fd flags) = bs_monitor rd wr conn fd flags s"
| "bs_step rd wr s (B_complete ok calls i) = bs_complete rd wr ok calls i s"

subsection \<open>Outstanding operations\<close>

definition outstanding :: "io_kind \<Rightarrow> addr \<Rightarrow> boost_handler \<Rightarrow> nat" where
  "outstanding k a s = length (filter (\<lambda>(k', a', conn, fd). k' = k \<and> a' = a) (bs_posted s))"

definition pending_flag :: "io_kind \<Rightarrow> bwatcher \<Rightarrow> bool" where
  "pending_flag k w = (case k of Io_read \<Rightarrow> bw_read_pending w | Io_write \<Rightarrow> bw_write_pending w)"

text \<open>
  What keeps asio quiet: every watcher in the map has one outstanding operation of a kind if its flag
  says so and none otherwise; watchers are listed under their own descriptor only, and so are the
  operations bound to them.
\<close>

definition bs_inv :: "boost_handler \<Rightarrow> bool" where
  "bs_inv s \<longleftrightarrow>
     (\<forall>fd a k. bs_watchers s fd = Some a \<longrightarrow> outstanding k a s = of_bool (pending_flag k (bs_objs s a))) \<and>
     (\<forall>fd a. bs_watchers s fd = Some a \<longrightarrow> a < bs_next s) \<and>
     (\<forall>k a conn fd. (k, a, conn, fd) \<in> set (bs_posted s) \<longrightarrow> a < bs_next s) \<and>
     (\<forall>fd fd' a. bs_watchers s fd = Some a \<longrightarrow> bs_watchers s fd' = Some a \<longrightarrow> fd' = fd) \<and>
     (\<forall>k a conn fd fd'. (k, a, conn, fd) \<in> set (bs_posted s) \<longrightarrow> bs_watchers s fd' = Some a \<longrightarrow> fd' = fd)"

text \<open>Changing the flags of a watcher and the operations bound to it, and nothing else.\<close>

definition only_at :: "addr \<Rightarrow> c_int \<Rightarrow> boost_handler \<Rightarrow> boost_handler \<Rightarrow> bool" where
  "only_at a fd s s' \<longleftrightarrow>
     bs_watchers s' = bs_watchers s \<and> bs_next s' = bs_next s \<and>
     (\<forall>b. b \<noteq> a \<longrightarrow> bs_objs s' b = bs_objs s b) \<and>
     (\<forall>k b. b \<noteq> a \<longrightarrow> outstanding k b s' = outstanding k b s) \<and>
     (\<forall>p \<in> set (bs_posted s'). p \<in> set (bs_posted s) \<or> (\<exists>k conn. p = (k, a, conn, fd))) \<and>
     (\<forall>k. outstanding k a s' = of_bool (pending_flag k (bs_objs s' a)))"

lemma only_at_inv: "bs_inv s \<Longrightarrow> bs_watchers s fd = Some a \<Longrightarrow> only_at a fd s s' \<Longrightarrow> bs_inv s'"
  unfolding bs_inv_def only_at_def by (smt (verit) prod.inject)

lemma bw_events_only_at:
  assumes "\<forall>k. outstanding k a s = of_bool (pending_flag k (bs_objs s a))"
  shows "only_at a fd s (bw_events rd wr a conn fd flags s)"
proof -
  have "outstanding Io_read a s = of_bool (bw_read_pending (bs_objs s a))"
      "outstanding Io_write a s = of_bool (bw_write_pending (bs_objs s a))"
    using assms [rule_format, of Io_read] assms [rule_format, of Io_write] by (simp_all add: pending_flag_def)
  then show ?thesis
    by (auto simp: only_at_def bw_events_def Let_def outstanding_def pending_flag_def split: io_kind.split)
qed

lemma outstanding_new: "bs_inv s \<Longrightarrow> bs_next s \<le> a \<Longrightarrow> outstanding k a s = 0"
  unfolding bs_inv_def outstanding_def by (fastforce simp: filter_empty_conv)

lemma bs_inv_new_watcher:
  assumes "bs_inv s" and "bs_watchers s fd = None"
  shows "bs_inv (s\<lparr>bs_next := Suc (bs_next s), bs_objs := (bs_objs s)(bs_next s := new_bwatcher),
    bs_watchers := (bs_watchers s)(fd \<mapsto> bs_next s)\<rparr>)"
proof -
  have o: "outstanding k (bs_next s) s = 0" for k using outstanding_new [OF assms(1)] by simp
  have u: "outstanding k a (s\<lparr>bs_next := n, bs_objs := os, bs_watchers := ws\<rparr>) = outstanding k a s" for k a n os ws
    by (simp add: outstanding_def)
  have p: "pending_flag k new_bwatcher = False" for k by (cases k) (simp_all add: pending_flag_def new_bwatcher_def)
  have n: "(k, bs_next s, conn, fd') \<notin> set (bs_posted s)" for k conn fd'
    using assms(1) unfolding bs_inv_def by blast
  show ?thesis
    using assms unfolding bs_inv_def u by (auto simp: o p n less_Suc_eq)
qed

lemma bs_monitor_inv:
  assumes "bs_inv s"
  shows "bs_inv (bs_monitor rd wr conn fd flags s)"
proof (cases "bs_watchers s fd")
  case None
  let ?a = "bs_next s"
  let ?s = "s\<lparr>bs_next := Suc ?a, bs_objs := (bs_objs s)(?a := new_bwatcher), bs_watchers := (bs_watchers s)(fd \<mapsto> ?a)\<rparr>"
  have i: "bs_inv ?s" by (rule bs_inv_new_watcher [OF assms None])
  have w: "bs_watchers ?s fd = Some ?a" by simp
  have "\<forall>k. outstanding k ?a ?s = of_bool (pending_flag k (bs_objs ?s ?a))"
    using i w unfolding bs_inv_def by blast
  from only_at_inv [OF i w bw_events_only_at [OF this]] assms None show ?thesis
    by (simp add: bs_monitor_def Let_def)
next
  case (Some a)
  have "\<forall>k. outstanding k a s = of_bool (pending_flag k (bs_objs s a))"
    using assms Some unfolding bs_inv_def by blast
  note e = only_at_inv [OF assms Some bw_events_only_at [OF this]]
  have "bs_inv (s\<lparr>bs_watchers := (bs_watchers s)(fd := None)\<rparr>)"
    using assms unfolding bs_inv_def outstanding_def by auto
  with e Some show ?thesis by (simp add: bs_monitor_def)
qed

text \<open>\<open>monitor\<close> for another descriptor leaves a watcher and its operations alone.\<close>

lemma bs_monitor_other:
  assumes "bs_inv s" and "bs_watchers s fd = Some a" and "fd' \<noteq> fd"
  shows "bs_watchers (bs_monitor rd wr conn fd' flags s) fd = Some a \<and>
    bs_objs (bs_monitor rd wr conn fd' flags s) a = bs_objs s a"
proof (cases "bs_watchers s fd'")
  case None
  have "a \<noteq> bs_next s" using assms unfolding bs_inv_def by blast
  with None assms(2,3) show ?thesis
    by (auto simp: bs_monitor_def bw_events_def Let_def split: prod.splits)
next
  case (Some b)
  have "b \<noteq> a" using assms Some unfolding bs_inv_def by blast
  with Some assms(2,3) show ?thesis
    by (auto simp: bs_monitor_def bw_events_def Let_def split: prod.splits)
qed

lemma bs_monitors_other:
  assumes "bs_inv s" and "bs_watchers s fd = Some a" and "\<forall>(conn, fd', flags) \<in> set calls. fd' \<noteq> fd"
  shows "let s' = fold (\<lambda>(conn, fd, flags). bs_monitor rd wr conn fd flags) calls s
    in bs_inv s' \<and> bs_watchers s' fd = Some a \<and> bs_objs s' a = bs_objs s a"
  using assms
proof (induction calls arbitrary: s)
  case Nil
  then show ?case by simp
next
  case (Cons c calls)
  obtain conn fd' flags where c: "c = (conn, fd', flags)" by (cases c)
  let ?s = "bs_monitor rd wr conn fd' flags s"
  have n: "fd' \<noteq> fd" using Cons.prems(3) c by simp
  note o = bs_monitor_other [OF Cons.prems(1,2) n, of rd wr conn flags]
  from Cons.IH [OF bs_monitor_inv [OF Cons.prems(1)] conjunct1 [OF o]] Cons.prems(3) conjunct2 [OF o] c
  show ?case by (simp add: Let_def)
qed

definition boost_watched :: "c_int \<Rightarrow> boost_handler \<Rightarrow> (bool \<times> bool) option" where
  "boost_watched fd s =
     map_option (\<lambda>a. (bw_read (bs_objs s a), bw_write (bs_objs s a))) (bs_watchers s fd)"

lemma bs_monitor_watched:
  "boost_watched fd (bs_monitor rd wr conn fd flags s) =
     (if flags = 0 then None else Some (and flags rd \<noteq> 0, and flags wr \<noteq> 0))"
  by (auto simp: boost_watched_def bs_monitor_def bw_events_def Let_def split: option.split prod.split)

lemma bs_monitor_watched_other:
  assumes "bs_inv s" and "fd \<noteq> fd'"
  shows "boost_watched fd (bs_monitor rd wr conn fd' flags s) = boost_watched fd s"
proof (cases "bs_watchers s fd")
  case None
  with assms(2) show ?thesis
    by (auto simp: boost_watched_def bs_monitor_def bw_events_def Let_def split: option.split prod.split)
next
  case (Some a)
  from bs_monitor_other [OF assms(1) Some, of fd' rd wr conn flags] assms(2) Some show ?thesis
    by (auto simp: boost_watched_def)
qed

interpretation ba: fd_monitor "bs_monitor rd wr" boost_watched
  "\<lambda>flags. (and flags rd \<noteq> 0, and flags wr \<noteq> 0)" bs_inv for rd wr
  by unfold_locales (auto simp: bs_monitor_watched bs_monitor_watched_other bs_monitor_inv)

text \<open>Both completion handlers as one function of the kind of operation.\<close>

definition active :: "io_kind \<Rightarrow> bwatcher \<Rightarrow> bool" where
  "active k w = (case k of Io_read \<Rightarrow> bw_read w | Io_write \<Rightarrow> bw_write w)"

definition set_pending :: "io_kind \<Rightarrow> bool \<Rightarrow> bwatcher \<Rightarrow> bwatcher" where
  "set_pending k b w =
     (case k of Io_read \<Rightarrow> w\<lparr>bw_read_pending := b\<rparr> | Io_write \<Rightarrow> w\<lparr>bw_write_pending := b\<rparr>)"

definition io_handler ::
  "io_kind \<Rightarrow> c_int \<Rightarrow> c_int \<Rightarrow> bool \<Rightarrow> (addr \<times> c_int \<times> c_int) list \<Rightarrow> addr \<Rightarrow> addr \<Rightarrow> c_int \<Rightarrow>
   boost_handler \<Rightarrow> boost_handler" where
  "io_handler k rd wr ok calls a conn fd s =
     (if bs_watchers s fd \<noteq> Some a then s
      else
        let w = bs_objs s a;
            s1 = s\<lparr>bs_objs := (bs_objs s)(a := set_pending k False w)\<rparr>
        in if ok \<and> active k w then
             let s2 = s1\<lparr>bs_log := bs_log s1 @ [(conn, fd, k)]\<rparr>;
                 s3 = fold (\<lambda>(conn, fd, flags). bs_monitor rd wr conn fd flags) calls s2
             in s3\<lparr>bs_objs := (bs_objs s3)(a := set_pending k True (bs_objs s3 a)),
                    bs_posted := bs_posted s3 @ [(k, a, conn, fd)]\<rparr>
           else s1)"

lemma handlers_eq: "read_handler = io_handler Io_read" "write_handler = io_handler Io_write"
  by (simp_all add: fun_eq_iff read_handler_def write_handler_def io_handler_def active_def set_pending_def Let_def)

lemma pending_flag_set: "pending_flag k' (set_pending k b w) = (if k' = k then b else pending_flag k' w)"
  by (cases k; cases k') (simp_all add: pending_flag_def set_pending_def)

lemma outstanding_remove:
  assumes "i < length (bs_posted s)" and "bs_posted s ! i = (k, a, conn, fd)"
  shows "outstanding k' a' s =
    outstanding k' a' (s\<lparr>bs_posted := take i (bs_posted s) @ drop (Suc i) (bs_posted s)\<rparr>) + of_bool (k' = k \<and> a' = a)"
proof -
  have "bs_posted s = take i (bs_posted s) @ (k, a, conn, fd) # drop (Suc i) (bs_posted s)"
    using id_take_nth_drop [OF assms(1)] assms(2) by simp
  then have "outstanding k' a' s = length (filter (\<lambda>(k2, a2, conn, fd). k2 = k' \<and> a2 = a')
      (take i (bs_posted s) @ (k, a, conn, fd) # drop (Suc i) (bs_posted s)))"
    unfolding outstanding_def by metis
  then show ?thesis by (auto simp: outstanding_def)
qed

text \<open>After a completed operation is taken out and its flag reset, the invariant holds again.\<close>

lemma bs_inv_completed:
  assumes "bs_inv s" and "i < length (bs_posted s)" and "bs_posted s ! i = (k, a, conn, fd)"
  shows "bs_watchers s fd = Some a \<Longrightarrow>
      bs_inv (s\<lparr>bs_posted := take i (bs_posted s) @ drop (Suc i) (bs_posted s),
        bs_objs := (bs_objs s)(a := set_pending k False (bs_objs s a)), bs_log := l\<rparr>)"
    and "bs_watchers s fd \<noteq> Some a \<Longrightarrow>
      bs_inv (s\<lparr>bs_posted := take i (bs_posted s) @ drop (Suc i) (bs_posted s)\<rparr>)"
proof -
  let ?ps = "take i (bs_posted s) @ drop (Suc i) (bs_posted s)"
  have sub: "set ?ps \<subseteq> set (bs_posted s)" by (auto dest: in_set_takeD in_set_dropD)
  have m: "(k, a, conn, fd) \<in> set (bs_posted s)" using assms(2,3) by (metis nth_mem)
  note o = outstanding_remove [OF assms(2,3)]
  have u: "outstanding k' a' (s\<lparr>bs_posted := ps, bs_objs := os, bs_log := l\<rparr>) = outstanding k' a' (s\<lparr>bs_posted := ps\<rparr>)"
    for k' a' ps os by (simp add: outstanding_def)
  note i = assms(1) [unfolded bs_inv_def]
  have b: "\<forall>k' a' conn' fd'. (k', a', conn', fd') \<in> set ?ps \<longrightarrow>
      a' < bs_next s \<and> (\<forall>fd2. bs_watchers s fd2 = Some a' \<longrightarrow> fd2 = fd')"
    using i sub by blast
  have c: "\<forall>fd2. bs_watchers s fd2 = Some a \<longrightarrow> fd2 = fd" using i m by blast
  { assume w: "bs_watchers s fd = Some a"
    have "outstanding k' a' (s\<lparr>bs_posted := ?ps\<rparr>) =
        of_bool (pending_flag k' (if a' = a then set_pending k False (bs_objs s a) else bs_objs s a'))"
      if "bs_watchers s fd2 = Some a'" for k' a' fd2
    proof -
      have "outstanding k' a' s = of_bool (pending_flag k' (bs_objs s a'))" using i that by blast
      with o [of k' a'] show ?thesis by (auto simp: pending_flag_set split: if_splits)
    qed
    then show "bs_inv (s\<lparr>bs_posted := ?ps, bs_objs := (bs_objs s)(a := set_pending k False (bs_objs s a)), bs_log := l\<rparr>)"
      using i b unfolding bs_inv_def u by (simp del: set_append) }
  { assume w: "bs_watchers s fd \<noteq> Some a"
    have "outstanding k' a' (s\<lparr>bs_posted := ?ps\<rparr>) = of_bool (pending_flag k' (bs_objs s a'))"
      if "bs_watchers s fd2 = Some a'" for k' a' fd2
    proof -
      have "a' \<noteq> a" using c w that by blast
      moreover have "outstanding k' a' s = of_bool (pending_flag k' (bs_objs s a'))" using i that by blast
      ultimately show ?thesis using o [of k' a'] by simp
    qed
    then show "bs_inv (s\<lparr>bs_posted := ?ps\<rparr>)"
      using i b unfolding bs_inv_def by (simp del: set_append) }
qed

lemma repost_only_at:
  assumes "bs_inv s" and "bs_watchers s fd = Some a" and "\<not> pending_flag k (bs_objs s a)"
  shows "only_at a fd s (s\<lparr>bs_objs := (bs_objs s)(a := set_pending k True (bs_objs s a)),
    bs_posted := bs_posted s @ [(k, a, conn, fd)]\<rparr>)"
proof -
  have "outstanding k' a s = of_bool (pending_flag k' (bs_objs s a))" for k'
    using assms(1,2) unfolding bs_inv_def by blast
  then show ?thesis
    using assms(3) by (auto simp: only_at_def outstanding_def pending_flag_set)
qed

definition bs_adm :: "boost_handler \<Rightarrow> boost_event \<Rightarrow> bool" where
  "bs_adm s e =
     (case e of
        B_monitor conn fd flags \<Rightarrow> True
      | B_complete ok calls i \<Rightarrow>
          i < length (bs_posted s) \<longrightarrow> snd (snd (snd (bs_posted s ! i))) \<notin> fst ` snd ` set calls)"

lemma bs_complete_inv:
  assumes "bs_inv s" and "bs_adm s (B_complete ok calls i)"
  shows "bs_inv (bs_complete rd wr ok calls i s)"
proof (cases "i < length (bs_posted s)")
  case False
  with assms(1) show ?thesis by (simp add: bs_complete_def)
next
  case True
  obtain k a conn fd where p: "bs_posted s ! i = (k, a, conn, fd)" by (cases "bs_posted s ! i")
  let ?s = "s\<lparr>bs_posted := take i (bs_posted s) @ drop (Suc i) (bs_posted s)\<rparr>"
  let ?w = "set_pending k False (bs_objs s a)"
  have c: "bs_complete rd wr ok calls i s = io_handler k rd wr ok calls a conn fd ?s"
    using True p by (cases k) (simp_all add: bs_complete_def handlers_eq)
  show ?thesis
  proof (cases "bs_watchers s fd = Some a")
    case False
    with bs_inv_completed(2) [OF assms(1) True p] c show ?thesis by (simp add: io_handler_def)
  next
    case live: True
    note r = bs_inv_completed(1) [OF assms(1) True p live]
    show ?thesis
    proof (cases "ok \<and> active k (bs_objs s a)")
      case False
      then have "bs_complete rd wr ok calls i s = ?s\<lparr>bs_objs := (bs_objs s)(a := ?w), bs_log := bs_log s\<rparr>"
        unfolding c using False live by (auto simp: io_handler_def Let_def)
      with r [of "bs_log s"] show ?thesis by simp
    next
      case go: True
      let ?s2 = "?s\<lparr>bs_objs := (bs_objs s)(a := ?w), bs_log := bs_log s @ [(conn, fd, k)]\<rparr>"
      let ?s3 = "fold (\<lambda>(conn, fd, flags). bs_monitor rd wr conn fd flags) calls ?s2"
      have n: "\<forall>(conn, fd', flags) \<in> set calls. fd' \<noteq> fd"
        using assms(2) True p by (force simp: bs_adm_def)
      have w2: "bs_watchers ?s2 fd = Some a" using live by simp
      have o: "bs_inv ?s3" "bs_watchers ?s3 fd = Some a" "bs_objs ?s3 a = ?w"
        using bs_monitors_other [OF r w2 n, of rd wr] by (simp_all add: Let_def)
      have "\<not> pending_flag k (bs_objs ?s3 a)" unfolding o(3) by (simp add: pending_flag_set)
      note only_at_inv [OF o(1,2) repost_only_at [OF o(1,2) this]]
      moreover have "bs_complete rd wr ok calls i s =
          ?s3\<lparr>bs_objs := (bs_objs ?s3)(a := set_pending k True (bs_objs ?s3 a)),
            bs_posted := bs_posted ?s3 @ [(k, a, conn, fd)]\<rparr>"
        unfolding c using live go by (simp add: io_handler_def Let_def)
      ultimately show ?thesis by simp
    qed
  qed
qed

inductive bs_reach :: "c_int \<Rightarrow> c_int \<Rightarrow> boost_handler \<Rightarrow> bool" for rd wr where
  start: "bs_reach rd wr new_BoostHandler"
| step: "bs_reach rd wr s \<Longrightarrow> bs_adm s e \<Longrightarrow> bs_reach rd wr (bs_step rd wr s e)"

lemma bs_reach_inv: "bs_reach rd wr s \<Longrightarrow> bs_inv s"
proof (induction rule: bs_reach.induct)
  case start
  show ?case by (simp add: bs_inv_def new_BoostHandler_def)
next
  case (step s e)
  then show ?case by (cases e) (simp_all add: bs_monitor_inv bs_complete_inv)
qed

subsection \<open>The strand, and the end of the handler\<close>

text \<open>
  The handlers of the operations are dispatched through the strand of the \<open>LibBoostAsioHandler\<close>, which
  they hold weakly: without it they are run at once with \<open>operation_canceled\<close>. Destroying the handler
  destroys the watchers, which clears their flags and releases their descriptors, and then the strand;
  what is still posted completes later.
\<close>

definition dispatch_wrapper ::
  "bool \<Rightarrow> (bool \<Rightarrow> boost_handler \<Rightarrow> boost_handler) \<Rightarrow> bool \<Rightarrow> boost_handler \<Rightarrow> boost_handler" where
  "dispatch_wrapper strand fn ok = (if \<not> strand then fn False else fn ok)"

definition Watcher_destroy :: "bwatcher \<Rightarrow> bwatcher" where
  "Watcher_destroy w = w\<lparr>bw_read := False, bw_write := False\<rparr>"

definition LibBoostAsioHandler_destroy :: "boost_handler \<Rightarrow> boost_handler" where
  "LibBoostAsioHandler_destroy s =
     s\<lparr>bs_watchers := Map.empty,
       bs_objs := (\<lambda>a. if a \<in> ran (bs_watchers s) then Watcher_destroy (bs_objs s a) else bs_objs s a)\<rparr>"

definition bs_complete_strand ::
  "bool \<Rightarrow> c_int \<Rightarrow> c_int \<Rightarrow> bool \<Rightarrow> (addr \<times> c_int \<times> c_int) list \<Rightarrow> nat \<Rightarrow> boost_handler \<Rightarrow> boost_handler" where
  "bs_complete_strand strand rd wr ok calls i =
     dispatch_wrapper strand (\<lambda>ok. bs_complete rd wr ok calls i) ok"

text \<open>With the strand, the wrapper changes nothing.\<close>

lemma bs_complete_strand_alive: "bs_complete_strand True rd wr ok calls i s = bs_complete rd wr ok calls i s"
  by (simp add: bs_complete_strand_def dispatch_wrapper_def)

lemma no_watcher_completion:
  assumes "bs_watchers s = Map.empty"
  shows "bs_complete rd wr ok calls i s =
    (if i < length (bs_posted s) then s\<lparr>bs_posted := take i (bs_posted s) @ drop (Suc i) (bs_posted s)\<rparr> else s)"
  using assms by (simp add: bs_complete_def read_handler_def write_handler_def Let_def split: prod.split io_kind.split)

text \<open>
  Nothing happens after the end of the handler: whatever operations were outstanding, and whatever
  results they complete with in whatever order, no connection is called, nothing is posted again, and
  each completion takes its operation off the list.
\<close>

theorem completions_after_destruction:
  "let t = fold (\<lambda>(ok, calls, i). bs_complete_strand False rd wr ok calls i) cs
     (LibBoostAsioHandler_destroy s)
   in bs_log t = bs_log s \<and> bs_watchers t = Map.empty \<and> set (bs_posted t) \<subseteq> set (bs_posted s)"
proof -
  have "bs_log (fold (\<lambda>(ok, calls, i). bs_complete_strand False rd wr ok calls i) cs t) = bs_log t \<and>
      bs_watchers (fold (\<lambda>(ok, calls, i). bs_complete_strand False rd wr ok calls i) cs t) = Map.empty \<and>
      set (bs_posted (fold (\<lambda>(ok, calls, i). bs_complete_strand False rd wr ok calls i) cs t)) \<subseteq> set (bs_posted t)"
    if "bs_watchers t = Map.empty" for t
    using that
  proof (induction cs arbitrary: t)
    case Nil
    then show ?case by simp
  next
    case (Cons c cs)
    obtain ok calls i where c: "c = (ok, calls, i)" by (cases c)
    let ?t = "bs_complete_strand False rd wr ok calls i t"
    have t: "bs_watchers ?t = Map.empty" "bs_log ?t = bs_log t" "set (bs_posted ?t) \<subseteq> set (bs_posted t)"
      using set_take_subset [of i "bs_posted t"] set_drop_subset [of "Suc i" "bs_posted t"] Cons.prems
      by (auto simp: bs_complete_strand_def dispatch_wrapper_def no_watcher_completion)
    from Cons.IH [OF t(1)] t show ?case by (auto simp: c)
  qed
  from this [of "LibBoostAsioHandler_destroy s"] show ?thesis
    by (simp add: Let_def LibBoostAsioHandler_destroy_def)
qed

subsection \<open>Properties\<close>

theorem boost_follows_last_flags:
  "boost_watched fd (fold (\<lambda>(conn, fd, flags). bs_monitor rd wr conn fd flags) cs new_BoostHandler) =
     (let flags = last_flags fd cs 0 in if flags = 0 then None else Some (and flags rd \<noteq> 0, and flags wr \<noteq> 0))"
proof -
  have "bs_inv new_BoostHandler" by (rule bs_reach_inv [OF bs_reach.start])
  moreover have "boost_watched fd new_BoostHandler = None" by (simp add: boost_watched_def new_BoostHandler_def)
  ultimately show ?thesis using ba.follows_last_flags [where s = new_BoostHandler and old = 0] by simp
qed



text \<open>
  But when the connection asks for reads again while it processes a read event, as a connection does
  that has finished sending, the handler posts two operations for the one that completed: each such
  event leaves one more outstanding read, without bound.
\<close>

theorem reads_pile_up:
  assumes "and flags rd \<noteq> 0" and "and flags wr = 0"
  shows "bs_posted ((bs_complete rd wr True [(conn, fd, flags)] 0 ^^ n)
      (bs_monitor rd wr conn fd flags new_BoostHandler)) = replicate (Suc n) (Io_read, 0, conn, fd)"
proof -
  have z: "flags \<noteq> 0" using assms(1) by auto
  let ?s = "\<lambda>n. (bs_complete rd wr True [(conn, fd, flags)] 0 ^^ n) (bs_monitor rd wr conn fd flags new_BoostHandler)"
  let ?w = "\<lparr>bw_read = True, bw_read_pending = True, bw_write = False, bw_write_pending = False\<rparr>"
  have again: "bs_posted (bs_complete rd wr True [(conn, fd, flags)] 0 t) = replicate (Suc (Suc n)) (Io_read, 0, conn, fd) \<and>
      bs_watchers (bs_complete rd wr True [(conn, fd, flags)] 0 t) fd = Some 0 \<and>
      bs_objs (bs_complete rd wr True [(conn, fd, flags)] 0 t) 0 = ?w"
    if "bs_posted t = replicate (Suc n) (Io_read, 0, conn, fd)" and "bs_watchers t fd = Some 0" and "bs_objs t 0 = ?w"
    for t n
  proof -
    have "replicate n x @ [x, x] = x # x # replicate n x" for x :: "io_kind \<times> addr \<times> addr \<times> c_int"
      by (induction n) auto
    with that assms z show ?thesis
      by (simp add: bs_complete_def read_handler_def bs_monitor_def bw_events_def Let_def)
  qed
  have "bs_posted (?s n) = replicate (Suc n) (Io_read, 0, conn, fd) \<and> bs_watchers (?s n) fd = Some 0 \<and>
      bs_objs (?s n) 0 = ?w"
  proof (induction n)
    case 0
    show ?case
      using assms z
      by (simp add: bs_monitor_def bw_events_def new_BoostHandler_def new_bwatcher_def Let_def)
  next
    case (Suc n)
    then have "bs_posted (?s n) = replicate (Suc n) (Io_read, 0, conn, fd)" "bs_watchers (?s n) fd = Some 0"
        "bs_objs (?s n) 0 = ?w" by auto
    from again [OF this] show ?case by (simp del: replicate.simps)
  qed
  then show ?thesis by simp
qed

theorem reads_pile_up_witness:
  "length (bs_posted ((bs_complete 1 2 True [(3, 5, 1)] 0 ^^ 4) (bs_monitor 1 2 3 5 1 new_BoostHandler))) = 5"
proof -
  have h: "and (1 :: c_int) 1 \<noteq> 0" "and (1 :: c_int) 2 = 0" by simp_all
  show ?thesis using reads_pile_up [OF h, of 4 3 5] by (simp del: funpow.simps)
qed

end
