(* ===== verification/Amqp_Adapters.thy ===== *)
theory Amqp_Adapters
  imports Amqp_Tcp Amqp_Libev Amqp_Libuv Amqp_Boostasio
begin

section \<open>AMQP: the four event loop adapters behind the TCP layer\<close>

text \<open>
  The handlers of \<open>libev.h\<close>, \<open>libuv.h\<close> and \<open>libboostasio.h\<close> as \<open>TcpHandler\<close> objects, next to that of
  \<open>libevent.h\<close>: which functions of the interface they override. A TCP connection relies on its handler
  through this interface only. The contract of an adapter is stated as a locale: what it watches is
  kept under a key computed from the connection and the descriptor, \<open>monitor\<close> sets or clears the
  entry of that key alone, and the other reports do not concern it. All four adapters satisfy it,
  and what is watched after any reports follows from the contract alone.
\<close>

subsection \<open>The handlers as TcpHandler objects\<close>

text \<open>
  The libev handler overrides three functions. Its state is its wrappers with the calls of libev made
  so far; the handler object at a time is the one whose \<open>ev_now\<close> returns that time.
\<close>

definition Ev_TcpHandler :: "tstamp \<Rightarrow> (handler_fault, wrapper list \<times> ev_call list) tcp_handler" where
  "Ev_TcpHandler now =
     (default_TcpHandler (\<lambda>conn fd flags (ws, log).
        Inr (case lv_monitor now conn fd flags ws of (ws', calls) \<Rightarrow> (ws', log @ calls))))
       \<lparr>th_onNegotiate := \<lambda>conn timeout (ws, log).
          Inr (case lv_onNegotiate now conn timeout ws of (r, ws', calls) \<Rightarrow> (r, ws', log @ calls)),
        th_onDetached := \<lambda>conn (ws, log).
          Inr (case lv_onDetached conn ws of (ws', calls) \<Rightarrow> (ws', log @ calls))\<rparr>"

definition new_Ev_TcpHandler :: "wrapper list \<times> ev_call list" where
  "new_Ev_TcpHandler = ([], [])"

text \<open>The handlers of libuv and Boost.Asio override \<open>monitor\<close> only.\<close>

definition Uv_TcpHandler :: "c_int \<Rightarrow> c_int \<Rightarrow> c_int \<Rightarrow> c_int \<Rightarrow> (handler_fault, uv_handler) tcp_handler" where
  "Uv_TcpHandler rd wr ur uw = default_TcpHandler (\<lambda>conn fd flags h. Inr (uv_monitor rd wr ur uw conn fd flags h))"

definition Boost_TcpHandler :: "c_int \<Rightarrow> c_int \<Rightarrow> (handler_fault, boost_handler) tcp_handler" where
  "Boost_TcpHandler rd wr = default_TcpHandler (\<lambda>conn fd flags s. Inr (bs_monitor rd wr conn fd flags s))"

subsection \<open>The contract of an adapter\<close>

text \<open>What a sequence of reports leaves under a key; \<open>upd\<close> is the new entry, from the connection that
  reports, the flags and the old entry.\<close>

fun entry_after ::
  "(addr \<Rightarrow> c_int \<Rightarrow> 'k) \<Rightarrow> (addr \<Rightarrow> c_int \<Rightarrow> 'w option \<Rightarrow> 'w) \<Rightarrow> 'k \<Rightarrow> 'w option \<Rightarrow>
   (('e, 'h) tcp_connection \<times> tcp_event) list \<Rightarrow> 'w option" where
  "entry_after key upd k w [] = w"
| "entry_after key upd k w ((tc, Te_idle fd flags) # es) =
     entry_after key upd k
       (if key (tc_self tc) fd \<noteq> k then w else if flags = 0 then None else Some (upd (tc_self tc) flags w)) es"
| "entry_after key upd k w ((tc, _) # es) = entry_after key upd k w es"

locale tcp_adapter =
  fixes adapter :: "('e, 'h) tcp_handler \<Rightarrow> bool"
    and ok :: "'h \<Rightarrow> bool"
    and key :: "addr \<Rightarrow> c_int \<Rightarrow> 'k"
    and watch :: "'k \<Rightarrow> 'h \<Rightarrow> 'w option"
    and upd :: "addr \<Rightarrow> c_int \<Rightarrow> 'w option \<Rightarrow> 'w"
  assumes monitor_law: "adapter th \<Longrightarrow> ok h \<Longrightarrow>
      \<exists>h'. th_monitor th conn fd flags h = Inr h' \<and> ok h' \<and>
        (\<forall>k. watch k h' =
           (if k = key conn fd then (if flags = 0 then None else Some (upd conn flags (watch k h))) else watch k h))"
    and connected_law: "adapter th \<Longrightarrow> th_onConnected th conn h = Inr h"
    and secured_law: "adapter th \<Longrightarrow> \<exists>b. th_onSecured th conn h = Inr (b, h)"
    and ready_law: "adapter th \<Longrightarrow> th_onReady th conn h = Inr h"
    and heartbeat_law: "adapter th \<Longrightarrow> th_onHeartbeat th conn h = Inr h"
begin

lemma report:
  assumes "adapter (tc_handler tc)" and "ok h"
  shows "\<exists>h'. tcp_report tc e h = Inr h' \<and> ok h' \<and>
    (\<forall>k. watch k h' = entry_after key upd k (watch k h) [(tc, e)])"
proof (cases e)
  case (Te_idle fd flags)
  with monitor_law [OF assms, of "tc_self tc" fd flags] show ?thesis
    by (auto simp: tc_onIdle_def)
next
  case Te_secured
  with secured_law [OF assms(1), of "tc_self tc" h] assms(2) show ?thesis by (auto simp: tc_onSecured_def)
qed (use assms in \<open>auto simp: tc_onConnected_def tc_onReady_def tc_onHeartbeat_def
  connected_law ready_law heartbeat_law\<close>)

lemma entry_after_Cons: "entry_after key upd k w (x # es) = entry_after key upd k (entry_after key upd k w [x]) es"
proof -
  obtain tc e where "x = (tc, e)" by (cases x)
  then show ?thesis by (cases e) simp_all
qed

lemma reports:
  assumes "\<forall>(tc, e) \<in> set es. adapter (tc_handler tc)" and "ok h"
  shows "\<exists>h'. tcp_reports es h = Inr h' \<and> ok h' \<and> (\<forall>k. watch k h' = entry_after key upd k (watch k h) es)"
  using assms
proof (induction es arbitrary: h)
  case Nil
  then show ?case by simp
next
  case (Cons x es)
  obtain tc e where x: "x = (tc, e)" by (cases x)
  obtain h1 where h1: "tcp_report tc e h = Inr h1" "ok h1" "\<And>k. watch k h1 = entry_after key upd k (watch k h) [x]"
    using report [of tc h e] Cons.prems x by auto
  from Cons.IH [OF _ h1(2)] Cons.prems(1) h1(1,3) x show ?case
    by (auto simp: entry_after_Cons [of _ _ "(tc, e)" es])
qed

end

text \<open>
  An adapter that keeps one entry per descriptor, with the flags in a part of the entry, gives the
  contract of \<open>monitor\<close> of a single object.
\<close>

locale descriptor_adapter = tcp_adapter adapter ok "\<lambda>conn fd. fd" watch upd
  for adapter :: "('e, 'h) tcp_handler \<Rightarrow> bool" and ok :: "'h \<Rightarrow> bool"
    and watch :: "c_int \<Rightarrow> 'h \<Rightarrow> 'w option" and upd :: "addr \<Rightarrow> c_int \<Rightarrow> 'w option \<Rightarrow> 'w" +
  fixes th :: "('e, 'h) tcp_handler" and flags_of :: "'w \<Rightarrow> 'f" and enc :: "c_int \<Rightarrow> 'f"
  assumes adapter_th: "adapter th"
    and flags_of_upd: "flags_of (upd conn flags w) = enc flags"
begin

sublocale mon: fd_monitor "\<lambda>conn fd flags h. projr (th_monitor th conn fd flags h)"
  "\<lambda>fd h. map_option flags_of (watch fd h)" enc ok
proof
  fix h fd conn fd' flags
  assume "ok h"
  from monitor_law [OF adapter_th this, of conn fd' flags] obtain h' where
    h': "th_monitor th conn fd' flags h = Inr h'" "ok h'"
      "\<And>k. watch k h' = (if k = fd' then (if flags = 0 then None else Some (upd conn flags (watch k h))) else watch k h)"
    by blast
  show "map_option flags_of (watch fd (projr (th_monitor th conn fd' flags h))) =
      (if fd = fd' then if flags = 0 then None else Some (enc flags) else map_option flags_of (watch fd h))"
    by (simp add: h' flags_of_upd)
  show "ok (projr (th_monitor th conn fd' flags h))" by (simp add: h')
qed

end

subsection \<open>The four adapters\<close>

text \<open>The connection of an entry: the one that asked first.\<close>

definition first_asked :: "(c_int \<Rightarrow> 'f) \<Rightarrow> addr \<Rightarrow> c_int \<Rightarrow> (addr \<times> 'f) option \<Rightarrow> addr \<times> 'f" where
  "first_asked enc conn flags w = (case w of None \<Rightarrow> conn | Some (conn0, old) \<Rightarrow> conn0, enc flags)"

named_theorems adapter_simps

declare LibEventHandler_def [adapter_simps] Ev_TcpHandler_def [adapter_simps] Uv_TcpHandler_def [adapter_simps]
  Boost_TcpHandler_def [adapter_simps] default_TcpHandler_def [adapter_simps] first_asked_def [adapter_simps]

interpretation le_tcp: descriptor_adapter "\<lambda>th. th = LibEventHandler rd wr" "\<lambda>h. True"
  "\<lambda>fd h. lh_watchers h fd" "first_asked (event_flags_of rd wr)" "LibEventHandler rd wr" snd "event_flags_of rd wr"
  for rd wr
  by unfold_locales (auto simp: adapter_simps monitor_def split: option.splits prod.splits)

definition uv_entry :: "c_int \<Rightarrow> uv_handler \<Rightarrow> (addr \<times> c_int) option" where
  "uv_entry fd h = map_option (\<lambda>w. (uv_connection w, uv_events w)) (h fd)"

lemma uv_entry_empty [simp]: "uv_entry fd (\<lambda>fd. None) = None"
  by (simp add: uv_entry_def)

interpretation uv_tcp: descriptor_adapter "\<lambda>th. th = Uv_TcpHandler rd wr ur uw" "\<lambda>h. True"
  uv_entry "first_asked (amqp_to_uv_events rd wr ur uw)" "Uv_TcpHandler rd wr ur uw" snd "amqp_to_uv_events rd wr ur uw"
  for rd wr ur uw
  by unfold_locales (auto simp: adapter_simps uv_entry_def uv_monitor_def split: option.splits)

interpretation ba_tcp: descriptor_adapter "\<lambda>th. th = Boost_TcpHandler rd wr" bs_inv
  boost_watched "\<lambda>conn flags w. (and flags rd \<noteq> 0, and flags wr \<noteq> 0)" "Boost_TcpHandler rd wr" "\<lambda>f. f"
  "\<lambda>flags. (and flags rd \<noteq> 0, and flags wr \<noteq> 0)"
  for rd wr
  by unfold_locales
    (auto simp: adapter_simps bs_monitor_inv bs_monitor_watched bs_monitor_watched_other)

text \<open>The libev handler keeps its entries per connection and descriptor.\<close>

fun lv_entry :: "addr \<times> c_int \<Rightarrow> wrapper list \<Rightarrow> c_int option" where
  "lv_entry (conn, fd) [] = None"
| "lv_entry (conn, fd) (w # ws) =
     (if wr_connection w = conn then map_of (wr_watchers w) fd else lv_entry (conn, fd) ws)"

definition lv_ok :: "wrapper list \<Rightarrow> bool" where
  "lv_ok ws \<longleftrightarrow> distinct (map wr_connection ws) \<and> (\<forall>w \<in> set ws. distinct (map fst (wr_watchers w)))"

lemma lv_lookup_entry:
  assumes "lv_ok ws"
  shows "lv_ok (fst (lv_lookup now conn ws)) \<and> conn \<in> wr_connection ` set (fst (lv_lookup now conn ws)) \<and>
    lv_entry k (fst (lv_lookup now conn ws)) = lv_entry k ws"
proof (cases "conn \<in> wr_connection ` set ws")
  case False
  have "lv_entry k (ws @ [fst (new_Wrapper now conn 60)]) = lv_entry k ws"
    by (induction ws; cases k) (simp_all add: new_Wrapper_def)
  with False assms show ?thesis by (auto simp: lv_ok_def new_Wrapper_def)
qed (use assms in auto)

lemma on_wrapper_entry:
  assumes "lv_ok ws" and "conn \<in> wr_connection ` set ws"
  shows "lv_ok (fst (on_wrapper conn (Wrapper_monitor fd flags) dflt ws)) \<and>
    lv_entry k (fst (on_wrapper conn (Wrapper_monitor fd flags) dflt ws)) =
    (if k = (conn, fd) then (if flags = 0 then None else Some flags) else lv_entry k ws)"
  using assms
proof (induction ws)
  case Nil
  then show ?case by simp
next
  case (Cons w ws)
  let ?w = "fst (Wrapper_monitor fd flags w)"
  have d: "distinct (map fst (wr_watchers w))" using Cons.prems(1) by (simp add: lv_ok_def)
  have m: "map_of (wr_watchers ?w) b =
      (if b = fd then (if flags = 0 then None else Some flags) else map_of (wr_watchers w) b)" for b
    by (rule lw.watched_mon [OF d])
  have o: "distinct (map fst (wr_watchers ?w))" by (rule lw.ok_mon [OF d])
  have c: "map wr_connection (fst (on_wrapper conn (Wrapper_monitor fd flags) dflt ws)) = map wr_connection ws"
    by (rule on_wrapper_connections) (rule Wrapper_monitor_connection)
  show ?case
  proof (cases "wr_connection w = conn")
    case True
    with Cons.prems(1) o show ?thesis
      by (cases k) (auto simp: lv_ok_def split_def Wrapper_monitor_connection m)
  next
    case False
    then have i: "conn \<in> wr_connection ` set ws" "lv_ok ws" using Cons.prems by (auto simp: lv_ok_def)
    from Cons.IH [OF i(2,1)] False Cons.prems(1) c show ?thesis
      by (cases k) (auto simp: lv_ok_def split_def simp del: set_map simp: set_map [symmetric])
  qed
qed

lemma lv_monitor_entry:
  assumes "lv_ok ws"
  shows "lv_ok (fst (lv_monitor now conn fd flags ws)) \<and> lv_entry k (fst (lv_monitor now conn fd flags ws)) =
    (if k = (conn, fd) then (if flags = 0 then None else Some flags) else lv_entry k ws)"
proof -
  note l = lv_lookup_entry [OF assms, of now conn]
  from on_wrapper_entry [of "fst (lv_lookup now conn ws)" conn fd flags "[]" k] l [of k] show ?thesis
    by (simp add: lv_monitor_def split_def del: lv_lookup.simps)
qed

interpretation lv_tcp: tcp_adapter "\<lambda>th. \<exists>now. th = Ev_TcpHandler now" "\<lambda>(ws, log). lv_ok ws"
  Pair "\<lambda>k (ws, log). lv_entry k ws" "\<lambda>conn flags w. flags"
  by unfold_locales (auto simp: adapter_simps split_def lv_monitor_entry)

subsection \<open>Properties\<close>

text \<open>
  Reports of connections (by address) at given times, made to an adapter; \<open>impl\<close> is the AMQP
  connection of each. \<open>asked\<close> is what the reports ask for a descriptor: the connection that asked
  first since it was last given up, and the flags asked for last.
\<close>

definition reported ::
  "(tstamp \<Rightarrow> ('e, 'h) tcp_handler) \<Rightarrow> (addr \<Rightarrow> connection_impl) \<Rightarrow> (tstamp \<times> addr \<times> tcp_event) list \<Rightarrow>
   (('e, 'h) tcp_connection \<times> tcp_event) list" where
  "reported th impl =
     map (\<lambda>(now, a, e).
       (\<lparr>tc_self = a, tc_handler = th now, tc_state = None, tc_connection = impl a\<rparr>, e))"

fun asked :: "c_int \<Rightarrow> (addr \<times> c_int) option \<Rightarrow> (tstamp \<times> addr \<times> tcp_event) list \<Rightarrow> (addr \<times> c_int) option" where
  "asked fd w [] = w"
| "asked fd w ((now, conn, Te_idle fd' flags) # rs) =
     asked fd
       (if fd' \<noteq> fd then w
        else if flags = 0 then None
        else Some (case w of None \<Rightarrow> conn | Some (conn0, old) \<Rightarrow> conn0, flags)) rs"
| "asked fd w ((now, conn, _) # rs) = asked fd w rs"

lemma reported_simps [simp]:
  "reported th impl [] = []"
  "reported th impl ((now, a, e) # rs) =
     (\<lparr>tc_self = a, tc_handler = th now, tc_state = None, tc_connection = impl a\<rparr>, e) # reported th impl rs"
  by (simp_all add: reported_def)

lemma reported_adapter: "(\<And>now. adapter (th now)) \<Longrightarrow> \<forall>(tc, e) \<in> set (reported th impl rs). adapter (tc_handler tc)"
  by (auto simp: reported_def)

lemma entry_first_asked:
  "entry_after (\<lambda>conn fd. fd) (first_asked enc) fd (map_option (apsnd enc) w) (reported th impl rs) =
     map_option (apsnd enc) (asked fd w rs)"
proof (induction fd w rs rule: asked.induct)
  case (2 fd w now conn fd' flags rs)
  let ?w = "if fd' \<noteq> fd then w else if flags = 0 then None
        else Some (case w of None \<Rightarrow> conn | Some (conn0, old) \<Rightarrow> conn0, flags)"
  have "(if fd' \<noteq> fd then map_option (apsnd enc) w else if flags = 0 then None
       else Some (first_asked enc conn flags (map_option (apsnd enc) w))) = map_option (apsnd enc) ?w"
    by (auto simp: first_asked_def split: option.split)
  with 2 show ?case by (simp split del: if_split cong: if_cong)
qed simp_all

lemma entry_flags:
  "entry_after (\<lambda>conn fd. fd) (\<lambda>conn flags w. enc flags) fd (map_option (\<lambda>cf. enc (snd cf)) w) (reported th impl rs) =
     map_option (\<lambda>cf. enc (snd cf)) (asked fd w rs)"
proof (induction fd w rs rule: asked.induct)
  case (2 fd w now conn fd' flags rs)
  then show ?case by (auto split: if_splits)
qed simp_all

lemma entry_of_connection:
  "entry_after Pair (\<lambda>conn flags w. flags) (conn, fd) (map_option snd w) (reported th impl rs) =
     map_option snd (asked fd w (filter (\<lambda>(now, a, e). a = conn) rs))"
proof (induction rs arbitrary: w)
  case (Cons r rs)
  obtain now conn' e where r: "r = (now, conn', e)" by (cases r)
  from Cons.IH [of None] Cons.IH [of "Some (conn1, flags1)" for conn1 flags1] Cons.IH [of w] show ?case
    by (cases e) (auto simp: r)
qed simp

text \<open>
  C33. The event loop adapters are interchangeable behind the TCP layer: after the same reports of any TCP
  connections, the handlers of libevent, libuv and Boost.Asio watch the same descriptors, each for
  the flags that were asked for last, the former two on behalf of the connection that asked first
  since the descriptor was last given up; none of them fails. The handler of libev keeps the
  connections apart: for each it watches what the reports of this connection alone ask for, so it
  agrees with the others on every descriptor that only one connection uses.
\<close>

theorem adapters_watch_alike:
  "(\<exists>h. tcp_reports (reported (\<lambda>now. LibEventHandler rd wr) impl rs) new_LibEventHandler = Inr h \<and>
      (\<forall>fd. lh_watchers h fd = map_option (apsnd (event_flags_of rd wr)) (asked fd None rs))) \<and>
   (\<exists>h. tcp_reports (reported (\<lambda>now. Uv_TcpHandler rd wr ur uw) impl rs) Map.empty = Inr h \<and>
      (\<forall>fd. uv_entry fd h = map_option (apsnd (amqp_to_uv_events rd wr ur uw)) (asked fd None rs))) \<and>
   (\<exists>s. tcp_reports (reported (\<lambda>now. Boost_TcpHandler rd wr) impl rs) new_BoostHandler = Inr s \<and>
      (\<forall>fd. boost_watched fd s =
        map_option (\<lambda>(conn, flags). (and flags rd \<noteq> 0, and flags wr \<noteq> 0)) (asked fd None rs))) \<and>
   (\<exists>ws log. tcp_reports (reported Ev_TcpHandler impl rs) new_Ev_TcpHandler = Inr (ws, log) \<and>
      (\<forall>conn fd. lv_entry (conn, fd) ws =
        map_option snd (asked fd None (filter (\<lambda>(now, a, e). a = conn) rs))))"
proof (intro conjI)
  show "\<exists>h. tcp_reports (reported (\<lambda>now. LibEventHandler rd wr) impl rs) new_LibEventHandler = Inr h \<and>
      (\<forall>fd. lh_watchers h fd = map_option (apsnd (event_flags_of rd wr)) (asked fd None rs))"
    using le_tcp.reports [where rd = rd and wr = wr and es = "reported (\<lambda>now. LibEventHandler rd wr) impl rs" and h = new_LibEventHandler,
        OF reported_adapter] entry_first_asked [of "event_flags_of rd wr" _ None]
    by (auto simp: new_LibEventHandler_def)
  show "\<exists>h. tcp_reports (reported (\<lambda>now. Uv_TcpHandler rd wr ur uw) impl rs) Map.empty = Inr h \<and>
      (\<forall>fd. uv_entry fd h = map_option (apsnd (amqp_to_uv_events rd wr ur uw)) (asked fd None rs))"
    using uv_tcp.reports [where rd = rd and wr = wr and ur = ur and uw = uw and es = "reported (\<lambda>now. Uv_TcpHandler rd wr ur uw) impl rs" and h = Map.empty,
        OF reported_adapter] entry_first_asked [of "amqp_to_uv_events rd wr ur uw" _ None]
    by auto
  show "\<exists>s. tcp_reports (reported (\<lambda>now. Boost_TcpHandler rd wr) impl rs) new_BoostHandler = Inr s \<and>
      (\<forall>fd. boost_watched fd s =
        map_option (\<lambda>(conn, flags). (and flags rd \<noteq> 0, and flags wr \<noteq> 0)) (asked fd None rs))"
    using ba_tcp.reports [where rd = rd and wr = wr and es = "reported (\<lambda>now. Boost_TcpHandler rd wr) impl rs" and h = new_BoostHandler,
        OF reported_adapter] entry_flags [of "\<lambda>flags. (and flags rd \<noteq> 0, and flags wr \<noteq> 0)" _ None]
    by (auto simp: new_BoostHandler_def boost_watched_def bs_inv_def split_def)
  show "\<exists>ws log. tcp_reports (reported Ev_TcpHandler impl rs) new_Ev_TcpHandler = Inr (ws, log) \<and>
      (\<forall>conn fd. lv_entry (conn, fd) ws =
        map_option snd (asked fd None (filter (\<lambda>(now, a, e). a = conn) rs)))"
  proof -
    have "\<forall>(tc, e) \<in> set (reported Ev_TcpHandler impl rs). \<exists>now. tc_handler tc = Ev_TcpHandler now"
      by (rule reported_adapter) blast
    from lv_tcp.reports [OF this, of new_Ev_TcpHandler] show ?thesis
      by (auto simp: new_Ev_TcpHandler_def lv_ok_def entry_of_connection [of _ _ None, simplified])
  qed
qed

end
