(* ===== verification/Amqp_Libevent_Timers.thy ===== *)
theory Amqp_Libevent_Timers
  imports Amqp_Connection
begin

section \<open>AMQP: the heartbeat timers of the libevent handler\<close>

text \<open>
  \<open>libevent.h\<close>: the handler keeps a bare pointer to the connection in the timer it starts when a
  heartbeat interval is negotiated, and frees the timer when the connection is lost. Here the handler
  runs together with the connections that use it: which of them exist, and what \<open>tcphandler.h\<close>
  documents of the order in which it is called for one of them. A connection may be created at the
  address of one that was destroyed.
\<close>

datatype timer_event =
    Tm_created addr
  | Tm_connected addr
  | Tm_negotiated addr u16
  | Tm_lost addr
  | Tm_detached addr
  | Tm_fires nat

text \<open>\<open>timerCallback\<close>: the connection whose \<open>heartbeat\<close> is called has to exist.\<close>

definition timerCallback :: "addr set \<Rightarrow> timer \<Rightarrow> handler_fault + addr" where
  "timerCallback alive t = (if tm_connection t \<in> alive then Inr (tm_connection t) else Inl Use_after_free)"

text \<open>The handler and the connections that exist; an event that was freed does not fire.\<close>

fun timers_step ::
  "libevent_handler \<times> addr set \<Rightarrow> timer_event \<Rightarrow> handler_fault + libevent_handler \<times> addr set" where
  "timers_step (h, alive) (Tm_created c) = Inr (h, insert c alive)"
| "timers_step (h, alive) (Tm_connected c) = Inr (h, alive)"
| "timers_step (h, alive) (Tm_negotiated c interval) = Inr (snd (lh_onNegotiate c interval h), alive)"
| "timers_step (h, alive) (Tm_lost c) = map_sum (\<lambda>f. f) (\<lambda>h'. (h', alive)) (lh_onLost c h)"
| "timers_step (h, alive) (Tm_detached c) = Inr (h, alive - {c})"
| "timers_step (h, alive) (Tm_fires ev) =
     (case lh_live h ev of
        None \<Rightarrow> Inr (h, alive)
      | Some t \<Rightarrow> map_sum (\<lambda>f. f) (\<lambda>c. (h, alive)) (timerCallback alive t))"

definition timers_start :: "libevent_handler \<times> addr set" where
  "timers_start = (new_LibEventHandler, {})"

subsection \<open>What the interface documents\<close>

text \<open>
  A connection is connected and negotiates once at most, it is lost if it was connected, and it is
  detached last.
\<close>

datatype conn_phase = Gone | Created | Connected | Beating | Lost

fun conn_next :: "(addr \<Rightarrow> conn_phase) \<Rightarrow> timer_event \<Rightarrow> (addr \<Rightarrow> conn_phase) option" where
  "conn_next ph (Tm_created c) = (if ph c = Gone then Some (ph(c := Created)) else None)"
| "conn_next ph (Tm_connected c) = (if ph c = Created then Some (ph(c := Connected)) else None)"
| "conn_next ph (Tm_negotiated c interval) = (if ph c = Connected then Some (ph(c := Beating)) else None)"
| "conn_next ph (Tm_lost c) = (if ph c = Connected \<or> ph c = Beating then Some (ph(c := Lost)) else None)"
| "conn_next ph (Tm_detached c) = (if ph c = Created \<or> ph c = Lost then Some (ph(c := Gone)) else None)"
| "conn_next ph (Tm_fires ev) = Some ph"

subsection \<open>The handler, abstractly\<close>

text \<open>
  The addresses at which some connection has negotiated, and those at which one has and is not lost:
  the loss of a connection that has not negotiated, at an address at which an earlier one had, is the
  only thing that goes wrong.
\<close>

fun beats_step :: "addr set \<times> addr set \<Rightarrow> timer_event \<Rightarrow> handler_fault + addr set \<times> addr set" where
  "beats_step (used, beating) (Tm_negotiated c interval) = Inr (insert c used, insert c beating)"
| "beats_step (used, beating) (Tm_lost c) =
     (if c \<in> used - beating then Inl Use_after_free else Inr (used, beating - {c}))"
| "beats_step (used, beating) _ = Inr (used, beating)"

text \<open>The timers that run are those of the connections that beat, one for each.\<close>

definition timers_ok :: "addr set \<Rightarrow> libevent_handler \<Rightarrow> bool" where
  "timers_ok beating h \<longleftrightarrow>
     (\<forall>ev t. lh_live h ev = Some t \<longrightarrow> tm_connection t \<in> beating \<and> lh_timer_events h (tm_connection t) = Some ev) \<and>
     (\<forall>c \<in> beating. \<exists>ev t. lh_timer_events h c = Some ev \<and> lh_live h ev = Some t \<and> tm_connection t = c) \<and>
     (\<forall>ev. ev \<in> dom (lh_live h) \<union> ran (lh_timer_events h) \<longrightarrow> ev < lh_next h) \<and>
     inj_on (lh_timer_events h) (dom (lh_timer_events h))"

fun timers_rel ::
  "(addr \<Rightarrow> conn_phase) \<Rightarrow> libevent_handler \<times> addr set \<Rightarrow> addr set \<times> addr set \<Rightarrow> bool" where
  "timers_rel ph (h, alive) (used, beating) \<longleftrightarrow>
     timers_ok beating h \<and> used = dom (lh_timer_events h) \<and>
     beating = {c. ph c = Beating} \<and> alive = {c. ph c \<noteq> Gone}"

lemma timers_okD:
  assumes "timers_ok B h"
  shows "lh_live h ev = Some t \<Longrightarrow> tm_connection t \<in> B \<and> lh_timer_events h (tm_connection t) = Some ev"
    and "c \<in> B \<Longrightarrow> \<exists>ev t. lh_timer_events h c = Some ev \<and> lh_live h ev = Some t \<and> tm_connection t = c"
    and "lh_live h ev = Some t \<Longrightarrow> ev < lh_next h"
    and "lh_timer_events h c = Some ev \<Longrightarrow> ev < lh_next h"
    and "lh_timer_events h c = Some ev \<Longrightarrow> lh_timer_events h d = Some ev \<Longrightarrow> c = d"
  using assms by (auto simp: timers_ok_def inj_on_def ran_def dom_def)

lemma timers_okI:
  assumes "\<And>ev t. lh_live h ev = Some t \<Longrightarrow>
      tm_connection t \<in> B \<and> lh_timer_events h (tm_connection t) = Some ev \<and> ev < lh_next h"
    and "\<And>c. c \<in> B \<Longrightarrow> \<exists>ev t. lh_timer_events h c = Some ev \<and> lh_live h ev = Some t \<and> tm_connection t = c"
    and "\<And>c ev. lh_timer_events h c = Some ev \<Longrightarrow> ev < lh_next h"
    and "\<And>c d ev. lh_timer_events h c = Some ev \<Longrightarrow> lh_timer_events h d = Some ev \<Longrightarrow> c = d"
  shows "timers_ok B h"
  using assms unfolding timers_ok_def inj_on_def ran_def dom_def by auto

lemma timers_ok_negotiate:
  assumes ok: "timers_ok B h" and c: "c \<notin> B"
  shows "timers_ok (insert c B) (setTimer c interval h)"
proof -
  note D = timers_okD [OF ok]
  obtain t where h': "setTimer c interval h =
      h\<lparr>lh_next := Suc (lh_next h), lh_timer_events := (lh_timer_events h)(c \<mapsto> lh_next h),
        lh_live := (lh_live h)(lh_next h \<mapsto> t)\<rparr>" and t: "tm_connection t = c"
    by (simp add: setTimer_def Let_def)
  show ?thesis
  proof (rule timers_okI)
    fix ev u assume "lh_live (setTimer c interval h) ev = Some u"
    with D(1,3) [of ev u] c t show "tm_connection u \<in> insert c B \<and>
        lh_timer_events (setTimer c interval h) (tm_connection u) = Some ev \<and> ev < lh_next (setTimer c interval h)"
      by (auto simp: h' less_Suc_eq split: if_splits)
  next
    fix d assume "d \<in> insert c B"
    then show "\<exists>ev u. lh_timer_events (setTimer c interval h) d = Some ev \<and>
        lh_live (setTimer c interval h) ev = Some u \<and> tm_connection u = d"
    proof (cases "d = c")
      case False
      with \<open>d \<in> insert c B\<close> obtain ev u where
          "lh_timer_events h d = Some ev" "lh_live h ev = Some u" "tm_connection u = d" "ev < lh_next h"
        using D(2) [of d] D(4) by blast
      with False show ?thesis by (simp add: h')
    qed (simp add: h' t)
  next
    fix d ev assume "lh_timer_events (setTimer c interval h) d = Some ev"
    with D(4) [of d ev] show "ev < lh_next (setTimer c interval h)" by (auto simp: h' split: if_splits)
  next
    fix d d' ev
    assume "lh_timer_events (setTimer c interval h) d = Some ev" "lh_timer_events (setTimer c interval h) d' = Some ev"
    with D(4) [of d ev] D(4) [of d' ev] D(5) [of d ev d'] show "d = d'" by (auto simp: h' split: if_splits)
  qed
qed

lemma timers_ok_lost:
  assumes ok: "timers_ok B h" and c: "c \<in> B"
  shows "\<exists>h'. lh_onLost c h = Inr h' \<and> timers_ok (B - {c}) h' \<and> lh_timer_events h' = lh_timer_events h"
proof -
  note D = timers_okD [OF ok]
  obtain ev t where e: "lh_timer_events h c = Some ev" "lh_live h ev = Some t" "tm_connection t = c"
    using D(2) [OF c] by blast
  let ?h = "h\<lparr>lh_live := (lh_live h)(ev := None)\<rparr>"
  have "timers_ok (B - {c}) ?h"
  proof (rule timers_okI)
    fix ev' u assume "lh_live ?h ev' = Some u"
    then have u: "lh_live h ev' = Some u" "ev' \<noteq> ev" by (auto split: if_splits)
    with D(1,3) [OF u(1)] e show "tm_connection u \<in> B - {c} \<and> lh_timer_events ?h (tm_connection u) = Some ev' \<and> ev' < lh_next ?h"
      by auto
  next
    fix d assume d: "d \<in> B - {c}"
    then obtain ev' u where u: "lh_timer_events h d = Some ev'" "lh_live h ev' = Some u" "tm_connection u = d"
      using D(2) [of d] by blast
    with D(5) [OF u(1), of c] e d show "\<exists>ev u. lh_timer_events ?h d = Some ev \<and> lh_live ?h ev = Some u \<and> tm_connection u = d"
      by auto
  qed (use D(4,5) in auto)
  with e show ?thesis by (simp add: lh_onLost_def)
qed

text \<open>A connection that does not beat has no timer; its entry, if there is one, is of a freed event.\<close>

lemma lost_without_timer:
  assumes ok: "timers_ok B h" and c: "c \<notin> B"
  shows "lh_onLost c h = (if c \<in> dom (lh_timer_events h) then Inl Use_after_free else Inr h)"
proof (cases "lh_timer_events h c")
  case (Some ev)
  have "lh_live h ev = None"
  proof (rule ccontr)
    assume "lh_live h ev \<noteq> None"
    then obtain t where t: "lh_live h ev = Some t" by blast
    from timers_okD(1) [OF ok t] timers_okD(5) [OF ok Some] c show False by blast
  qed
  with Some show ?thesis by (auto simp: lh_onLost_def)
qed (auto simp: lh_onLost_def)

lemma timers_step_sim:
  assumes rel: "timers_rel ph s a" and nx: "conn_next ph e = Some ph'"
  shows "case timers_step s e of
      Inl f \<Rightarrow> beats_step a e = Inl f
    | Inr s' \<Rightarrow> \<exists>a'. beats_step a e = Inr a' \<and> timers_rel ph' s' a'"
proof -
  obtain h alive where s: "s = (h, alive)" by (cases s)
  obtain used B where a: "a = (used, B)" by (cases a)
  have ok: "timers_ok B h" and r: "used = dom (lh_timer_events h)" "B = {c. ph c = Beating}" "alive = {c. ph c \<noteq> Gone}"
    using rel unfolding s a timers_rel.simps by blast+
  show ?thesis
  proof (cases e)
    case (Tm_negotiated c interval)
    then have "ph c = Connected" "ph' = ph(c := Beating)" using nx by (auto split: if_splits)
    with timers_ok_negotiate [OF ok, of c interval] r Tm_negotiated show ?thesis
      by (auto simp: s a lh_onNegotiate_def setTimer_def Let_def insert_Collect [symmetric] intro!: arg_cong2 [where f = timers_ok])
  next
    case (Tm_lost c)
    then have c: "ph c = Connected \<or> ph c = Beating" "ph' = ph(c := Lost)" using nx by (auto split: if_splits)
    show ?thesis
    proof (cases "c \<in> B")
      case True
      from timers_ok_lost [OF ok True] obtain h' where
        h': "lh_onLost c h = Inr h'" "timers_ok (B - {c}) h'" "lh_timer_events h' = lh_timer_events h" by blast
      moreover have "B - {c} = {d. ph' d = Beating}" "alive = {d. ph' d \<noteq> Gone}" using r c True by auto
      ultimately show ?thesis using Tm_lost True r(1) by (simp add: s a)
    next
      case False
      have "B - {c} = B" "B = {d. ph' d = Beating}" "alive = {d. ph' d \<noteq> Gone}" using r c False by auto
      with lost_without_timer [OF ok False] Tm_lost ok False r(1) show ?thesis by (auto simp: s a)
    qed
  next
    case (Tm_fires ev)
    have "timerCallback alive t = Inr (tm_connection t)" if "lh_live h ev = Some t" for t
      using timers_okD(1) [OF ok that] r by (auto simp: timerCallback_def)
    with Tm_fires nx rel show ?thesis by (auto simp: s a split: option.split)
  qed (use nx ok r in \<open>auto simp: s a split: if_splits intro!: arg_cong2 [where f = timers_ok]\<close>)
qed

interpretation tm: fault_simulation timers_step beats_step conn_next timers_rel "\<lambda>e. [e]"
proof
  fix ph c a e ph' f
  assume "timers_rel ph c a" "conn_next ph e = Some ph'" "timers_step c e = Inl f"
  with timers_step_sim [of ph c a e ph'] show "run_steps beats_step a [e] = Inl f" by simp
next
  fix ph c a e ph' c'
  assume "timers_rel ph c a" "conn_next ph e = Some ph'" "timers_step c e = Inr c'"
  with timers_step_sim [of ph c a e ph'] show "\<exists>a'. run_steps beats_step a [e] = Inr a' \<and> timers_rel ph' c' a'" by auto
qed

subsection \<open>Properties\<close>

lemma timers_rel_start: "timers_rel (\<lambda>c. Gone) timers_start ({}, {})"
  by (simp add: timers_start_def new_LibEventHandler_def timers_ok_def)

lemma beats_used:
  "run_steps beats_step (used, B) es = Inr (used', B') \<Longrightarrow> used' = used \<union> {c. \<exists>i. Tm_negotiated c i \<in> set es}"
proof (induction es arbitrary: used B)
  case Nil
  then show ?case by simp
next
  case (Cons e es)
  show ?case
  proof (cases e)
    case (Tm_negotiated c i)
    with Cons.IH [of "insert c used" "insert c B"] Cons.prems show ?thesis by auto
  qed (use Cons in \<open>auto split: if_splits\<close>)
qed

text \<open>The abstract run of a part of the events that went through.\<close>

lemma beats_prefix:
  assumes "protocol_ok conn_next (\<lambda>c. Gone) es" and "run_steps timers_step timers_start es = Inr s"
  shows "\<exists>B. run_steps beats_step ({}, {}) es = Inr ({c. \<exists>i. Tm_negotiated c i \<in> set es}, B) \<and>
    B = {c. protocol_end conn_next (\<lambda>c. Gone) es c = Beating} \<and> timers_ok B (fst s)"
proof -
  obtain used B where r: "run_steps beats_step ({}, {}) es = Inr (used, B)"
      "timers_rel (protocol_end conn_next (\<lambda>c. Gone) es) s (used, B)"
    using tm.run_sim [OF timers_rel_start assms(1)] assms(2) by auto
  obtain h alive where "s = (h, alive)" by (cases s)
  with r beats_used [OF r(1)] show ?thesis by (auto simp: timers_rel.simps)
qed

lemma faulty_run_iff:
  assumes pr: "protocol_ok conn_next (\<lambda>c. Gone) es"
  shows "(\<exists>f. run_steps timers_step timers_start es = Inl f) \<longleftrightarrow>
    (\<exists>es1 c es2 i. es = es1 @ Tm_lost c # es2 \<and> Tm_negotiated c i \<in> set es1 \<and>
      protocol_end conn_next (\<lambda>c. Gone) es1 c = Connected)"
proof
  assume "\<exists>f. run_steps timers_step timers_start es = Inl f"
  then obtain f where "run_steps timers_step timers_start es = Inl f" by blast
  from first_fault [OF this] obtain es1 e es2 s1 where e: "es = es1 @ e # es2" "run_steps timers_step timers_start es1 = Inr s1"
      "timers_step s1 e = Inl f"
    by blast
  let ?ph = "protocol_end conn_next (\<lambda>c. Gone) es1"
  have p1: "protocol_ok conn_next (\<lambda>c. Gone) es1" "protocol_ok conn_next ?ph (e # es2)"
    using pr e(1) by (simp_all add: protocol_append)
  then obtain ph' where ph': "conn_next ?ph e = Some ph'" by (auto split: option.splits)
  obtain a where a: "run_steps beats_step ({}, {}) es1 = Inr a" "timers_rel ?ph s1 a"
    using tm.run_sim [OF timers_rel_start p1(1)] e(2) by auto
  have "beats_step a e = Inl f" using timers_step_sim [OF a(2) ph'] e(3) by simp
  moreover obtain B where "a = ({c. \<exists>i. Tm_negotiated c i \<in> set es1}, B)" "B = {c. ?ph c = Beating}"
    using beats_prefix [OF p1(1) e(2)] a(1) by auto
  ultimately obtain c i where "e = Tm_lost c" "Tm_negotiated c i \<in> set es1" "?ph c \<noteq> Beating"
    by (cases e) (auto split: if_splits)
  with ph' e(1) show "\<exists>es1 c es2 i. es = es1 @ Tm_lost c # es2 \<and> Tm_negotiated c i \<in> set es1 \<and>
      protocol_end conn_next (\<lambda>c. Gone) es1 c = Connected"
    by (intro exI [of _ es1] exI [of _ c] exI [of _ es2] exI [of _ i]) (auto split: if_splits)
next
  assume "\<exists>es1 c es2 i. es = es1 @ Tm_lost c # es2 \<and> Tm_negotiated c i \<in> set es1 \<and>
      protocol_end conn_next (\<lambda>c. Gone) es1 c = Connected"
  then obtain es1 c es2 i where e: "es = es1 @ Tm_lost c # es2" "Tm_negotiated c i \<in> set es1"
      "protocol_end conn_next (\<lambda>c. Gone) es1 c = Connected" by blast
  show "\<exists>f. run_steps timers_step timers_start es = Inl f"
  proof (cases "run_steps timers_step timers_start es1")
    case (Inl f)
    with e(1) show ?thesis by (simp add: run_steps_append)
  next
    case (Inr s1)
    have p1: "protocol_ok conn_next (\<lambda>c. Gone) es1" using pr e(1) by (simp add: protocol_append)
    obtain h alive where s1: "s1 = (h, alive)" by (cases s1)
    obtain u B where r: "timers_rel (protocol_end conn_next (\<lambda>c. Gone) es1) s1 (u, B)"
        "run_steps beats_step ({}, {}) es1 = Inr (u, B)"
      using tm.run_sim [OF timers_rel_start p1] Inr by auto
    have "c \<in> u" using beats_used [OF r(2)] e(2) by auto
    moreover have "c \<notin> B" "timers_ok B h" "u = dom (lh_timer_events h)" using r(1) e(3) by (auto simp: s1)
    ultimately have "timers_step s1 (Tm_lost c) = Inl Use_after_free"
      using lost_without_timer [of B h c] by (simp add: s1)
    with Inr e(1) show ?thesis by (simp add: run_steps_append)
  qed
qed

lemma one_timer:
  assumes "timers_ok B h"
  shows "card {ev. map_option tm_connection (lh_live h ev) = Some c} = of_bool (c \<in> B)"
proof (cases "c \<in> B")
  case True
  then obtain ev t where e: "lh_timer_events h c = Some ev" "lh_live h ev = Some t" "tm_connection t = c"
    using timers_okD(2) [OF assms] by blast
  have "ev' = ev" if "map_option tm_connection (lh_live h ev') = Some c" for ev'
    using timers_okD(1) [OF assms, of ev'] that e(1) by auto
  with e have "{ev. map_option tm_connection (lh_live h ev) = Some c} = {ev}" by auto
  with True show ?thesis by simp
next
  case False
  then have "{ev. map_option tm_connection (lh_live h ev) = Some c} = {}"
    using timers_okD(1) [OF assms] by auto
  with False show ?thesis by (simp only: card.empty) simp
qed

text \<open>
  C35. The heartbeat timers of the libevent handler and the connections they point to: as long as the handler is
  called in the documented order, by any number of connections that come and go, also at addresses
  that were used before, every connection that has negotiated and is not lost has exactly one
  timer, every other one has none, and a timer that fires finds its connection alive. The single
  exception, and the only case in which a run faults: a connection is lost before it has negotiated, at
  the address of an earlier one that had negotiated; the freed timer of that one is freed again.
\<close>

theorem timers_follow_connections:
  assumes "protocol_ok conn_next (\<lambda>c. Gone) es"
  shows "case run_steps timers_step timers_start es of
      Inl f \<Rightarrow> \<exists>es1 c es2 i. es = es1 @ Tm_lost c # es2 \<and> Tm_negotiated c i \<in> set es1 \<and>
        protocol_end conn_next (\<lambda>c. Gone) es1 c = Connected
    | Inr (h, alive) \<Rightarrow>
        (\<nexists>es1 c es2 i. es = es1 @ Tm_lost c # es2 \<and> Tm_negotiated c i \<in> set es1 \<and>
          protocol_end conn_next (\<lambda>c. Gone) es1 c = Connected) \<and>
        (\<forall>c. card {ev. map_option tm_connection (lh_live h ev) = Some c} =
          of_bool (protocol_end conn_next (\<lambda>c. Gone) es c = Beating))"
proof (cases "run_steps timers_step timers_start es")
  case (Inl f)
  with faulty_run_iff [OF assms] show ?thesis by simp
next
  case (Inr s)
  obtain h alive where s: "s = (h, alive)" by (cases s)
  from beats_prefix [OF assms Inr] have "timers_ok {c. protocol_end conn_next (\<lambda>c. Gone) es c = Beating} h"
    by (auto simp: s)
  from one_timer [OF this] faulty_run_iff [OF assms] Inr show ?thesis by (simp add: s)
qed

text \<open>A connection that was lost is created again at its address, and the broker refuses it before it negotiates.\<close>

definition refused_again :: "timer_event list" where
  "refused_again =
     [Tm_created 7, Tm_connected 7, Tm_negotiated 7 60, Tm_fires 0, Tm_lost 7, Tm_detached 7,
      Tm_created 7, Tm_connected 7, Tm_lost 7]"

theorem timers_follow_connections_witness:
  "protocol_ok conn_next (\<lambda>c. Gone) refused_again \<and>
   run_steps timers_step timers_start refused_again = Inl Use_after_free \<and>
   (\<exists>es1 c es2 i. refused_again = es1 @ Tm_lost c # es2 \<and> Tm_negotiated c i \<in> set es1 \<and>
      protocol_end conn_next (\<lambda>c. Gone) es1 c = Connected)"
proof -
  have p: "protocol_ok conn_next (\<lambda>c. Gone) refused_again" by (simp add: refused_again_def)
  moreover have r: "run_steps timers_step timers_start refused_again = Inl Use_after_free"
    by (simp add: refused_again_def timers_start_def new_LibEventHandler_def timerCallback_def lh_onNegotiate_def
        setTimer_def lh_onLost_def Let_def)
  ultimately show ?thesis using timers_follow_connections [OF p] by simp
qed

end
