(* ===== verification/Amqp_Uv_Handles.thy ===== *)
theory Amqp_Uv_Handles
  imports Amqp_Libuv
begin

section \<open>AMQP: the poll handles of the libuv handler\<close>

text \<open>
  \<open>libuv.h\<close> again, with the handles. \<open>Amqp_Libuv\<close> takes a watcher for the events it polls for; in the code
  it is a pointer to a \<open>uv_poll_t\<close> on the heap, which the constructor allocates and initialises and
  which the destructor must not delete: it stops the handle and closes it, and libuv calls back in
  a later turn of its loop, where the memory is released. The operations of libuv on a handle are
  modelled as documented; using a handle that is closing or released is a fault.
\<close>

record poll_handle =
  ph_fd :: c_int
  ph_data :: addr
  ph_events :: "c_int option"
  ph_closing :: bool

record uv_loop =
  ul_handles :: "addr \<Rightarrow> poll_handle option"
  ul_next :: addr

subsection \<open>libuv\<close>

definition uv_use :: "(poll_handle \<Rightarrow> poll_handle) \<Rightarrow> addr \<Rightarrow> uv_loop \<Rightarrow> handler_fault + uv_loop" where
  "uv_use upd a l =
     (case ul_handles l a of
        None \<Rightarrow> Inl Use_after_free
      | Some p \<Rightarrow>
          if ph_closing p then Inl Use_after_free
          else Inr (l\<lparr>ul_handles := (ul_handles l)(a \<mapsto> upd p)\<rparr>))"

definition uv_poll_start :: "c_int \<Rightarrow> addr \<Rightarrow> uv_loop \<Rightarrow> handler_fault + uv_loop" where
  "uv_poll_start events = uv_use (\<lambda>p. p\<lparr>ph_events := Some events\<rparr>)"

definition uv_poll_stop :: "addr \<Rightarrow> uv_loop \<Rightarrow> handler_fault + uv_loop" where
  "uv_poll_stop = uv_use (\<lambda>p. p\<lparr>ph_events := None\<rparr>)"

definition uv_close :: "addr \<Rightarrow> uv_loop \<Rightarrow> handler_fault + uv_loop" where
  "uv_close = uv_use (\<lambda>p. p\<lparr>ph_closing := True\<rparr>)"

text \<open>A turn of the loop: the close callbacks run, and they delete the handles.\<close>

definition uv_turn :: "uv_loop \<Rightarrow> uv_loop" where
  "uv_turn l =
     l\<lparr>ul_handles := (\<lambda>a. case ul_handles l a of None \<Rightarrow> None | Some p \<Rightarrow> if ph_closing p then None else Some p)\<rparr>"

subsection \<open>Watcher\<close>

definition Uv_Watcher ::
  "c_int \<Rightarrow> c_int \<Rightarrow> c_int \<Rightarrow> c_int \<Rightarrow> addr \<Rightarrow> c_int \<Rightarrow> c_int \<Rightarrow> uv_loop \<Rightarrow> handler_fault + addr \<times> uv_loop" where
  "Uv_Watcher rd wr ur uw conn fd events l =
     (let a = ul_next l;
          p = \<lparr>ph_fd = fd, ph_data = conn, ph_events = None, ph_closing = False\<rparr>;
          l1 = l\<lparr>ul_handles := (ul_handles l)(a \<mapsto> p), ul_next := Suc a\<rparr>
      in map_sum (\<lambda>f. f) (Pair a) (uv_poll_start (amqp_to_uv_events rd wr ur uw events) a l1))"

definition Uv_Watcher_destroy :: "addr \<Rightarrow> uv_loop \<Rightarrow> handler_fault + uv_loop" where
  "Uv_Watcher_destroy a l = (case uv_poll_stop a l of Inl f \<Rightarrow> Inl f | Inr l1 \<Rightarrow> uv_close a l1)"

definition Uv_Watcher_events ::
  "c_int \<Rightarrow> c_int \<Rightarrow> c_int \<Rightarrow> c_int \<Rightarrow> c_int \<Rightarrow> addr \<Rightarrow> uv_loop \<Rightarrow> handler_fault + uv_loop" where
  "Uv_Watcher_events rd wr ur uw events = uv_poll_start (amqp_to_uv_events rd wr ur uw events)"

subsection \<open>LibUvHandler\<close>

text \<open>\<open>_watchers\<close> maps descriptors to watchers; the handler is its entries and the loop.\<close>

type_synonym uv_state = "(c_int \<times> addr) list \<times> uv_loop"

definition LibUvHandler :: "uv_loop \<Rightarrow> uv_state" where
  "LibUvHandler l = ([], l)"

definition Uv_monitor ::
  "c_int \<Rightarrow> c_int \<Rightarrow> c_int \<Rightarrow> c_int \<Rightarrow> addr \<Rightarrow> c_int \<Rightarrow> c_int \<Rightarrow> uv_state \<Rightarrow> handler_fault + uv_state" where
  "Uv_monitor rd wr ur uw conn fd flags s =
     (case s of (ws, l) \<Rightarrow>
        (case map_of ws fd of
           None \<Rightarrow>
             if flags = 0 then Inr s
             else map_sum (\<lambda>f. f) (\<lambda>(a, l'). ((fd, a) # ws, l')) (Uv_Watcher rd wr ur uw conn fd flags l)
         | Some a \<Rightarrow>
             if flags = 0
             then map_sum (\<lambda>f. f) (Pair (filter (\<lambda>w. fst w \<noteq> fd) ws)) (Uv_Watcher_destroy a l)
             else map_sum (\<lambda>f. f) (Pair ws) (Uv_Watcher_events rd wr ur uw flags a l)))"

fun LibUvHandler_destroy :: "uv_state \<Rightarrow> handler_fault + uv_loop" where
  "LibUvHandler_destroy ([], l) = Inr l"
| "LibUvHandler_destroy ((fd, a) # ws, l) =
     (case Uv_Watcher_destroy a l of Inl f \<Rightarrow> Inl f | Inr l' \<Rightarrow> LibUvHandler_destroy (ws, l'))"

text \<open>An event that libuv reports for a handle: the call \<open>connection->process\<close> of its callback.\<close>

definition Uv_callback ::
  "c_int \<Rightarrow> c_int \<Rightarrow> c_int \<Rightarrow> c_int \<Rightarrow> addr \<Rightarrow> c_int \<Rightarrow> c_int \<Rightarrow> uv_loop \<Rightarrow> (addr \<times> c_int \<times> c_int) option" where
  "Uv_callback rd wr ur uw a status events l =
     map_option (\<lambda>p. (ph_data p, ph_fd p, uv_to_amqp_events rd wr ur uw status events)) (ul_handles l a)"

subsection \<open>The handles and the watchers\<close>

text \<open>The handles that are not closing are those of the watchers, each of one watcher, and they poll.\<close>

definition uv_inv :: "uv_state \<Rightarrow> bool" where
  "uv_inv s \<longleftrightarrow>
     (case s of (ws, l) \<Rightarrow>
        distinct (map fst ws) \<and> distinct (map snd ws) \<and>
        (\<forall>(fd, a) \<in> set ws. \<exists>p. ul_handles l a = Some p \<and> \<not> ph_closing p \<and> ph_fd p = fd \<and> ph_events p \<noteq> None) \<and>
        (\<forall>a p. ul_handles l a = Some p \<longrightarrow> a < ul_next l \<and> (ph_closing p \<or> a \<in> snd ` set ws)))"

definition uv_abs :: "uv_state \<Rightarrow> uv_handler" where
  "uv_abs s =
     (case s of (ws, l) \<Rightarrow>
        (\<lambda>fd. case map_of ws fd of
           None \<Rightarrow> None
         | Some a \<Rightarrow> map_option (\<lambda>p. \<lparr>uv_connection = ph_data p, uv_events = the (ph_events p)\<rparr>) (ul_handles l a)))"

lemma uv_invD:
  assumes "uv_inv (ws, l)"
  shows "distinct (map fst ws)" and "distinct (map snd ws)"
    and "(fd, a) \<in> set ws \<Longrightarrow> \<exists>p. ul_handles l a = Some p \<and> \<not> ph_closing p \<and> ph_fd p = fd \<and> ph_events p \<noteq> None"
    and "ul_handles l a = Some p \<Longrightarrow> a < ul_next l"
    and "ul_handles l a = Some p \<Longrightarrow> \<not> ph_closing p \<Longrightarrow> \<exists>fd. (fd, a) \<in> set ws"
  using assms unfolding uv_inv_def by (blast, blast, blast, blast, force)

lemma uv_invI:
  assumes "distinct (map fst ws)" and "distinct (map snd ws)"
    and "\<And>fd a. (fd, a) \<in> set ws \<Longrightarrow>
      \<exists>p. ul_handles l a = Some p \<and> \<not> ph_closing p \<and> ph_fd p = fd \<and> ph_events p \<noteq> None"
    and "\<And>a p. ul_handles l a = Some p \<Longrightarrow> a < ul_next l"
    and "\<And>a p. ul_handles l a = Some p \<Longrightarrow> \<not> ph_closing p \<Longrightarrow> \<exists>fd. (fd, a) \<in> set ws"
  shows "uv_inv (ws, l)"
  unfolding uv_inv_def prod.case using assms by (force simp: image_iff)

text \<open>Two entries with the same handle are the same entry.\<close>

lemma distinct_snd: "distinct (map snd ws) \<Longrightarrow> (fd, a) \<in> set ws \<Longrightarrow> (fd', a) \<in> set ws \<Longrightarrow> fd = fd'"
  by (induction ws) (auto simp: image_iff)

lemma uv_handle:
  assumes "uv_inv (ws, l)" and "map_of ws fd = Some a"
  obtains p where "ul_handles l a = Some p" and "\<not> ph_closing p" and "ph_fd p = fd" and "ph_events p \<noteq> None"
    and "(fd, a) \<in> set ws"
  using uv_invD(3) [OF assms(1) map_of_SomeD [OF assms(2)]] map_of_SomeD [OF assms(2)] by blast

lemma uv_new:
  assumes inv: "uv_inv (ws, l)" and none: "map_of ws fd = None" and fl: "flags \<noteq> 0"
  shows "\<exists>s'. Uv_monitor rd wr ur uw conn fd flags (ws, l) = Inr s' \<and> uv_inv s' \<and>
    uv_abs s' = (uv_abs (ws, l))(fd \<mapsto> \<lparr>uv_connection = conn, uv_events = amqp_to_uv_events rd wr ur uw flags\<rparr>)"
proof -
  let ?a = "ul_next l" and ?e = "amqp_to_uv_events rd wr ur uw flags"
  define l' where "l' = l\<lparr>ul_handles := (ul_handles l)(?a \<mapsto>
      \<lparr>ph_fd = fd, ph_data = conn, ph_events = Some ?e, ph_closing = False\<rparr>), ul_next := Suc ?a\<rparr>"
  have st: "Uv_monitor rd wr ur uw conn fd flags (ws, l) = Inr ((fd, ?a) # ws, l')"
    using none fl by (simp add: Uv_monitor_def Uv_Watcher_def uv_poll_start_def uv_use_def l'_def Let_def)
  have fresh: "a \<noteq> ?a" if "(fd', a) \<in> set ws" for fd' a
    using uv_invD(3) [OF inv that] uv_invD(4) [OF inv] by fastforce
  then have s: "?a \<notin> snd ` set ws" by (metis imageE prod.collapse)
  have f: "fd \<notin> fst ` set ws" using none by (simp add: map_of_eq_None_iff)
  have "uv_inv ((fd, ?a) # ws, l')"
  proof (rule uv_invI)
    show "distinct (map fst ((fd, ?a) # ws))" "distinct (map snd ((fd, ?a) # ws))"
      using uv_invD(1,2) [OF inv] s f by simp_all
    show "\<exists>p. ul_handles l' b = Some p \<and> \<not> ph_closing p \<and> ph_fd p = k \<and> ph_events p \<noteq> None"
      if "(k, b) \<in> set ((fd, ?a) # ws)" for k b
      using that uv_invD(3) [OF inv, of k b] fresh [of k b] by (cases "b = ?a") (auto simp: l'_def)
    show "b < ul_next l'" if "ul_handles l' b = Some q" for b q
      using that uv_invD(4) [OF inv, of b q] by (auto simp: l'_def split: if_splits)
    show "\<exists>k. (k, b) \<in> set ((fd, ?a) # ws)" if "ul_handles l' b = Some q" "\<not> ph_closing q" for b q
      using that uv_invD(5) [OF inv, of b q] by (auto simp: l'_def split: if_splits)
  qed
  moreover have "uv_abs ((fd, ?a) # ws, l') = (uv_abs (ws, l))(fd \<mapsto> \<lparr>uv_connection = conn, uv_events = ?e\<rparr>)"
    using fresh by (auto simp: uv_abs_def l'_def fun_eq_iff dest!: map_of_SomeD split: option.split)
  ultimately show ?thesis using st by blast
qed

lemma uv_change:
  assumes inv: "uv_inv (ws, l)" and some: "map_of ws fd = Some a" and fl: "flags \<noteq> 0"
  shows "\<exists>s'. Uv_monitor rd wr ur uw conn fd flags (ws, l) = Inr s' \<and> uv_inv s' \<and>
    uv_abs s' = (uv_abs (ws, l))(fd \<mapsto> (the (uv_abs (ws, l) fd))\<lparr>uv_events := amqp_to_uv_events rd wr ur uw flags\<rparr>)"
proof -
  let ?e = "amqp_to_uv_events rd wr ur uw flags"
  obtain p where p: "ul_handles l a = Some p" "\<not> ph_closing p" "ph_fd p = fd" "ph_events p \<noteq> None" "(fd, a) \<in> set ws"
    by (rule uv_handle [OF inv some])
  define l' where "l' = l\<lparr>ul_handles := (ul_handles l)(a \<mapsto> p\<lparr>ph_events := Some ?e\<rparr>)\<rparr>"
  have st: "Uv_monitor rd wr ur uw conn fd flags (ws, l) = Inr (ws, l')"
    using some fl p(1,2) by (simp add: Uv_monitor_def Uv_Watcher_events_def uv_poll_start_def uv_use_def l'_def)
  have "uv_inv (ws, l')"
  proof (rule uv_invI [OF uv_invD(1,2) [OF inv]])
    fix k b assume w: "(k, b) \<in> set ws"
    have "k = fd" if "b = a" using distinct_snd [OF uv_invD(2) [OF inv] _ p(5)] w that by blast
    then show "\<exists>p. ul_handles l' b = Some p \<and> \<not> ph_closing p \<and> ph_fd p = k \<and> ph_events p \<noteq> None"
      using uv_invD(3) [OF inv w] p(2,3) by (cases "b = a") (simp_all add: l'_def)
  next
    fix b q assume q: "ul_handles l' b = Some q"
    show "b < ul_next l'" using q uv_invD(4) [OF inv] p(1) by (auto simp: l'_def split: if_splits)
    show "\<exists>k. (k, b) \<in> set ws" if "\<not> ph_closing q"
      using q that uv_invD(5) [OF inv, of b q] p(5) by (cases "b = a") (auto simp: l'_def)
  qed
  moreover have "uv_abs (ws, l') = (uv_abs (ws, l))(fd \<mapsto> (the (uv_abs (ws, l) fd))\<lparr>uv_events := ?e\<rparr>)"
  proof
    fix k
    have "b \<noteq> a" if "map_of ws k = Some b" "k \<noteq> fd" for b
      using distinct_snd [OF uv_invD(2) [OF inv] map_of_SomeD [OF that(1)], of fd] p(5) that(2) by blast
    then show "uv_abs (ws, l') k = ((uv_abs (ws, l))(fd \<mapsto> (the (uv_abs (ws, l) fd))\<lparr>uv_events := ?e\<rparr>)) k"
      using some p(1) by (cases "k = fd"; cases "map_of ws k") (simp_all add: uv_abs_def l'_def)
  qed
  ultimately show ?thesis using st by blast
qed

lemma uv_remove:
  assumes inv: "uv_inv (ws, l)" and some: "map_of ws fd = Some a"
  shows "\<exists>l'. Uv_Watcher_destroy a l = Inr l' \<and> uv_inv (filter (\<lambda>w. fst w \<noteq> fd) ws, l') \<and>
    uv_abs (filter (\<lambda>w. fst w \<noteq> fd) ws, l') = (uv_abs (ws, l))(fd := None)"
proof -
  obtain p where p: "ul_handles l a = Some p" "\<not> ph_closing p" "ph_fd p = fd" "ph_events p \<noteq> None" "(fd, a) \<in> set ws"
    by (rule uv_handle [OF inv some])
  define l' where "l' = l\<lparr>ul_handles := (ul_handles l)(a \<mapsto> p\<lparr>ph_events := None, ph_closing := True\<rparr>)\<rparr>"
  have st: "Uv_Watcher_destroy a l = Inr l'"
    using p(1,2) by (simp add: Uv_Watcher_destroy_def uv_poll_stop_def uv_close_def uv_use_def l'_def)
  have ne: "b \<noteq> a" if "(fd', b) \<in> set ws" "fd' \<noteq> fd" for fd' b
    using distinct_snd [OF uv_invD(2) [OF inv] _ p(5)] that by blast
  have "uv_inv (filter (\<lambda>w. fst w \<noteq> fd) ws, l')"
  proof (rule uv_invI)
    show "distinct (map fst (filter (\<lambda>w. fst w \<noteq> fd) ws))" "distinct (map snd (filter (\<lambda>w. fst w \<noteq> fd) ws))"
      using uv_invD(1,2) [OF inv] by (simp_all add: distinct_map_filter)
  next
    fix k b assume "(k, b) \<in> set (filter (\<lambda>w. fst w \<noteq> fd) ws)"
    then have "(k, b) \<in> set ws" "b \<noteq> a" using ne by auto
    then show "\<exists>p. ul_handles l' b = Some p \<and> \<not> ph_closing p \<and> ph_fd p = k \<and> ph_events p \<noteq> None"
      using uv_invD(3) [OF inv] by (simp add: l'_def)
  next
    fix b q assume q: "ul_handles l' b = Some q"
    show "b < ul_next l'" using q uv_invD(4) [OF inv] p(1) by (auto simp: l'_def split: if_splits)
    assume c: "\<not> ph_closing q"
    then have "b \<noteq> a" using q by (auto simp: l'_def)
    then obtain k where k: "(k, b) \<in> set ws" using q c uv_invD(5) [OF inv, of b q] by (auto simp: l'_def)
    then have "k \<noteq> fd" using eq_key_imp_eq_value [OF uv_invD(1) [OF inv] p(5)] \<open>b \<noteq> a\<close> by blast
    then show "\<exists>k. (k, b) \<in> set (filter (\<lambda>w. fst w \<noteq> fd) ws)" using k by auto
  qed
  moreover have "uv_abs (filter (\<lambda>w. fst w \<noteq> fd) ws, l') = (uv_abs (ws, l))(fd := None)"
  proof
    fix k
    have "map_of (filter (\<lambda>w. fst w \<noteq> fd) ws) k = (if k = fd then None else map_of ws k)"
      by (induction ws) auto
    then show "uv_abs (filter (\<lambda>w. fst w \<noteq> fd) ws, l') k = ((uv_abs (ws, l))(fd := None)) k"
      using ne by (auto simp: uv_abs_def l'_def dest!: map_of_SomeD split: option.split)
  qed
  ultimately show ?thesis using st by blast
qed

subsection \<open>Runs\<close>

datatype uv_op =
    Op_monitor addr c_int c_int
  | Op_turn

fun uv_step :: "c_int \<Rightarrow> c_int \<Rightarrow> c_int \<Rightarrow> c_int \<Rightarrow> uv_state \<Rightarrow> uv_op \<Rightarrow> handler_fault + uv_state" where
  "uv_step rd wr ur uw s (Op_monitor conn fd flags) = Uv_monitor rd wr ur uw conn fd flags s"
| "uv_step rd wr ur uw s Op_turn = (case s of (ws, l) \<Rightarrow> Inr (ws, uv_turn l))"

text \<open>The same operations on the watchers of \<open>Amqp_Libuv\<close>.\<close>

fun uv_spec_step :: "c_int \<Rightarrow> c_int \<Rightarrow> c_int \<Rightarrow> c_int \<Rightarrow> uv_handler \<Rightarrow> uv_op \<Rightarrow> handler_fault + uv_handler" where
  "uv_spec_step rd wr ur uw h (Op_monitor conn fd flags) = Inr (uv_monitor rd wr ur uw conn fd flags h)"
| "uv_spec_step rd wr ur uw h Op_turn = Inr h"

lemma uv_abs_lookup: "uv_inv (ws, l) \<Longrightarrow> uv_abs (ws, l) fd = None \<longleftrightarrow> map_of ws fd = None"
  by (auto simp: uv_abs_def split: option.split elim: uv_handle)

lemma uv_turn_inv:
  assumes "uv_inv (ws, l)"
  shows "uv_inv (ws, uv_turn l)" and "uv_abs (ws, uv_turn l) = uv_abs (ws, l)"
proof -
  have live: "ul_handles (uv_turn l) a = ul_handles l a" if "(fd, a) \<in> set ws" for fd a
    using uv_invD(3) [OF assms that] by (auto simp: uv_turn_def)
  show "uv_inv (ws, uv_turn l)"
  proof (rule uv_invI [OF uv_invD(1,2) [OF assms]])
    show "\<exists>p. ul_handles (uv_turn l) a = Some p \<and> \<not> ph_closing p \<and> ph_fd p = fd \<and> ph_events p \<noteq> None"
      if "(fd, a) \<in> set ws" for fd a using uv_invD(3) [OF assms that] live [OF that] by simp
    show "a < ul_next (uv_turn l)" "\<not> ph_closing p \<Longrightarrow> \<exists>fd. (fd, a) \<in> set ws"
      if "ul_handles (uv_turn l) a = Some p" for a p
      using that uv_invD(4,5) [OF assms, of a p] by (auto simp: uv_turn_def split: option.splits if_splits)
  qed
  show "uv_abs (ws, uv_turn l) = uv_abs (ws, l)"
    by (auto simp: uv_abs_def fun_eq_iff dest!: map_of_SomeD live split: option.split)
qed

lemma uv_step_refines:
  assumes "uv_inv s"
  shows "\<exists>s'. uv_step rd wr ur uw s e = Inr s' \<and> uv_inv s' \<and>
    uv_spec_step rd wr ur uw (uv_abs s) e = Inr (uv_abs s')"
proof -
  obtain ws l where s: "s = (ws, l)" by fastforce
  note inv = assms [unfolded s]
  show ?thesis
  proof (cases e)
    case Op_turn
    then show ?thesis using uv_turn_inv [OF inv] s by simp
  next
    case (Op_monitor conn fd flags)
    show ?thesis
    proof (cases "map_of ws fd")
      case None
      then have "uv_abs s fd = None" using uv_abs_lookup [OF inv] s by simp
      then show ?thesis
        using Op_monitor None s inv uv_new [OF inv None, of flags rd wr ur uw conn]
        by (cases "flags = 0") (auto simp: Uv_monitor_def uv_monitor_def)
    next
      case (Some a)
      then obtain w where "uv_abs s fd = Some w" using uv_abs_lookup [OF inv, of fd] s by fastforce
      then show ?thesis
        using Op_monitor Some s uv_change [OF inv Some, of flags rd wr ur uw conn] uv_remove [OF inv Some]
        by (cases "flags = 0") (auto simp: Uv_monitor_def uv_monitor_def)
    qed
  qed
qed

interpretation uh: fault_simulation "uv_step rd wr ur uw" "uv_spec_step rd wr ur uw" "\<lambda>u e. Some ()"
  "\<lambda>u s h. uv_inv s \<and> h = uv_abs s" "\<lambda>e. [e]" for rd wr ur uw
proof
  fix p s h e p' f
  assume "uv_inv s \<and> h = uv_abs s" and "uv_step rd wr ur uw s e = Inl f"
  with uv_step_refines [of s rd wr ur uw e] show "run_steps (uv_spec_step rd wr ur uw) h [e] = Inl f" by auto
next
  fix p s h e p' s'
  assume "uv_inv s \<and> h = uv_abs s" and "uv_step rd wr ur uw s e = Inr s'"
  with uv_step_refines [of s rd wr ur uw e]
  show "\<exists>h'. run_steps (uv_spec_step rd wr ur uw) h [e] = Inr h' \<and> uv_inv s' \<and> h' = uv_abs s'" by auto
qed

text \<open>The operations on the watchers never fault, so neither do those on the handles.\<close>

lemma uv_spec_total: "\<exists>h'. run_steps (uv_spec_step rd wr ur uw) h es = Inr h'"
proof (induction es arbitrary: h)
  case Nil
  then show ?case by simp
next
  case (Cons e es)
  then show ?case by (cases e) simp_all
qed

lemma uv_run:
  assumes "uv_inv s"
  shows "\<exists>s'. run_steps (uv_step rd wr ur uw) s es = Inr s' \<and> uv_inv s' \<and>
    run_steps (uv_spec_step rd wr ur uw) (uv_abs s) es = Inr (uv_abs s')"
proof -
  obtain h' where "run_steps (uv_spec_step rd wr ur uw) (uv_abs s) es = Inr h'" using uv_spec_total by blast
  moreover have "uv_inv s \<and> uv_abs s = uv_abs s" using assms by simp
  from uh.run_sim [OF this protocol_ok_free, of rd wr ur uw es, unfolded concat_singletons]
  have "case run_steps (uv_step rd wr ur uw) s es of
      Inl f \<Rightarrow> run_steps (uv_spec_step rd wr ur uw) (uv_abs s) es = Inl f
    | Inr s' \<Rightarrow> \<exists>h. run_steps (uv_spec_step rd wr ur uw) (uv_abs s) es = Inr h \<and> uv_inv s' \<and> h = uv_abs s'" .
  ultimately show ?thesis by (auto split: sum.splits)
qed

lemma uv_destroy_all:
  "uv_inv (ws, l) \<Longrightarrow> \<exists>l'. LibUvHandler_destroy (ws, l) = Inr l' \<and> uv_inv ([], l')"
proof (induction ws arbitrary: l)
  case Nil
  then show ?case by simp
next
  case (Cons w ws)
  obtain fd a where w: "w = (fd, a)" by (cases w)
  then have "filter (\<lambda>w. fst w \<noteq> fd) (w # ws) = ws"
    using uv_invD(1) [OF Cons.prems] by (auto simp: filter_id_conv)
  with uv_remove [OF Cons.prems, of fd a] w obtain l' where "Uv_Watcher_destroy a l = Inr l'" "uv_inv (ws, l')"
    by auto
  with Cons.IH [of l'] w show ?case by simp
qed

subsection \<open>Properties\<close>

definition no_handles :: uv_loop where
  "no_handles = \<lparr>ul_handles = Map.empty, ul_next = 0\<rparr>"

lemma uv_inv_start: "uv_inv (LibUvHandler no_handles)" "uv_abs (LibUvHandler no_handles) = Map.empty"
  by (auto simp: uv_inv_def uv_abs_def LibUvHandler_def no_handles_def)

text \<open>
  C37. The handles of the libuv adapter are managed correctly: however calls of \<open>monitor\<close> and turns of the
  loop follow each other, no handle is used after it was closed or released; the handles that are
  not closing are at any time those of the watchers, polling for what was last asked; and once the
  handler is destroyed and the loop has turned, none is left.
\<close>

theorem uv_handles_are_managed:
  "\<exists>ws l l'. run_steps (uv_step rd wr ur uw) (LibUvHandler no_handles) es = Inr (ws, l) \<and>
     run_steps (uv_spec_step rd wr ur uw) Map.empty es = Inr (uv_abs (ws, l)) \<and>
     {a. \<exists>p. ul_handles l a = Some p \<and> \<not> ph_closing p} = snd ` set ws \<and>
     LibUvHandler_destroy (ws, l) = Inr l' \<and> ul_handles (uv_turn l') = Map.empty"
proof -
  obtain ws l where r: "run_steps (uv_step rd wr ur uw) (LibUvHandler no_handles) es = Inr (ws, l)" "uv_inv (ws, l)"
      "run_steps (uv_spec_step rd wr ur uw) Map.empty es = Inr (uv_abs (ws, l))"
    using uv_run [OF uv_inv_start(1), of rd wr ur uw es] by (auto simp: uv_inv_start(2))
  have live: "{a. \<exists>p. ul_handles l a = Some p \<and> \<not> ph_closing p} = snd ` set ws"
    using uv_invD(3,5) [OF r(2)] by force
  obtain l' where d: "LibUvHandler_destroy (ws, l) = Inr l'" "uv_inv ([], l')"
    using uv_destroy_all [OF r(2)] by blast
  have "ul_handles (uv_turn l') = Map.empty"
    using uv_invD(5) [OF d(2)] by (force simp: uv_turn_def fun_eq_iff split: option.split)
  with r(1,3) live d(1) show ?thesis by blast
qed

text \<open>
  An event of a handle is reported to the connection that first watched the descriptor: \<open>monitor\<close>
  changes what an existing handle polls for, never whom it reports to.
\<close>

theorem uv_handle_keeps_its_connection:
  assumes "uv_inv (ws, l)" and "map_of ws fd = Some a" and "flags \<noteq> 0"
    and "Uv_monitor rd wr ur uw conn fd flags (ws, l) = Inr (ws', l')"
  shows "map_of ws' fd = Some a \<and>
    map_option fst (Uv_callback rd wr ur uw a 0 e l') = map_option fst (Uv_callback rd wr ur uw a 0 e l)"
proof -
  obtain p where p: "ul_handles l a = Some p" "\<not> ph_closing p" by (rule uv_handle [OF assms(1,2)])
  with assms(2-4) have "ws' = ws" "ul_handles l' a = Some (p\<lparr>ph_events := Some (amqp_to_uv_events rd wr ur uw flags)\<rparr>)"
    by (auto simp: Uv_monitor_def Uv_Watcher_events_def uv_poll_start_def uv_use_def)
  with assms(2) p(1) show ?thesis by (simp add: Uv_callback_def)
qed

theorem uv_handle_keeps_its_connection_witness:
  "case run_steps (uv_step 1 2 4 8) (LibUvHandler no_handles) [Op_monitor 7 5 1] of
     Inl f \<Rightarrow> False
   | Inr s \<Rightarrow>
       (case Uv_monitor 1 2 4 8 9 5 3 s of
          Inl f \<Rightarrow> False
        | Inr (ws', l') \<Rightarrow> map_option fst (Uv_callback 1 2 4 8 0 0 4 l') = Some 7)"
proof -
  let ?run = "run_steps (uv_step 1 2 4 8) (LibUvHandler no_handles) [Op_monitor 7 5 1]"
  obtain ws l where r: "?run = Inr (ws, l)" "uv_inv (ws, l)"
    using uv_run [OF uv_inv_start(1), of 1 2 4 8 "[Op_monitor 7 5 1]"] by auto
  have v: "map_of ws 5 = Some 0" "map_option fst (Uv_callback 1 2 4 8 0 0 4 l) = Some 7"
    using r(1) by (auto simp: LibUvHandler_def no_handles_def Uv_monitor_def Uv_Watcher_def uv_poll_start_def
        uv_use_def Uv_callback_def Let_def)
  obtain s' where s': "Uv_monitor 1 2 4 8 9 5 3 (ws, l) = Inr s'"
    using uv_step_refines [OF r(2), of 1 2 4 8 "Op_monitor 9 5 3"] by auto
  obtain ws' l' where "s' = (ws', l')" by fastforce
  with uv_handle_keeps_its_connection [OF r(2) v(1) _ s' [unfolded this], of 4] v(2) r(1) s' show ?thesis by simp
qed

end
