(* ===== verification/Amqp_Asio_Timer.thy ===== *)
theory Amqp_Asio_Timer
  imports Amqp_Connection
begin

section \<open>AMQP: the heartbeat timer of the Boost.Asio handler\<close>

text \<open>
  The class \<open>Timer\<close> of \<open>include/amqpcpp/libboostasio.h\<close> over a model of \<open>boost::asio::deadline_timer\<close>:
  an absolute expiry time, the waits posted on it and the handlers ready to run, each with the
  connection and the interval bound into it. Setting the expiry cancels the posted waits, whose
  handlers then run with an error; a wait on an expired timer makes its handler ready. Times are
  microseconds. \<open>tm_beats\<close> lists the heartbeats with the time they were sent at.
\<close>

record asio_timer =
  tm_now :: nat
  tm_expiry :: nat
  tm_waiting :: "(addr option \<times> u16) list"
  tm_ready :: "(bool \<times> addr option \<times> u16) list"
  tm_alive :: bool
  tm_beats :: "(addr \<times> nat) list"

definition seconds :: "u16 \<Rightarrow> nat" where
  "seconds timeout = 1000000 * unat timeout"

definition new_Timer :: "nat \<Rightarrow> asio_timer" where
  "new_Timer now =
     \<lparr>tm_now = now, tm_expiry = now, tm_waiting = [], tm_ready = [], tm_alive = True, tm_beats = []\<rparr>"

definition tm_cancel :: "asio_timer \<Rightarrow> asio_timer" where
  "tm_cancel s = s\<lparr>tm_waiting := [], tm_ready := tm_ready s @ map (\<lambda>w. (False, w)) (tm_waiting s)\<rparr>"

definition tm_expires_at :: "nat \<Rightarrow> asio_timer \<Rightarrow> asio_timer" where
  "tm_expires_at e s = (tm_cancel s)\<lparr>tm_expiry := e\<rparr>"

definition tm_async_wait :: "addr option \<times> u16 \<Rightarrow> asio_timer \<Rightarrow> asio_timer" where
  "tm_async_wait w s = s\<lparr>tm_waiting := tm_waiting s @ [w]\<rparr>"

definition Timer_stop :: "asio_timer \<Rightarrow> asio_timer" where
  "Timer_stop s = tm_cancel s"

definition Timer_set :: "addr option \<Rightarrow> u16 \<Rightarrow> asio_timer \<Rightarrow> asio_timer" where
  "Timer_set connection timeout s =
     (let s1 = Timer_stop s;
          s2 = tm_expires_at (tm_now s1 + seconds timeout) s1
      in tm_async_wait (connection, timeout) s2)"

text \<open>The handler of a wait; \<open>ok\<close> is that it has no error. The weak pointer is locked first.\<close>

definition Timer_timeout :: "bool \<Rightarrow> addr option \<Rightarrow> u16 \<Rightarrow> asio_timer \<Rightarrow> asio_timer" where
  "Timer_timeout ok connection timeout s =
     (if \<not> tm_alive s then s
      else if ok then
        let s1 = (case connection of None \<Rightarrow> s | Some c \<Rightarrow> s\<lparr>tm_beats := tm_beats s @ [(c, tm_now s)]\<rparr>);
            s2 = tm_expires_at (tm_expiry s1 + seconds timeout) s1
        in tm_async_wait (connection, timeout) s2
      else s)"

definition Timer_destroy :: "asio_timer \<Rightarrow> asio_timer" where
  "Timer_destroy s = (Timer_stop s)\<lparr>tm_alive := False\<rparr>"

text \<open>Time passes, asio looks at its timers, a ready handler runs.\<close>

datatype timer_event = T_pass nat | T_poll | T_run

fun timer_step :: "asio_timer \<Rightarrow> timer_event \<Rightarrow> asio_timer" where
  "timer_step s (T_pass d) = s\<lparr>tm_now := tm_now s + d\<rparr>"
| "timer_step s T_poll =
     (if tm_expiry s \<le> tm_now s
      then s\<lparr>tm_waiting := [], tm_ready := tm_ready s @ map (\<lambda>w. (True, w)) (tm_waiting s)\<rparr>
      else s)"
| "timer_step s T_run =
     (case tm_ready s of
        [] \<Rightarrow> s
      | (ok, connection, timeout) # rs \<Rightarrow> Timer_timeout ok connection timeout (s\<lparr>tm_ready := rs\<rparr>))"

text \<open>
  One chain of waits: a wait is posted, or its handler is ready and the timer has expired; the expiry
  is the next multiple of the period after the heartbeats sent.
\<close>

definition pace_inv :: "addr \<Rightarrow> u16 \<Rightarrow> nat \<Rightarrow> asio_timer \<Rightarrow> bool" where
  "pace_inv c timeout t0 s \<longleftrightarrow>
     tm_alive s \<and>
     (tm_waiting s = [(Some c, timeout)] \<and> tm_ready s = [] \<or>
      tm_waiting s = [] \<and> tm_ready s = [(True, Some c, timeout)] \<and> tm_expiry s \<le> tm_now s) \<and>
     tm_expiry s = t0 + seconds timeout * Suc (length (tm_beats s)) \<and>
     t0 + seconds timeout * length (tm_beats s) \<le> tm_now s \<and>
     (\<forall>i < length (tm_beats s). fst (tm_beats s ! i) = c \<and> t0 + seconds timeout * Suc i \<le> snd (tm_beats s ! i))"

lemma pace_inv_step:
  assumes i: "pace_inv c timeout t0 s"
  shows "pace_inv c timeout t0 (timer_step s e)"
proof (cases e)
  case (T_pass d)
  with i show ?thesis by (auto simp: pace_inv_def)
next
  case T_poll
  with i show ?thesis by (auto simp: pace_inv_def)
next
  case T_run
  show ?thesis
  proof (cases "tm_ready s = []")
    case True
    with T_run i show ?thesis by simp
  next
    case False
    then have r: "tm_ready s = [(True, Some c, timeout)]" "tm_waiting s = []" "tm_expiry s \<le> tm_now s" "tm_alive s"
      using i by (auto simp: pace_inv_def)
    let ?T = "seconds timeout" and ?n = "length (tm_beats s)"
    let ?s = "s\<lparr>tm_ready := [], tm_beats := tm_beats s @ [(c, tm_now s)], tm_expiry := tm_expiry s + ?T,
        tm_waiting := [(Some c, timeout)]\<rparr>"
    have s: "timer_step s e = ?s"
      using T_run r by (simp add: Timer_timeout_def tm_expires_at_def tm_cancel_def tm_async_wait_def Let_def)
    have e: "tm_expiry s = t0 + ?T * Suc ?n" using i by (simp add: pace_inv_def)
    have b: "fst (tm_beats ?s ! k) = c \<and> t0 + ?T * Suc k \<le> snd (tm_beats ?s ! k)" if "k < length (tm_beats ?s)" for k
    proof (cases "k = ?n")
      case True
      then show ?thesis using e r(3) by simp
    next
      case False
      then have "k < ?n" using that by simp
      then show ?thesis using i by (simp add: pace_inv_def nth_append)
    qed
    have "t0 + ?T * length (tm_beats ?s) \<le> tm_now ?s" using e r(3) by simp
    moreover have "tm_expiry ?s = t0 + ?T * Suc (length (tm_beats ?s))" using e by simp
    ultimately show ?thesis unfolding s using r(4) b by (simp add: pace_inv_def)
  qed
qed

lemma pace_inv_run: "pace_inv c timeout t0 s \<Longrightarrow> pace_inv c timeout t0 (foldl timer_step s es)"
  by (induction es arbitrary: s) (simp_all add: pace_inv_step)

text \<open>
  The heartbeats do not drift: from the moment the timer is set for a period that is not 0, however
  late its handlers run, the \<open>i\<close>-th heartbeat is due \<open>i\<close> periods after that moment and not sent
  before, and whenever no handler is ready and the timer has not expired, exactly the heartbeats
  that were due have been sent.
\<close>

theorem asio_heartbeats_do_not_drift:
  assumes "timeout \<noteq> 0" and "s = foldl timer_step (Timer_set (Some c) timeout (new_Timer t0)) es"
  shows "tm_expiry s = t0 + seconds timeout * Suc (length (tm_beats s)) \<and>
    (\<forall>i < length (tm_beats s). t0 + seconds timeout * Suc i \<le> snd (tm_beats s ! i)) \<and>
    (tm_ready s = [] \<and> tm_now s < tm_expiry s \<longrightarrow>
      length (tm_beats s) = (tm_now s - t0) div seconds timeout)"
proof -
  have "pace_inv c timeout t0 (Timer_set (Some c) timeout (new_Timer t0))"
    by (simp add: pace_inv_def Timer_set_def Timer_stop_def new_Timer_def tm_cancel_def tm_expires_at_def
        tm_async_wait_def Let_def)
  then have i: "pace_inv c timeout t0 s" using pace_inv_run assms(2) by simp
  let ?n = "length (tm_beats s)" and ?T = "seconds timeout"
  have "?n = (tm_now s - t0) div ?T" if "tm_now s < tm_expiry s"
  proof (rule div_nat_eqI [symmetric])
    show "?T * ?n \<le> tm_now s - t0" "tm_now s - t0 < ?T * Suc ?n"
      using i that by (auto simp: pace_inv_def)
  qed
  with i show ?thesis by (simp add: pace_inv_def)
qed

lemma new_Timer_set:
  "Timer_set (Some c) timeout (new_Timer t0) =
     \<lparr>tm_now = t0, tm_expiry = t0 + seconds timeout, tm_waiting = [(Some c, timeout)], tm_ready = [],
      tm_alive = True, tm_beats = []\<rparr>"
  by (simp add: Timer_set_def Timer_stop_def new_Timer_def tm_cancel_def tm_expires_at_def tm_async_wait_def Let_def)

theorem asio_heartbeats_do_not_drift_witness:
  "length (tm_beats (foldl timer_step (Timer_set (Some 7) 2 (new_Timer 5)) [T_pass 3000000, T_poll, T_run])) = 1"
proof -
  let ?s = "foldl timer_step (Timer_set (Some 7) 2 (new_Timer 5)) [T_pass 3000000, T_poll, T_run]"
  have z: "(2 :: u16) \<noteq> 0" by simp
  have "tm_ready ?s = [] \<and> tm_now ?s = 3000005 \<and> tm_expiry ?s = 4000005"
    by (simp add: new_Timer_set seconds_def Timer_timeout_def tm_cancel_def tm_expires_at_def tm_async_wait_def)
  with asio_heartbeats_do_not_drift [OF z refl, of 7 5 "[T_pass 3000000, T_poll, T_run]"]
  show ?thesis by (simp only: seconds_def) simp
qed

text \<open>
  A timer that is set again, stopped or destroyed sends nothing more for the old setting: the waits
  posted before run with an error, and only the new one is posted.
\<close>

theorem reset_cancels_the_old_wait:
  "tm_waiting (Timer_set c timeout s) = [(c, timeout)] \<and>
   (\<forall>r \<in> set (tm_ready (Timer_set c timeout s)). r \<in> set (tm_ready s) \<or> \<not> fst r) \<and>
   tm_waiting (Timer_destroy s) = [] \<and>
   (\<forall>ok c t. Timer_timeout ok c t (Timer_destroy s) = Timer_destroy s)"
  by (auto simp: Timer_set_def Timer_stop_def Timer_destroy_def tm_cancel_def tm_expires_at_def
      tm_async_wait_def Timer_timeout_def Let_def)

end
