(* ===== verification/Amqp_Endian.thy ===== *)
theory Amqp_Endian
  imports Amqp_Wire
begin

section \<open>AMQP: byte order\<close>

text \<open>
  \<open>include/amqpcpp/endian.h\<close> and what \<open>outbuffer.h\<close> does with it: an integer is converted to network
  byte order by a macro, and then the memory of the converted integer is appended. The header chooses
  the macros by platform; the functions of a platform that they name (\<open>htonl\<close>, \<open>OSSwapHostToBigInt32\<close>,
  \<open>betoh32\<close>, \<open>__builtin_bswap32\<close> and their like) are modelled by what the platforms document: they swap
  the octets, or swap them on hosts that are not big-endian.
\<close>

datatype host_order = Little_endian | Big_endian

datatype platform = Apple | Windows | OpenBSD | NetBSD | FreeBSD | Linux

text \<open>The octets of an integer in the memory of a host.\<close>

definition memory_of :: "host_order \<Rightarrow> 'a::len word \<Rightarrow> octets" where
  "memory_of h w = (case h of Big_endian \<Rightarrow> be_of_word w | Little_endian \<Rightarrow> rev (be_of_word w))"

definition bswap :: "'a::len word \<Rightarrow> 'a word" where
  "bswap w = word_of_be (rev (be_of_word w))"

definition hton :: "host_order \<Rightarrow> 'a::len word \<Rightarrow> 'a word" where
  "hton h w = (case h of Big_endian \<Rightarrow> w | Little_endian \<Rightarrow> bswap w)"

definition htol :: "host_order \<Rightarrow> 'a::len word \<Rightarrow> 'a word" where
  "htol h w = (case h of Big_endian \<Rightarrow> bswap w | Little_endian \<Rightarrow> w)"

subsection \<open>The macros\<close>

text \<open>The twelve macros, as one branch of the header defines them.\<close>

record byte_order =
  htobe16 :: "u16 \<Rightarrow> u16"
  htole16 :: "u16 \<Rightarrow> u16"
  be16toh :: "u16 \<Rightarrow> u16"
  le16toh :: "u16 \<Rightarrow> u16"
  htobe32 :: "u32 \<Rightarrow> u32"
  htole32 :: "u32 \<Rightarrow> u32"
  be32toh :: "u32 \<Rightarrow> u32"
  le32toh :: "u32 \<Rightarrow> u32"
  htobe64 :: "u64 \<Rightarrow> u64"
  htole64 :: "u64 \<Rightarrow> u64"
  be64toh :: "u64 \<Rightarrow> u64"
  le64toh :: "u64 \<Rightarrow> u64"

text \<open>The functions of \<open>OSByteOrder.h\<close>.\<close>

definition apple_macros :: "host_order \<Rightarrow> byte_order" where
  "apple_macros h =
     \<lparr>htobe16 = hton h, htole16 = htol h, be16toh = hton h, le16toh = htol h,
      htobe32 = hton h, htole32 = htol h, be32toh = hton h, le32toh = htol h,
      htobe64 = hton h, htole64 = htol h, be64toh = hton h, le64toh = htol h\<rparr>"

text \<open>
  On Windows the header tests the byte order itself; on a little-endian host it builds the conversion
  of 64 bits out of two of 32 bits, after a test at run time whether \<open>htonl\<close> does anything.
\<close>

definition windows64 :: "host_order \<Rightarrow> u64 \<Rightarrow> u64" where
  "windows64 h x =
     (if hton h (1 :: u32) = 1 then x
      else push_bit 32 (ucast (hton h (ucast (x AND 0xFFFFFFFF) :: u32))) OR
           ucast (hton h (ucast (drop_bit 32 x) :: u32)))"

definition windows_little_macros :: byte_order where
  "windows_little_macros =
     \<lparr>htobe16 = hton Little_endian, htole16 = (\<lambda>x. x), be16toh = hton Little_endian, le16toh = (\<lambda>x. x),
      htobe32 = hton Little_endian, htole32 = (\<lambda>x. x), be32toh = hton Little_endian, le32toh = (\<lambda>x. x),
      htobe64 = windows64 Little_endian, htole64 = (\<lambda>x. x),
      be64toh = windows64 Little_endian, le64toh = (\<lambda>x. x)\<rparr>"

definition windows_big_macros :: byte_order where
  "windows_big_macros =
     \<lparr>htobe16 = (\<lambda>x. x), htole16 = bswap, be16toh = (\<lambda>x. x), le16toh = bswap,
      htobe32 = (\<lambda>x. x), htole32 = bswap, be32toh = (\<lambda>x. x), le32toh = bswap,
      htobe64 = (\<lambda>x. x), htole64 = bswap, be64toh = (\<lambda>x. x), le64toh = bswap\<rparr>"

text \<open>The \<open>endian.h\<close> of Linux and of the BSD systems has the macros.\<close>

definition system_macros :: "host_order \<Rightarrow> byte_order" where
  "system_macros h =
     \<lparr>htobe16 = hton h, htole16 = htol h, be16toh = hton h, le16toh = htol h,
      htobe32 = hton h, htole32 = htol h, be32toh = hton h, le32toh = htol h,
      htobe64 = hton h, htole64 = htol h, be64toh = hton h, le64toh = htol h\<rparr>"

text \<open>On NetBSD the six conversions to the host are defined by \<open>betoh16\<close> and its like.\<close>

definition netbsd_macros :: "host_order \<Rightarrow> byte_order" where
  "netbsd_macros h =
     (system_macros h)
       \<lparr>be16toh := hton h, le16toh := htol h, be32toh := hton h, le32toh := htol h,
        be64toh := hton h, le64toh := htol h\<rparr>"

definition endian_h :: "platform \<Rightarrow> host_order \<Rightarrow> byte_order" where
  "endian_h plat h =
     (case plat of
        Apple \<Rightarrow> apple_macros h
      | Windows \<Rightarrow> (case h of Little_endian \<Rightarrow> windows_little_macros | Big_endian \<Rightarrow> windows_big_macros)
      | OpenBSD \<Rightarrow> system_macros h
      | NetBSD \<Rightarrow> netbsd_macros h
      | FreeBSD \<Rightarrow> system_macros h
      | Linux \<Rightarrow> system_macros h)"

subsection \<open>OutBuffer::add\<close>

definition out_add8 :: "host_order \<Rightarrow> u8 \<Rightarrow> out_buffer \<Rightarrow> out_buffer" where
  "out_add8 h v buf = add_block (memory_of h v) buf"

definition out_add16 :: "platform \<Rightarrow> host_order \<Rightarrow> u16 \<Rightarrow> out_buffer \<Rightarrow> out_buffer" where
  "out_add16 plat h v buf = add_block (memory_of h (htobe16 (endian_h plat h) v)) buf"

definition out_add32 :: "platform \<Rightarrow> host_order \<Rightarrow> u32 \<Rightarrow> out_buffer \<Rightarrow> out_buffer" where
  "out_add32 plat h v buf = add_block (memory_of h (htobe32 (endian_h plat h) v)) buf"

definition out_add64 :: "platform \<Rightarrow> host_order \<Rightarrow> u64 \<Rightarrow> out_buffer \<Rightarrow> out_buffer" where
  "out_add64 plat h v buf = add_block (memory_of h (htobe64 (endian_h plat h) v)) buf"

text \<open>
  A \<open>float\<close> or a \<open>double\<close>, given by the bits of its representation: its memory is appended as it is.
\<close>

definition out_add_float :: "host_order \<Rightarrow> u32 \<Rightarrow> out_buffer \<Rightarrow> out_buffer" where
  "out_add_float h bits buf = add_block (memory_of h bits) buf"

definition out_add_double :: "host_order \<Rightarrow> u64 \<Rightarrow> out_buffer \<Rightarrow> out_buffer" where
  "out_add_double h bits buf = add_block (memory_of h bits) buf"

subsection \<open>Lemmas\<close>

lemma to_be_append: "b < 256 ^ n \<Longrightarrow> to_be (m + n) (a * 256 ^ n + b) = to_be m a @ to_be n b"
proof (induction n arbitrary: b)
  case 0
  then show ?case by simp
next
  case (Suc n)
  have "(a * 256 ^ Suc n + b) div 256 = a * 256 ^ n + b div 256" by simp
  moreover have "b div 256 < 256 ^ n" using Suc.prems by (simp add: div_less_iff_less_mult)
  moreover have "(of_nat (a * 256 ^ Suc n + b) :: byte) = of_nat b"
  proof (rule word_unat_eq_iff [THEN iffD2])
    have "(a * 256 ^ Suc n + b) mod 256 = (b + (a * 256 ^ n) * 256) mod 256" by (simp add: ac_simps)
    then show "unat (of_nat (a * 256 ^ Suc n + b) :: byte) = unat (of_nat b :: byte)"
      unfolding unat_of_nat_byte by simp
  qed
  ultimately show ?case using Suc.IH by simp
qed

lemma be_of_bswap:
  assumes "8 * (LENGTH('a) div 8) = LENGTH('a)"
  shows "be_of_word (bswap (w :: 'a::len word)) = rev (be_of_word w)"
proof -
  let ?n = "LENGTH('a) div 8"
  have l: "length (rev (be_of_word w)) = ?n" by (simp add: length_be_of_word)
  have "(256::nat) = 2 ^ 8" by simp
  then have "(256::nat) ^ ?n = 2 ^ LENGTH('a)" using assms by (metis power_mult)
  then have "from_be (rev (be_of_word w)) < 2 ^ LENGTH('a)" using from_be_bound [of "rev (be_of_word w)"] l by simp
  then have "unat (bswap w) = from_be (rev (be_of_word w))"
    by (simp add: bswap_def word_of_be_def unat_of_nat)
  then show ?thesis using to_be_from_be [of "rev (be_of_word w)"] l by (simp add: be_of_word_def)
qed

lemma be_of_word_halves:
  "be_of_word (push_bit 32 (ucast (a :: u32)) OR ucast (b :: u32) :: u64) = be_of_word a @ be_of_word b"
proof -
  have ab: "unat a < 2 ^ 32" "unat b < 2 ^ 32" using unsigned_less [of a] unsigned_less [of b] by simp_all
  have "push_bit 32 (ucast a :: u64) AND ucast b = 0"
    by (rule bit_word_eqI) (auto simp: bit_simps dest: bit_imp_le_length)
  then have "push_bit 32 (ucast a) OR ucast b = (push_bit 32 (ucast a) + ucast b :: u64)"
    by (simp add: disjunctive_add_eq_or)
  also have "unat \<dots> = unat a * 2 ^ 32 + unat b"
    using ab by (simp add: push_bit_eq_mult unat_word_ariths unsigned_ucast_eq take_bit_nat_eq_self)
  finally show ?thesis
    using to_be_append [of "unat b" 4 4 "unat a"] ab by (simp add: be_of_word_def)
qed

lemma bswap_16 [simp]: "be_of_word (bswap (w :: u16)) = rev (be_of_word w)"
  and bswap_32 [simp]: "be_of_word (bswap (x :: u32)) = rev (be_of_word x)"
  and bswap_64 [simp]: "be_of_word (bswap (y :: u64)) = rev (be_of_word y)"
  by (simp_all add: be_of_bswap)

lemma bswap_bswap:
  "8 * (LENGTH('a) div 8) = LENGTH('a) \<Longrightarrow> bswap (bswap w) = (w :: 'a::len word)"
  by (simp add: bswap_def [of "bswap w"] be_of_bswap word_of_be_of_word)

lemma hton_hton:
  "8 * (LENGTH('a) div 8) = LENGTH('a) \<Longrightarrow> hton h (hton h w) = (w :: 'a::len word)"
  by (simp add: hton_def bswap_bswap split: host_order.split)

text \<open>The two halves of a 64-bit word.\<close>

lemma u64_halves:
  "be_of_word (x :: u64) =
     be_of_word (ucast (drop_bit 32 x) :: u32) @ be_of_word (ucast (x AND 0xFFFFFFFF) :: u32)"
proof -
  have "x = push_bit 32 (ucast (ucast (drop_bit 32 x) :: u32)) OR ucast (ucast (x AND 0xFFFFFFFF) :: u32)"
  proof (rule bit_word_eqI)
    fix n assume "n < LENGTH(64)"
    moreover have "mask 32 = (0xFFFFFFFF :: u64)" by (simp add: mask_eq_exp_minus_1)
    then have "bit (0xFFFFFFFF :: u64) m = (m < 32)" if "m < 64" for m
      using bit_mask_iff [of 32 m, where 'a = u64] that by simp
    ultimately show "bit x n = bit (push_bit 32 (ucast (ucast (drop_bit 32 x) :: u32)) OR
        ucast (ucast (x AND 0xFFFFFFFF) :: u32) :: u64) n"
      by (cases "n < 32") (auto simp: bit_simps)
  qed
  then show ?thesis by (metis be_of_word_halves)
qed

lemma hton_1: "hton Little_endian (1 :: u32) \<noteq> 1" and hton_1_big: "hton Big_endian (1 :: u32) = 1"
proof -
  have "be_of_word (bswap (1 :: u32)) \<noteq> be_of_word (1 :: u32)" unfolding bswap_32 by code_simp
  then have "bswap (1 :: u32) \<noteq> 1" by metis
  then show "hton Little_endian (1 :: u32) \<noteq> 1" by (simp add: hton_def)
qed (simp add: hton_def)

lemma windows64_hton: "windows64 h x = hton h x"
proof (cases h)
  case Big_endian
  then show ?thesis by (simp add: windows64_def hton_1_big) (simp add: hton_def)
next
  case Little_endian
  have "be_of_word (windows64 h x) = rev (be_of_word x)"
    using Little_endian hton_1 unfolding u64_halves [of x]
    by (simp add: windows64_def be_of_word_halves) (simp add: hton_def)
  then have "be_of_word (windows64 h x) = be_of_word (bswap x)" by simp
  then have "windows64 h x = bswap x" by (metis word64_of_be)
  with Little_endian show ?thesis by (simp add: hton_def)
qed

text \<open>Every branch of the header defines the same functions.\<close>

lemma endian_h_eq: "endian_h plat h = system_macros h"
proof -
  have "windows_little_macros = system_macros Little_endian"
    by (simp add: windows_little_macros_def system_macros_def fun_eq_iff windows64_hton htol_def)
  moreover have "windows_big_macros = system_macros Big_endian"
    by (simp add: windows_big_macros_def system_macros_def fun_eq_iff hton_def htol_def)
  moreover have "apple_macros h = system_macros h" "netbsd_macros h = system_macros h"
    by (simp_all add: apple_macros_def netbsd_macros_def system_macros_def)
  ultimately show ?thesis
    by (cases plat; cases h) (simp_all add: endian_h_def)
qed

lemma memory_of_hton:
  "8 * (LENGTH('a) div 8) = LENGTH('a) \<Longrightarrow> memory_of h (hton h (w :: 'a::len word)) = be_of_word w"
  by (cases h) (simp_all add: memory_of_def hton_def be_of_bswap)

subsection \<open>Properties\<close>

text \<open>
  C39. The byte order on the wire does not depend on the host: on every platform and every byte order, what
  \<open>OutBuffer::add\<close> appends for an integer of 8, 16, 32 or 64 bits, the memory of the converted
  integer, is the big-endian octets that the model of the wire writes; and converting back gives the
  integer again. This includes the 64-bit conversion that Windows builds out of two halves.
\<close>

theorem network_byte_order:
  "out_add8 h a buf = add_word a buf \<and> out_add16 plat h b buf = add_word b buf \<and>
   out_add32 plat h c buf = add_word c buf \<and> out_add64 plat h d buf = add_word d buf \<and>
   be16toh (endian_h plat h) (htobe16 (endian_h plat h) b) = b \<and>
   be32toh (endian_h plat h) (htobe32 (endian_h plat h) c) = c \<and>
   be64toh (endian_h plat h) (htobe64 (endian_h plat h) d) = d"
proof -
  have "memory_of h a = be_of_word a" by (cases h) (simp_all add: memory_of_def)
  then show ?thesis
    by (simp add: out_add8_def out_add16_def out_add32_def out_add64_def add_block_def add_word_def
        endian_h_eq system_macros_def memory_of_hton hton_hton)
qed

text \<open>
  Floating point numbers are the exception: what is appended for them depends on the host. It is in network
  byte order exactly on big-endian hosts, or if the octets of the number read the same from both ends;
  a little-endian host writes the octets of another number.
\<close>

lemma rev_octets_iff:
  assumes "8 * (LENGTH('a) div 8) = LENGTH('a)"
  shows "memory_of h w = be_of_word (w :: 'a::len word) \<longleftrightarrow> h = Big_endian \<or> bswap w = w"
proof (cases h)
  case Little_endian
  have "rev (be_of_word w) = be_of_word w \<longleftrightarrow> bswap w = w"
    using be_of_bswap [OF assms, of w] word_of_be_of_word [OF assms] by metis
  with Little_endian show ?thesis by (simp add: memory_of_def)
qed (simp add: memory_of_def)

theorem floats_keep_host_order:
  "(out_add_float h a buf = add_word a buf \<longleftrightarrow> h = Big_endian \<or> bswap a = a) \<and>
   (out_add_double h b buf = add_word b buf \<longleftrightarrow> h = Big_endian \<or> bswap b = b) \<and>
   out_add_float Little_endian a buf = add_word (bswap a) buf \<and>
   out_add_double Little_endian b buf = add_word (bswap b) buf"
  using rev_octets_iff [of h a] rev_octets_iff [of h b]
  by (simp add: out_add_float_def out_add_double_def add_block_def add_word_def) (simp add: memory_of_def)

end
