(* ===== verification/Amqp_Entity.thy ===== *)
theory Amqp_Entity
  imports Amqp_Fields
begin

section \<open>AMQP: exchanges and queues as entities\<close>

text \<open>
  \<open>include/amqpcpp/entityimpl.h\<close>, the common base of an older interface to exchanges and queues: a name,
  three flags and a table of arguments, with their accessors. The four operations of the derived
  classes are an interface. \<open>name()\<close> returns a reference, so it also changes the name. \<open>argument\<close> is left
  out: it binds the proxy that the table returns to a \<open>std::string &\<close>, which is not a valid conversion.
\<close>

record entity =
  en_channel :: "addr option"
  en_name :: octets
  en_durable :: bool
  en_passive :: bool
  en_autoDelete :: bool
  en_arguments :: table

record ('e, 's) entity_interface =
  ei_bind :: "octets \<Rightarrow> octets \<Rightarrow> 's \<Rightarrow> 'e + bool \<times> 's"
  ei_unbind :: "octets \<Rightarrow> octets \<Rightarrow> 's \<Rightarrow> 'e + bool \<times> 's"
  ei_declare :: "'s \<Rightarrow> 'e + bool \<times> 's"
  ei_remove :: "'s \<Rightarrow> 'e + bool \<times> 's"

definition EntityImpl :: "addr option \<Rightarrow> entity" where
  "EntityImpl channel =
     \<lparr>en_channel = channel, en_name = [], en_durable = False, en_passive = False,
      en_autoDelete = False, en_arguments = []\<rparr>"

definition entity_name :: "entity \<Rightarrow> octets" where
  "entity_name e = en_name e"

definition entity_name_ref :: "octets \<Rightarrow> entity \<Rightarrow> entity" where
  "entity_name_ref v e = e\<lparr>en_name := v\<rparr>"

definition setName :: "octets \<Rightarrow> entity \<Rightarrow> entity" where
  "setName v e = e\<lparr>en_name := v\<rparr>"

definition durable :: "entity \<Rightarrow> bool" where
  "durable e = en_durable e"

definition setDurable :: "bool \<Rightarrow> entity \<Rightarrow> entity" where
  "setDurable b e = e\<lparr>en_durable := b\<rparr>"

definition is_passive :: "entity \<Rightarrow> bool" where
  "is_passive e = en_passive e"

definition setPassive :: "bool \<Rightarrow> entity \<Rightarrow> entity" where
  "setPassive b e = e\<lparr>en_passive := b\<rparr>"

definition autoDelete :: "entity \<Rightarrow> bool" where
  "autoDelete e = en_autoDelete e"

definition setAutoDelete :: "bool \<Rightarrow> entity \<Rightarrow> entity" where
  "setAutoDelete b e = e\<lparr>en_autoDelete := b\<rparr>"

text \<open>The assignment goes through a proxy of the table, which stores a long string.\<close>

definition setArgument :: "octets \<Rightarrow> octets \<Rightarrow> entity \<Rightarrow> entity" where
  "setArgument name v e = e\<lparr>en_arguments := table_proxy_assign name (C_string v) (en_arguments e)\<rparr>"

subsection \<open>Assignments do not disturb each other\<close>

datatype entity_call =
    Set_name octets
  | Name_ref octets
  | Set_durable bool
  | Set_passive bool
  | Set_autoDelete bool
  | Set_argument octets octets

fun entity_do :: "entity_call \<Rightarrow> entity \<Rightarrow> entity" where
  "entity_do (Set_name v) e = setName v e"
| "entity_do (Name_ref v) e = entity_name_ref v e"
| "entity_do (Set_durable b) e = setDurable b e"
| "entity_do (Set_passive b) e = setPassive b e"
| "entity_do (Set_autoDelete b) e = setAutoDelete b e"
| "entity_do (Set_argument k v) e = setArgument k v e"

text \<open>The last value that a list of calls assigns, if any does.\<close>

definition latest :: "('c \<Rightarrow> 'v option) \<Rightarrow> 'v \<Rightarrow> 'c list \<Rightarrow> 'v" where
  "latest sel v cs = fold (\<lambda>c v. case sel c of None \<Rightarrow> v | Some w \<Rightarrow> w) cs v"

lemma latest_simps [simp]:
  "latest sel v [] = v"
  "latest sel v (c # cs) = latest sel (case sel c of None \<Rightarrow> v | Some w \<Rightarrow> w) cs"
  by (simp_all add: latest_def)

fun name_call :: "entity_call \<Rightarrow> octets option" where
  "name_call (Set_name v) = Some v"
| "name_call (Name_ref v) = Some v"
| "name_call _ = None"

fun durable_call :: "entity_call \<Rightarrow> bool option" where
  "durable_call (Set_durable b) = Some b"
| "durable_call _ = None"

fun passive_call :: "entity_call \<Rightarrow> bool option" where
  "passive_call (Set_passive b) = Some b"
| "passive_call _ = None"

fun autoDelete_call :: "entity_call \<Rightarrow> bool option" where
  "autoDelete_call (Set_autoDelete b) = Some b"
| "autoDelete_call _ = None"

fun argument_call :: "octets \<Rightarrow> entity_call \<Rightarrow> field option option" where
  "argument_call k (Set_argument k' v) = (if k' = k then Some (Some (F_LongString v)) else None)"
| "argument_call k _ = None"

lemmas entity_defs =
  entity_name_def entity_name_ref_def setName_def durable_def setDurable_def is_passive_def setPassive_def
  autoDelete_def setAutoDelete_def setArgument_def table_proxy_assign_def Table_set_def

lemma entity_after_calls:
  "table_ok (en_arguments e) \<Longrightarrow>
   entity_name (fold entity_do cs e) = latest name_call (entity_name e) cs \<and>
   durable (fold entity_do cs e) = latest durable_call (durable e) cs \<and>
   is_passive (fold entity_do cs e) = latest passive_call (is_passive e) cs \<and>
   autoDelete (fold entity_do cs e) = latest autoDelete_call (autoDelete e) cs \<and>
   map_of (en_arguments (fold entity_do cs e)) k = latest (argument_call k) (map_of (en_arguments e) k) cs \<and>
   table_ok (en_arguments (fold entity_do cs e))"
proof (induction cs arbitrary: e)
  case Nil
  then show ?case by simp
next
  case (Cons c cs)
  have ok: "table_ok (en_arguments (entity_do c e))"
    using Cons.prems by (cases c) (simp_all add: entity_defs map_assign_ok)
  from Cons.IH [OF ok] Cons.prems show ?case
    by (cases c) (simp_all add: entity_defs map_assign_map_of)
qed

text \<open>
  An entity is what was assigned last: after any sequence of calls on a new entity, every accessor
  yields the value of the last call that assigns it, and the default without one; every argument is
  the last string assigned to its name, as a long string, and there are no others.
\<close>

theorem entity_is_last_assignment:
  "entity_name (fold entity_do cs (EntityImpl ch)) = latest name_call [] cs \<and>
   durable (fold entity_do cs (EntityImpl ch)) = latest durable_call False cs \<and>
   is_passive (fold entity_do cs (EntityImpl ch)) = latest passive_call False cs \<and>
   autoDelete (fold entity_do cs (EntityImpl ch)) = latest autoDelete_call False cs \<and>
   map_of (en_arguments (fold entity_do cs (EntityImpl ch))) k = latest (argument_call k) None cs"
  using entity_after_calls [of "EntityImpl ch" cs k]
  by (simp add: EntityImpl_def table_ok_def entity_defs)

end
