(* ===== verification/Spec2Isabelle.thy ===== *)
theory Spec2Isabelle
  imports System_Props Linked_System Process Network Amqp_Message Amqp_Properties Amqp_Output Amqp_Field_Objects Amqp_Tcp Amqp_Adapters Amqp_Libevent_Timers Amqp_Uv_Handles
    Amqp_Asio_Timer Amqp_Endian Amqp_Entity
begin

text \<open>
  \<^bold>\<open>A TCP proxy with a control channel, and the AMQP headers it is built on\<close>

  \<^bold>\<open>The program.\<close> \<open>src/*.cpp\<close> is a single-threaded proxy on libevent. A client connects and sends a
  12-byte first message (tag 1, size 4, its id, big-endian); the proxy looks the id up in a routing
  table read from a file, connects to the host found there and from then on moves bytes both ways.
  A control channel listens to a RabbitMQ queue; a JSON message \<open>{"job": "close_sockets",
  "client_id": n}\<close> disconnects the clients with the id \<open>n\<close>, or everybody for a negative \<open>n\<close>. The AMQP
  client is AMQP-CPP: its headers, with much inline code, are in \<open>src/include/amqpcpp\<close>; its compiled
  part is not in the repository.

  \<^bold>\<open>The theories and what they model.\<close>
  \<^item> \<open>Prelude\<close>: machine types, list lemmas, big-endian octets, the locale \<open>guarded_machine\<close> (a
    deterministic machine that faults or steps, with an invariant of the admissible steps), the locale
    \<open>fault_simulation\<close> (a machine simulated by a more abstract one, faults included).
  \<^item> \<open>Streams\<close>: \<open>std::getline\<close>, \<open>operator>>\<close> for \<open>int\<close>, \<open>uint16_t\<close> and \<open>std::string\<close>, \<open>std::atoi\<close>
    and the state bits of a stream, as the standard defines them.
  \<^item> \<open>Config\<close>: \<open>config.cpp/.h\<close> and \<open>toPriority\<close>; the record \<open>config\<close> is the class.
  \<^item> \<open>Connection_Processor\<close>: \<open>connectionprocessor.cpp/.h\<close> and \<open>forwarder.cpp/.h\<close>; a bufferevent
    is a pair of byte queues and a flag for the pointer, a callback member is a flag for whether it
    is set.
  \<^item> \<open>Proxy\<close> and \<open>Proxy_Props\<close>: \<open>proxy.cpp/.h\<close>, the events of the two bufferevents of a proxy
    (\<open>px_step\<close>), the invariant \<open>px_inv\<close> and the properties of one proxy. \<open>Delivery\<close>: a proxy with its
    two sockets, to which libevent writes the queued bytes.
  \<^item> \<open>Connection_Manager\<close>, \<open>Proxy_Manager\<close>: \<open>connectionmanager.cpp/.h\<close>, \<open>proxymanager.cpp/.h\<close>,
    \<open>controller.cpp/.h\<close>; objects live at addresses, exactly while the manager holds them.
  \<^item> \<open>Control_Channel\<close>: \<open>controlchannel.cpp/.h\<close>, \<open>jsonparser.cpp/.h\<close>; the callbacks of the channel
    are steps whose calls to the library and to the controller are their output. \<open>Control_Link\<close> runs the
    same program on the model of the AMQP channel, through the facade, and shows that it refines
    these steps under a broker that conforms to the protocol.
  \<^item> \<open>Server\<close>: \<open>server.cpp/.h\<close>, and \<open>main\<close> before and after its event loop.
  \<^item> \<open>Proxy_System\<close> and \<open>System_Props\<close>: the objects as \<open>main\<close> wires them, one event of the loop per
    step (\<open>sys_step\<close>), the reachable states (\<open>sys_reach\<close>), the invariant \<open>sys_inv\<close> and the
    properties that span components. \<open>Linked_System\<close> is the same program with the control channel of
    \<open>Control_Link\<close>; the locale \<open>fault_simulation\<close> of the prelude, interpreted on the two programs,
    carries its runs over to the abstract one. \<open>Network\<close> adds the sockets of all clients: the events of one
    client, picked out of a run of the program, are a run of \<open>Delivery\<close>.
  \<^item> \<open>Lifetimes\<close>: what each of these operations touches, creates, frees and locks, destructors included,
    as a trace that a checker of the memory runs; the locale \<open>proxy_owner\<close> is what a proxy relies on of
    the manager that destroys it, interpreted on the proxy manager. \<open>Process\<close> is all of \<open>main\<close> as a
    state machine: set-up, event loop, shutdown and destructors, with signals in every phase.
  \<^item> \<open>Amqp_Wire\<close>: \<open>outbuffer.h\<close>, \<open>copiedbuffer.h\<close>, \<open>bytebuffer.h\<close>, \<open>booleanset.h\<close>,
    \<open>numericfield.h\<close>, \<open>stringfield.h\<close>, \<open>decimalfield.h\<close>; the locale \<open>field_codec\<close> is what a field
    type promises (decoding undoes filling, the size is the number of octets), interpreted for
    every field type; the locale \<open>octet_buffer\<close> is the interface \<open>buffer.h\<close>, interpreted for
    \<open>ByteBuffer\<close>. \<open>Amqp_Endian\<close>: \<open>endian.h\<close>, the conversions of every platform and what \<open>OutBuffer::add\<close>
    makes of them. \<open>Amqp_Entity\<close>: \<open>entityimpl.h\<close>.
  \<^item> \<open>Amqp_Metadata\<close>, \<open>Amqp_Properties\<close>, \<open>Amqp_Message\<close>: \<open>metadata.h\<close>, its accessors (the locale
    \<open>meta_property\<close>, interpreted for each property); \<open>envelope.h\<close>, \<open>message.h\<close>.
  \<^item> \<open>Amqp_Address\<close>: \<open>login.h\<close>, \<open>address.h\<close>, \<open>addresses.h\<close>.
  \<^item> \<open>Amqp_Fields\<close>, \<open>Amqp_Output\<close>: \<open>field.h\<close>, \<open>array.h\<close>, \<open>table.h\<close>, \<open>fieldproxy.h\<close>; the printing of fields
    and the reads through proxies. \<open>Amqp_Field_Classes\<close>: constructors, copies and accessors of the field
    classes, and their constructors from a frame. \<open>Amqp_Field_Objects\<close>: fields as objects in a store,
    with containers that hold pointers; \<open>fault_simulation\<close> is interpreted again to show that programs
    on them are programs on values.
  \<^item> \<open>Amqp_Deferred\<close>, \<open>Amqp_Channel\<close>: \<open>deferred*.h\<close>; \<open>channelimpl.h\<close>. The chain of pending
    operations is a heap of objects linked by addresses, as in the code.
  \<^item> \<open>Amqp_Facade\<close>: \<open>channel.h\<close>, \<open>connection.h\<close>, \<open>linux_tcp/tcpchannel.h\<close>. A channel object is the
    pointer to its implementation; an operation is the request it makes, its overloads are the
    constructors of a type of argument lists.
  \<^item> \<open>Amqp_Connection\<close>: \<open>connectionimpl.h\<close>, \<open>watchable.h\<close>, \<open>monitor.h\<close>, \<open>stack_ptr.h\<close>,
    \<open>libevent.h\<close>, the adapter the program uses; the locale \<open>fd_monitor\<close> is what every event loop
    adapter promises for \<open>monitor\<close>, interpreted for each of the four. \<open>Amqp_Libevent_Timers\<close>: its timers with
    the connections that come and go.
  \<^item> \<open>Amqp_Libev\<close>, \<open>Amqp_Libuv\<close>, \<open>Amqp_Boostasio\<close>: the other adapters, \<open>libev.h\<close> with its heartbeat
    timer, \<open>libuv.h\<close> (\<open>Amqp_Uv_Handles\<close>: its poll handles on the heap), and \<open>libboostasio.h\<close> with its
    asynchronous operations; \<open>Amqp_Asio_Timer\<close>: its timer class.
  \<^item> \<open>Amqp_Tcp\<close>: the interfaces \<open>connectionhandler.h\<close>, \<open>linux_tcp/tcphandler.h\<close> as records of functions
    with their defaults, the inline part of \<open>linux_tcp/tcpconnection.h\<close> and of \<open>receivedframe.h\<close>.
    \<open>Amqp_Adapters\<close>: the four adapters as handlers of TCP connections; the locale \<open>tcp_adapter\<close> is what a
    connection relies on, \<open>descriptor_adapter\<close> one that gives \<open>fd_monitor\<close>.

  \<^bold>\<open>Conventions.\<close> A C++ \<open>int\<close> is a 32-bit word read with \<open>sint\<close>, an unsigned integer a word of its
  width. An operation that may dereference null, call an empty \<open>std::function\<close>, read an
  uninitialised member, throw or index outside an array returns \<open>Inl\<close> of a \<open>fault\<close>. What an
  uninitialised variable holds is an argument (\<open>indet\<close>, \<open>junk\<close>). Logging has no effect on the
  state; where a log statement dereferences a pointer, the model faults if it is null. Only one
  thread runs, so an operation that takes a mutex is one step; \<open>Lifetimes\<close> shows that it is never taken
  twice.

  \<^bold>\<open>Code that is not in the repository\<close> is a parameter with laws that state its documentation:
  \<open>libevent_laws\<close> (moving a buffer moves all of it or nothing, copying out copies a prefix),
  \<open>jsoncpp\<close> (the accessors of a parsed document), \<open>reader_laws\<close> (\<open>ReceivedFrame\<close> reads big-endian
  values from the front), \<open>table_laws\<close> (a table decodes from its own octets), \<open>channel_lib_laws\<close> (an
  operation appends its deferred object to the pending ones, a confirmed consumer is installed
  under its tag, an error reaches the error callback); for the channel alone, what the prebuilt
  part does with an answer, and what the application does in a callback. Each law is
  shown to hold of a concrete instance, on which the witnesses run.

  \<^bold>\<open>What is shown.\<close> For the proxy: no reachable event faults; the bytes queued and held on each side
  are those received; a live proxy is connected to the host of the id it was given; what the first
  message leads to on every branch; both ways of closing; what reaches
  the sockets is a prefix of what was sent, and a close cuts it off. For the whole program: every client is
  served as a proxy that runs alone, its sockets included, and gets everything its server sends while it is
  open, though what is held for it meanwhile has no bound; runs never fault,
  the callbacks never touch an object below which it was destroyed, and everything is freed once;
  the process exits clean, and a signal ends it wherever it comes but for two points of \<open>main\<close>;
  clients do not disturb each other, CLOSE hits only clients of its id, and all of them while the
  registry records them; the registry loses a client exactly through a namesake that leaves, with
  a reachable example; the program whose control channel runs on the AMQP channel refines the one
  with the abstract control channel, so that a delivered \<open>close_sockets\<close> body is followed from the
  broker to the sockets; CLOSE_ALL ends service for good. For the configuration: the stream loop
  refines a line-wise reader, a rendered table is read back, and the loop ends after at most one
  round more than there are lines. Every reachable state of the program is well formed. For the AMQP headers:
  round trips of
  meta data and addresses, sizes, assembly of messages from frames, the matching of answers to
  pending operations, properties and tables as finite maps, every field read back, fields as
  values in spite of their shared pointers, printed forms, monitors, watchers up
  through the TCP layer, alike for all event loops, the pace of heartbeats, the
  timers of connections that come and go, the operations outstanding in asio, the life of
  channel objects, the overloads of \<open>publish\<close>. Several theorems state
  what the code does where it is not what it means to do: a line without a port or
  with a port that is too large, a failed connect, a client that is slow to read, records of negative ids,
  a message body that is not an object, address lists, timers freed twice, moved
  channels, swapped arguments of \<open>unbindExchange\<close>, frame sizes that wrap around.

  \<^bold>\<open>Termination.\<close> No fuel is used. The loops that are not structural (\<open>read_loop\<close>, \<open>lines_of\<close>,
  \<open>addresses_loop\<close>, \<open>bs_output_loop\<close>) are functions with a measure: what is left of the stream and
  its state bits, the length of the text; \<open>read_rounds\<close> is the same stream loop as a while
  combinator, which is \<open>None\<close> for a loop that does not end, and is shown never to be. The event loop is a relation
  on states; runs are lists of events.

  \<^bold>\<open>Not modelled.\<close> Floating point fields (but for the octets
  appended for a number), what the prebuilt library implements (the requests of a
  channel, the frames, the TCP states, the decoding of tables), the declarations of callbacks and flags,
  one function of \<open>entityimpl.h\<close> that does not compile, the texts of log messages, tests and build
  files. The destructors of channels, connections and TCP connections of AMQP-CPP, the parsing of frames
  and the sockets are declared in the headers only: they are parameters or left out. What else the map
  does not name is mostly declarations, empty destructors, deleted copy constructors, and accessors that
  are the selectors of the records.
\<close>

end
